(* ===== verification/Prelude.thy ===== *)
theory Prelude
  imports Main "HOL-Library.Product_Lexorder"
begin

text \<open>
  Vocabulary shared by every component: the state-and-error operations in which the Go
  methods are written (a result of type \<open>error + 'a\<close> beside the new state), SQL's nullable
  aggregates, and the generic lemmas on lists and sorting that the component proofs use.
\<close>

named_theorems op_simps \<open>unfolding of the state-and-error combinators\<close>
named_theorems go_text \<open>evaluation of the Go string functions\<close>

section \<open>Operations with state and error results\<close>

text \<open>
  A Go method \<open>func (q *T) m(args) (A, error)\<close> is a function of the arguments and of the
  state, returning \<open>Inl err\<close> or \<open>Inr v\<close> and the state it leaves. The state is returned in
  the error case too: an early return does not undo what the method has already done.
\<close>

type_synonym ('s, 'e, 'a) op = "'s \<Rightarrow> ('e + 'a) \<times> 's"

definition ret :: "'a \<Rightarrow> ('s, 'e, 'a) op" where
  "ret v = (\<lambda>s. (Inr v, s))"

definition fail :: "'e \<Rightarrow> ('s, 'e, 'a) op" where
  "fail e = (\<lambda>s. (Inl e, s))"

definition bnd :: "('s, 'e, 'a) op \<Rightarrow> ('a \<Rightarrow> ('s, 'e, 'b) op) \<Rightarrow> ('s, 'e, 'b) op" where
  "bnd m k = (\<lambda>s. case m s of (Inl e, s') \<Rightarrow> (Inl e, s') | (Inr v, s') \<Rightarrow> k v s')"

text \<open>A pure fallible computation, run without touching the state.\<close>

definition lift_sum :: "'e + 'a \<Rightarrow> ('s, 'e, 'a) op" where
  "lift_sum r = (\<lambda>s. (r, s))"

text \<open>
  \<open>tx := db.Begin(); defer tx.Rollback(); ...; return tx.Commit()\<close>: when the body
  reports an error the state of before the transaction is restored.
\<close>

definition in_tx :: "('s, 'e, 'a) op \<Rightarrow> ('s, 'e, 'a) op" where
  "in_tx m = (\<lambda>s. case m s of (Inl e, _) \<Rightarrow> (Inl e, s) | (Inr v, s') \<Rightarrow> (Inr v, s'))"

lemma ret_apply [simp, op_simps]: "ret v s = (Inr v, s)"
  by (simp add: ret_def)

lemma fail_apply [simp, op_simps]: "fail e s = (Inl e, s)"
  by (simp add: fail_def)

lemma lift_sum_apply [simp, op_simps]: "lift_sum r s = (r, s)"
  by (simp add: lift_sum_def)

lemma bnd_eq_Inr:
  "bnd m k s = (Inr w, t) \<longleftrightarrow> (\<exists>v s'. m s = (Inr v, s') \<and> k v s' = (Inr w, t))"
  by (auto simp: bnd_def split: prod.splits sum.splits)

lemma bnd_eq_Inl:
  "bnd m k s = (Inl e, t) \<longleftrightarrow>
     m s = (Inl e, t) \<or> (\<exists>v s'. m s = (Inr v, s') \<and> k v s' = (Inl e, t))"
  by (auto simp: bnd_def split: prod.splits sum.splits)

lemma bnd_Inr [simp]: "m s = (Inr v, s') \<Longrightarrow> bnd m k s = k v s'"
  by (simp add: bnd_def)

lemma bnd_Inl [simp]: "m s = (Inl e, s') \<Longrightarrow> bnd m k s = (Inl e, s')"
  by (simp add: bnd_def)

lemma in_tx_eq_Inr [simp]: "in_tx m s = (Inr v, t) \<longleftrightarrow> m s = (Inr v, t)"
  by (auto simp: in_tx_def split: prod.splits sum.splits)

lemma in_tx_eq_Inl: "in_tx m s = (Inl e, t) \<longleftrightarrow> (\<exists>s'. m s = (Inl e, s')) \<and> t = s"
  by (auto simp: in_tx_def split: prod.splits sum.splits)

lemma in_tx_error_unchanged: "in_tx m s = (Inl e, t) \<Longrightarrow> t = s"
  by (simp add: in_tx_eq_Inl)

text \<open>An operation keeps a state predicate whatever it returns.\<close>

definition keeps :: "('s \<Rightarrow> bool) \<Rightarrow> ('s, 'e, 'a) op \<Rightarrow> bool" where
  "keeps P m \<longleftrightarrow> (\<forall>s. P s \<longrightarrow> P (snd (m s)))"

lemma keepsI [intro?]: "(\<And>s. P s \<Longrightarrow> P (snd (m s))) \<Longrightarrow> keeps P m"
  by (simp add: keeps_def)

lemma keepsD: "keeps P m \<Longrightarrow> P s \<Longrightarrow> P (snd (m s))"
  by (simp add: keeps_def)

lemma keeps_ret [simp, intro]: "keeps P (ret v)"
  by (simp add: keeps_def)

lemma keeps_fail [simp, intro]: "keeps P (fail e)"
  by (simp add: keeps_def)

lemma keeps_lift_sum [simp, intro]: "keeps P (lift_sum r)"
  by (simp add: keeps_def)

lemma keeps_bnd [intro]: "keeps P m \<Longrightarrow> (\<And>v. keeps P (k v)) \<Longrightarrow> keeps P (bnd m k)"
  by (fastforce simp: keeps_def bnd_def split: prod.splits sum.splits)

lemma keeps_in_tx [intro]: "keeps P m \<Longrightarrow> keeps P (in_tx m)"
  by (fastforce simp: keeps_def in_tx_def split: prod.splits sum.splits)

lemma keeps_if [intro]: "keeps P m \<Longrightarrow> keeps P n \<Longrightarrow> keeps P (if b then m else n)"
  by simp

section \<open>SQL aggregates\<close>

text \<open>An aggregate over no rows is \<open>NULL\<close>, here \<open>None\<close>.\<close>

definition sql_max :: "int list \<Rightarrow> int option" where
  "sql_max xs = (case xs of [] \<Rightarrow> None | y # ys \<Rightarrow> Some (fold max ys y))"

definition sql_min :: "int list \<Rightarrow> int option" where
  "sql_min xs = (case xs of [] \<Rightarrow> None | y # ys \<Rightarrow> Some (fold min ys y))"

definition coalesce :: "'a option \<Rightarrow> 'a \<Rightarrow> 'a" where
  "coalesce v d = (case v of None \<Rightarrow> d | Some x \<Rightarrow> x)"

lemma fold_max_ge: "x \<in> insert y (set ys) \<Longrightarrow> x \<le> fold max ys (y :: int)"
  using Max_ge [of "set (y # ys)" x] by (simp only: Max.set_eq_fold) simp

lemma fold_min_le: "x \<in> insert y (set ys) \<Longrightarrow> fold min ys (y :: int) \<le> x"
  using Min_le [of "set (y # ys)" x] by (simp only: Min.set_eq_fold) simp

lemma sql_max_ge: "x \<in> set xs \<Longrightarrow> x < coalesce (sql_max xs) d + 1"
  using fold_max_ge [of x "hd xs" "tl xs"]
  by (cases xs) (auto simp: sql_max_def coalesce_def)

lemma sql_min_Some: "xs \<noteq> [] \<Longrightarrow> \<exists>m. sql_min xs = Some m"
  by (cases xs) (auto simp: sql_min_def)

lemma sql_min_le: "sql_min xs = Some m \<Longrightarrow> x \<in> set xs \<Longrightarrow> m \<le> x"
  using fold_min_le [of x "hd xs" "tl xs"]
  by (cases xs) (auto simp: sql_min_def)

end
