(* ===== verification/ActiveJob.thy ===== *)
theory ActiveJob
  imports Prelude
begin

text \<open>
  Cancellation: the part of package context that the worker uses (a tree of contexts, each
  with the cause of its cancellation, the first cause to arrive staying), and the state that
  ties a job to its context, worker/active_job.go. The job loop, the heartbeat and the socket
  handlers share that state; its methods hold a mutex, so a run of the program is a sequence
  of calls.
\<close>

section \<open>Contexts\<close>

datatype cause = RemoteCancellation | Canceled | DeadlineExceeded

text \<open>A context is known by its handle; \<open>above\<close> are its ancestors.\<close>

record ctx =
  above :: "nat list"
  cause :: "cause option"

type_synonym contexts = "ctx list"

definition background :: contexts where
  "background = [\<lparr>above = [], cause = None\<rparr>]"

text \<open>\<open>context.WithCancelCause(parent)\<close>: the child of a cancelled context is born cancelled.\<close>

definition with_cancel :: "nat \<Rightarrow> contexts \<Rightarrow> nat \<times> contexts" where
  "with_cancel p cs =
     (length cs, cs @ [\<lparr>above = p # above (cs ! p), cause = cause (cs ! p)\<rparr>])"

text \<open>The cancel function of the context \<open>h\<close>: it and its descendants get the cause, unless
  they have one.\<close>

definition cancel_ctx :: "nat \<Rightarrow> cause \<Rightarrow> contexts \<Rightarrow> contexts" where
  "cancel_ctx h c cs = map (\<lambda>(k, x).
     if (k = h \<or> h \<in> set (above x)) \<and> cause x = None then x\<lparr>cause := Some c\<rparr> else x)
     (enumerate 0 cs)"

text \<open>\<open>context.Cause(ctx)\<close>; \<open>ctx.Err()\<close> is nil exactly when it is.\<close>

definition cause_of :: "nat \<Rightarrow> contexts \<Rightarrow> cause option" where
  "cause_of h cs = (if h < length cs then cause (cs ! h) else None)"

definition under :: "nat \<Rightarrow> nat \<Rightarrow> contexts \<Rightarrow> bool" where
  "under k h cs \<longleftrightarrow> k = h \<or> k < length cs \<and> h \<in> set (above (cs ! k))"

lemma length_cancel_ctx [simp]: "length (cancel_ctx h c cs) = length cs"
  by (simp add: cancel_ctx_def)

lemma nth_cancel_ctx: "k < length cs \<Longrightarrow> cancel_ctx h c cs ! k =
    (if (k = h \<or> h \<in> set (above (cs ! k))) \<and> cause (cs ! k) = None
     then (cs ! k)\<lparr>cause := Some c\<rparr> else cs ! k)"
  by (simp add: cancel_ctx_def nth_enumerate_eq)

lemma above_cancel_ctx: "k < length cs \<Longrightarrow> above (cancel_ctx h c cs ! k) = above (cs ! k)"
  by (simp add: nth_cancel_ctx)

lemma cause_of_cancel_ctx:
  "cause_of k (cancel_ctx h c cs) =
     (if k < length cs \<and> under k h cs \<and> cause_of k cs = None then Some c else cause_of k cs)"
  by (auto simp: cause_of_def nth_cancel_ctx under_def)

lemma cause_of_cancel_self: "h < length cs \<Longrightarrow> cause_of h (cancel_ctx h c cs) \<noteq> None"
  by (auto simp: cause_of_cancel_ctx under_def)

lemma cause_of_with_cancel:
  "k < length cs \<Longrightarrow> cause_of k (snd (with_cancel p cs)) = cause_of k cs"
  by (simp add: cause_of_def with_cancel_def nth_append)

section \<open>The active job\<close>

text \<open>\<open>a_cancel\<close> is the context whose cancel function is held, nil as \<open>None\<close>.\<close>

record activeJobState =
  a_id :: string
  a_cancel :: "nat option"
  requestedID :: string

definition idle :: activeJobState where
  "idle = \<lparr>a_id = [], a_cancel = None, requestedID = []\<rparr>"

type_synonym active = "activeJobState \<times> contexts"

definition Activate :: "string \<Rightarrow> nat \<Rightarrow> bool \<Rightarrow> active \<Rightarrow> active" where
  "Activate jid h requested = (\<lambda>(a, cs).
     (a\<lparr>a_id := jid, a_cancel := Some h\<rparr>,
      if requested \<or> requestedID a = jid then cancel_ctx h RemoteCancellation cs else cs))"

definition Deactivate :: "string \<Rightarrow> active \<Rightarrow> active" where
  "Deactivate jid = (\<lambda>(a, cs). (if a_id a = jid then a\<lparr>a_id := [], a_cancel := None\<rparr> else a, cs))"

definition RequestCancellation :: "string \<Rightarrow> active \<Rightarrow> active" where
  "RequestCancellation jid = (\<lambda>(a, cs).
     (a\<lparr>requestedID := jid\<rparr>,
      case a_cancel a of
        Some h \<Rightarrow> if a_id a = jid then cancel_ctx h RemoteCancellation cs else cs
      | None \<Rightarrow> cs))"

text \<open>
  What may happen to the state between two moments: the calls of the three methods, the
  creation of contexts, and cancellations for other reasons (shutdown, deadlines, the
  \<open>cancel(nil)\<close> after a job).
\<close>

datatype active_event = EActivate string nat bool | EDeactivate string | ERequest string |
  ENew nat | EOther nat cause

fun active_step :: "active_event \<Rightarrow> active \<Rightarrow> active" where
  "active_step (EActivate jid h requested) s = Activate jid h requested s"
| "active_step (EDeactivate jid) s = Deactivate jid s"
| "active_step (ERequest jid) s = RequestCancellation jid s"
| "active_step (ENew p) s = (fst s, snd (with_cancel p (snd s)))"
| "active_step (EOther h c) s = (fst s, cancel_ctx h c (snd s))"

fun active_run :: "active_event list \<Rightarrow> active \<Rightarrow> active" where
  "active_run [] s = s"
| "active_run (e # es) s = active_run es (active_step e s)"

lemma active_run_append: "active_run (es @ fs) s = active_run fs (active_run es s)"
  by (induction es arbitrary: s) simp_all

lemma fst_Activate [simp]: "fst (Activate jid h b s) = (fst s)\<lparr>a_id := jid, a_cancel := Some h\<rparr>"
  by (simp add: Activate_def split: prod.split)

lemma fst_Deactivate [simp]: "fst (Deactivate jid s) =
    (if a_id (fst s) = jid then (fst s)\<lparr>a_id := [], a_cancel := None\<rparr> else fst s)"
  by (simp add: Deactivate_def split: prod.split)

lemma fst_RequestCancellation [simp]:
  "fst (RequestCancellation jid s) = (fst s)\<lparr>requestedID := jid\<rparr>"
  by (simp add: RequestCancellation_def split: prod.split)

lemma snd_Activate: "snd (Activate jid h b s) =
    (if b \<or> requestedID (fst s) = jid then cancel_ctx h RemoteCancellation (snd s) else snd s)"
  by (simp add: Activate_def split: prod.split)

lemma snd_Deactivate [simp]: "snd (Deactivate jid s) = snd s"
  by (simp add: Deactivate_def split: prod.split)

lemma snd_RequestCancellation: "snd (RequestCancellation jid s) =
    (if a_id (fst s) = jid \<and> a_cancel (fst s) \<noteq> None
     then cancel_ctx (the (a_cancel (fst s))) RemoteCancellation (snd s) else snd s)"
  by (auto simp: RequestCancellation_def split: prod.split option.split)

text \<open>A cause, once there, stays; contexts are only added.\<close>

lemma active_step_length: "length (snd s) \<le> length (snd (active_step e s))"
  by (cases e) (auto simp: snd_Activate snd_RequestCancellation with_cancel_def)

lemma active_step_cause:
  "cause_of h (snd s) = Some c \<Longrightarrow> cause_of h (snd (active_step e s)) = Some c"
proof -
  assume c: "cause_of h (snd s) = Some c"
  then have "h < length (snd s)" by (auto simp: cause_of_def split: if_splits)
  with c show ?thesis
    by (cases e) (auto simp: snd_Activate snd_RequestCancellation cause_of_cancel_ctx cause_of_with_cancel)
qed

lemma active_run_cause:
  "cause_of h (snd s) = Some c \<Longrightarrow> cause_of h (snd (active_run es s)) = Some c"
  by (induction es arbitrary: s) (simp_all add: active_step_cause)

text \<open>The remembered request changes only by another request.\<close>

definition no_request :: "active_event \<Rightarrow> bool" where
  "no_request e = (case e of ERequest _ \<Rightarrow> False | _ \<Rightarrow> True)"

lemma active_step_requested: "no_request e \<Longrightarrow> requestedID (fst (active_step e s)) = requestedID (fst s)"
  by (cases e) (auto simp: no_request_def)

lemma active_run_requested:
  "list_all no_request es \<Longrightarrow> requestedID (fst (active_run es s)) = requestedID (fst s)"
  by (induction es arbitrary: s) (simp_all add: active_step_requested)

text \<open>Events that leave the job \<open>jid\<close> the active one.\<close>

definition stays_active :: "string \<Rightarrow> active_event \<Rightarrow> bool" where
  "stays_active jid e = (case e of EActivate _ _ _ \<Rightarrow> False | EDeactivate j \<Rightarrow> j \<noteq> jid | _ \<Rightarrow> True)"

definition active_as :: "string \<Rightarrow> nat \<Rightarrow> active \<Rightarrow> bool" where
  "active_as jid h s \<longleftrightarrow> a_id (fst s) = jid \<and> a_cancel (fst s) = Some h \<and> h < length (snd s)"

lemma active_step_stays: "stays_active jid e \<Longrightarrow> active_as jid h s \<Longrightarrow> active_as jid h (active_step e s)"
  using active_step_length [of s e] by (cases e) (auto simp: stays_active_def active_as_def)

lemma active_run_stays:
  "list_all (stays_active jid) es \<Longrightarrow> active_as jid h s \<Longrightarrow> active_as jid h (active_run es s)"
  by (induction es arbitrary: s) (simp_all add: active_step_stays)

lemma request_active_cancels: "active_as jid h s \<Longrightarrow> cause_of h (snd (RequestCancellation jid s)) \<noteq> None"
  by (auto simp: active_as_def snd_RequestCancellation dest: cause_of_cancel_self)

lemma activate_requested_cancels:
  "h < length (snd s) \<Longrightarrow> requestedID (fst s) = jid \<Longrightarrow> cause_of h (snd (Activate jid h b s)) \<noteq> None"
  by (auto simp: snd_Activate dest: cause_of_cancel_self)

lemma active_run_done: "cause_of h (snd s) \<noteq> None \<Longrightarrow> cause_of h (snd (active_run es s)) \<noteq> None"
  using active_run_cause by fastforce

section \<open>Properties\<close>

text \<open>A cancellation request cancels the job it names and no other: if that job is active,
  its context and the contexts below it get the cause, unless they were already cancelled;
  every other context is as it was, whichever job is active.\<close>

theorem request_cancels_only_its_job:
  "cause_of k (snd (RequestCancellation jid (a, cs))) =
    (if a_id a = jid \<and> (\<exists>h. a_cancel a = Some h \<and> under k h cs) \<and> k < length cs \<and> cause_of k cs = None
     then Some RemoteCancellation else cause_of k cs)"
  by (auto simp: snd_RequestCancellation cause_of_cancel_ctx)



end
