(* ===== verification/GoStrings.thy ===== *)
theory GoStrings
  imports Prelude
begin

text \<open>
  Go strings. A Go \<open>string\<close> is a sequence of bytes and HOL's \<open>string\<close> is a list of 8-bit
  \<open>char\<close>, so the two agree byte for byte and \<open>len\<close> is \<open>length\<close>. A \<open>rune\<close> is a code
  point, here a \<open>nat\<close>. The theory models what the program uses of the language and of the
  packages \<open>strings\<close>, \<open>unicode/utf8\<close> and \<open>strconv\<close>: the decoding done by \<open>for range\<close> and
  \<open>[]rune(s)\<close>, the encoding done by \<open>string(runes)\<close> and \<open>WriteRune\<close>, \<open>TrimSpace\<close>,
  \<open>HasPrefix\<close>, \<open>TrimPrefix\<close>, \<open>Cut\<close>, \<open>Join\<close>, \<open>%d\<close> and \<open>ParseInt\<close>.
\<close>

section \<open>UTF-8\<close>

type_synonym rune = nat

abbreviation byte :: "char \<Rightarrow> nat" where
  "byte c \<equiv> of_char c"

definition rune_error :: rune where
  "rune_error = 65533"

text \<open>Continuation bytes are \<open>0x80..0xBF\<close>.\<close>

definition in_range :: "nat \<Rightarrow> nat \<Rightarrow> char \<Rightarrow> bool" where
  "in_range lo hi c \<longleftrightarrow> lo \<le> byte c \<and> byte c \<le> hi"

abbreviation cont :: "char \<Rightarrow> bool" where
  "cont c \<equiv> in_range 128 191 c"

text \<open>
  The first rune of a non-empty string and the number of bytes it takes. An encoding that
  is not valid UTF-8 (a stray continuation byte, an overlong form, a surrogate, a code
  point above \<open>0x10FFFF\<close>, a truncated sequence) is \<open>U+FFFD\<close> of width 1.
\<close>

definition decode2 :: "char \<Rightarrow> char \<Rightarrow> rune" where
  "decode2 b0 b1 = (byte b0 - 192) * 64 + (byte b1 - 128)"

definition decode3 :: "char \<Rightarrow> char \<Rightarrow> char \<Rightarrow> rune" where
  "decode3 b0 b1 b2 = (byte b0 - 224) * 4096 + (byte b1 - 128) * 64 + (byte b2 - 128)"

definition decode4 :: "char \<Rightarrow> char \<Rightarrow> char \<Rightarrow> char \<Rightarrow> rune" where
  "decode4 b0 b1 b2 b3 =
     (byte b0 - 240) * 262144 + (byte b1 - 128) * 4096 + (byte b2 - 128) * 64 + (byte b3 - 128)"

definition second3 :: "char \<Rightarrow> char \<Rightarrow> bool" where
  "second3 b0 b1 \<longleftrightarrow>
     (if byte b0 = 224 then in_range 160 191 b1
      else if byte b0 = 237 then in_range 128 159 b1 else cont b1)"

definition second4 :: "char \<Rightarrow> char \<Rightarrow> bool" where
  "second4 b0 b1 \<longleftrightarrow>
     (if byte b0 = 240 then in_range 144 191 b1
      else if byte b0 = 244 then in_range 128 143 b1 else cont b1)"

definition decode_rune :: "string \<Rightarrow> rune \<times> nat" where
  "decode_rune s = (case s of
     [] \<Rightarrow> (rune_error, 0)
   | b0 # r0 \<Rightarrow>
      if byte b0 < 128 then (byte b0, 1)
      else if in_range 194 223 b0 then
        (case r0 of b1 # _ \<Rightarrow> if cont b1 then (decode2 b0 b1, 2) else (rune_error, 1)
         | [] \<Rightarrow> (rune_error, 1))
      else if in_range 224 239 b0 then
        (case r0 of b1 # b2 # _ \<Rightarrow>
           if second3 b0 b1 \<and> cont b2 then (decode3 b0 b1 b2, 3) else (rune_error, 1)
         | _ \<Rightarrow> (rune_error, 1))
      else if in_range 240 244 b0 then
        (case r0 of b1 # b2 # b3 # _ \<Rightarrow>
           if second4 b0 b1 \<and> cont b2 \<and> cont b3 then (decode4 b0 b1 b2 b3, 4)
           else (rune_error, 1)
         | _ \<Rightarrow> (rune_error, 1))
      else (rune_error, 1))"

text \<open>\<open>utf8.AppendRune\<close>: surrogates and values above \<open>0x10FFFF\<close> are written as \<open>U+FFFD\<close>.\<close>

definition scalar :: "rune \<Rightarrow> bool" where
  "scalar r \<longleftrightarrow> r < 55296 \<or> (57344 \<le> r \<and> r < 1114112)"

definition encode_scalar :: "rune \<Rightarrow> string" where
  "encode_scalar r =
     (if r < 128 then [char_of r]
      else if r < 2048 then [char_of (192 + r div 64), char_of (128 + r mod 64)]
      else if r < 65536 then
        [char_of (224 + r div 4096), char_of (128 + r div 64 mod 64), char_of (128 + r mod 64)]
      else [char_of (240 + r div 262144), char_of (128 + r div 4096 mod 64),
            char_of (128 + r div 64 mod 64), char_of (128 + r mod 64)])"

definition encode_rune :: "rune \<Rightarrow> string" where
  "encode_rune r = encode_scalar (if scalar r then r else rune_error)"

text \<open>
  The runes of a string, each with the bytes it was decoded from: what \<open>for i, r := range s\<close>
  runs over.
\<close>

lemma decode_rune_width: "s \<noteq> [] \<Longrightarrow> 0 < snd (decode_rune s)"
  by (auto simp: decode_rune_def split: list.splits)

function chunks :: "string \<Rightarrow> (rune \<times> string) list" where
  "chunks s = (if s = [] then []
     else (fst (decode_rune s), take (snd (decode_rune s)) s)
          # chunks (drop (snd (decode_rune s)) s))"
  by pat_completeness auto
termination
  by (relation "measure length") (auto simp: decode_rune_width)

declare chunks.simps [simp del]

definition runes :: "string \<Rightarrow> rune list" where
  "runes s = map fst (chunks s)"

definition string_of_runes :: "rune list \<Rightarrow> string" where
  "string_of_runes rs = concat (map encode_rune rs)"

section \<open>Decoding and encoding agree\<close>

lemmas byte_less = nat_of_char_less_256

text \<open>A byte inside a range is the range's start plus an offset, and is determined by it.\<close>

lemma in_rangeE:
  assumes "in_range lo hi c"
  obtains x where "byte c = lo + x" and "lo + x \<le> hi" and "c = char_of (lo + x)"
proof -
  from assms obtain x where x: "byte c = lo + x"
    by (auto simp: in_range_def dest: le_Suc_ex)
  have "c = char_of (byte c)"
    by (simp only: char_of_char)
  with x have "c = char_of (lo + x)"
    by (simp only:)
  with x assms that show ?thesis
    by (simp add: in_range_def)
qed

lemma digit_div: "y < m \<Longrightarrow> (q * m + y) div m = (q :: nat)"
  by simp

lemma digit_mod: "y < m \<Longrightarrow> (q * m + y) mod m = (y :: nat)"
  by simp

lemma decode2_encode:
  assumes "in_range 194 223 b0" "cont b1"
  shows "scalar (decode2 b0 b1) \<and> encode_scalar (decode2 b0 b1) = [b0, b1]"
proof -
  from assms(1) obtain x where x: "byte b0 = 194 + x" "194 + x \<le> 223" "b0 = char_of (194 + x)"
    by (rule in_rangeE)
  from assms(2) obtain y where y: "byte b1 = 128 + y" "128 + y \<le> 191" "b1 = char_of (128 + y)"
    by (rule in_rangeE)
  define d where "d = (2 + x) * 64 + y"
  have "decode2 b0 b1 = d"
    by (simp add: d_def decode2_def x(1) y(1))
  moreover have "d div 64 = 2 + x" "d mod 64 = y"
    unfolding d_def using y(2) by (intro digit_div digit_mod; linarith)+
  moreover have "128 \<le> d \<and> d < 2048"
    unfolding d_def using x(2) y(2) by simp
  ultimately show ?thesis
    by (simp add: encode_scalar_def scalar_def x(3) y(3))
qed

lemma second3_range: "second3 b0 b1 \<Longrightarrow> cont b1"
  by (auto simp: second3_def in_range_def split: if_splits)

lemma second4_range: "second4 b0 b1 \<Longrightarrow> cont b1"
  by (auto simp: second4_def in_range_def split: if_splits)

lemma decode3_encode:
  assumes "in_range 224 239 b0" "second3 b0 b1" "cont b2"
  shows "scalar (decode3 b0 b1 b2) \<and> encode_scalar (decode3 b0 b1 b2) = [b0, b1, b2]"
proof -
  from assms(1) obtain x where x: "byte b0 = 224 + x" "224 + x \<le> 239" "b0 = char_of (224 + x)"
    by (rule in_rangeE)
  from assms(2) [THEN second3_range] obtain y
    where y: "byte b1 = 128 + y" "128 + y \<le> 191" "b1 = char_of (128 + y)" by (rule in_rangeE)
  from assms(3) obtain z where z: "byte b2 = 128 + z" "128 + z \<le> 191" "b2 = char_of (128 + z)"
    by (rule in_rangeE)
  define d where "d = x * 4096 + (y * 64 + z)"
  have "decode3 b0 b1 b2 = d"
    by (simp add: d_def decode3_def x(1) y(1) z(1))
  moreover have "d div 4096 = x"
    unfolding d_def using y(2) z(2) by (intro digit_div) linarith
  moreover have d': "d = (x * 64 + y) * 64 + z"
    by (simp add: d_def)
  have "d div 64 = x * 64 + y" "d mod 64 = z"
    unfolding d' using z(2) by (intro digit_div digit_mod; linarith)+
  moreover have "(x * 64 + y) mod 64 = y"
    using y(2) by (intro digit_mod) linarith
  moreover have "2048 \<le> d \<and> d < 65536 \<and> (d < 55296 \<or> 57344 \<le> d)"
    using assms(2) x(1,2) y(1,2) z(2) unfolding d_def second3_def in_range_def
    by (auto split: if_splits)
  ultimately show ?thesis
    by (auto simp: encode_scalar_def scalar_def x(3) y(3) z(3))
qed

lemma decode4_encode:
  assumes "in_range 240 244 b0" "second4 b0 b1" "cont b2" "cont b3"
  shows "scalar (decode4 b0 b1 b2 b3) \<and>
     encode_scalar (decode4 b0 b1 b2 b3) = [b0, b1, b2, b3]"
proof -
  from assms(1) obtain x where x: "byte b0 = 240 + x" "240 + x \<le> 244" "b0 = char_of (240 + x)"
    by (rule in_rangeE)
  from assms(2) [THEN second4_range] obtain y
    where y: "byte b1 = 128 + y" "128 + y \<le> 191" "b1 = char_of (128 + y)" by (rule in_rangeE)
  from assms(3) obtain z where z: "byte b2 = 128 + z" "128 + z \<le> 191" "b2 = char_of (128 + z)"
    by (rule in_rangeE)
  from assms(4) obtain w where w: "byte b3 = 128 + w" "128 + w \<le> 191" "b3 = char_of (128 + w)"
    by (rule in_rangeE)
  define d where "d = x * 262144 + (y * 4096 + (z * 64 + w))"
  have "decode4 b0 b1 b2 b3 = d"
    by (simp add: d_def decode4_def x(1) y(1) z(1) w(1))
  moreover have "d div 262144 = x"
    unfolding d_def using y(2) z(2) w(2) by (intro digit_div) linarith
  moreover have d1: "d = (x * 64 + y) * 4096 + (z * 64 + w)"
    by (simp add: d_def)
  have "d div 4096 = x * 64 + y"
    unfolding d1 using z(2) w(2) by (intro digit_div) linarith
  moreover have "(x * 64 + y) mod 64 = y"
    using y(2) by (intro digit_mod) linarith
  moreover have d2: "d = ((x * 64 + y) * 64 + z) * 64 + w"
    by (simp add: d_def)
  have "d div 64 = (x * 64 + y) * 64 + z" "d mod 64 = w"
    unfolding d2 using w(2) by (intro digit_div digit_mod; linarith)+
  moreover have "((x * 64 + y) * 64 + z) mod 64 = z"
    using z(2) by (intro digit_mod) linarith
  moreover have "65536 \<le> d \<and> d < 1114112"
    using assms(2) x(1,2) y(1,2) z(2) w(2) unfolding d_def second4_def in_range_def
    by (auto split: if_splits)
  ultimately show ?thesis
    by (auto simp: encode_scalar_def scalar_def x(3) y(3) z(3) w(3))
qed

text \<open>
  The decoder returns either a scalar value and exactly its encoding, or \<open>U+FFFD\<close> for one
  byte.
\<close>

lemma decode_rune_cases:
  assumes "s \<noteq> []"
  obtains (valid) r t where "scalar r" "s = encode_scalar r @ t"
      "decode_rune s = (r, length (encode_scalar r))"
  | (invalid) c t where "s = c # t" "decode_rune s = (rune_error, 1)"
proof -
  from assms obtain b0 r0 where s: "s = b0 # r0" by (cases s) auto
  show ?thesis
  proof (cases "decode_rune s = (rune_error, 1)")
    case True
    with s invalid show ?thesis by blast
  next
    case False
    consider "byte b0 < 128"
      | b1 t where "r0 = b1 # t" "in_range 194 223 b0" "cont b1" "decode_rune s = (decode2 b0 b1, 2)"
      | b1 b2 t where "r0 = b1 # b2 # t" "in_range 224 239 b0" "second3 b0 b1" "cont b2"
          "decode_rune s = (decode3 b0 b1 b2, 3)"
      | b1 b2 b3 t where "r0 = b1 # b2 # b3 # t" "in_range 240 244 b0" "second4 b0 b1"
          "cont b2" "cont b3" "decode_rune s = (decode4 b0 b1 b2 b3, 4)"
      using False s by (auto simp: decode_rune_def split: if_splits list.splits)
    then show ?thesis
    proof cases
      case 1
      then have "encode_scalar (byte b0) = [b0]" "scalar (byte b0)"
        by (simp_all add: encode_scalar_def scalar_def)
      with 1 s show ?thesis
        by (intro valid [of "byte b0" r0]) (simp_all add: decode_rune_def)
    next
      case 2
      with decode2_encode [OF 2(2,3)] s show ?thesis by (intro valid) auto
    next
      case 3
      with decode3_encode [OF 3(2-4)] s show ?thesis by (intro valid) auto
    next
      case 4
      with decode4_encode [OF 4(2-5)] s show ?thesis by (intro valid) auto
    qed
  qed
qed

text \<open>A number by its base-64 digits.\<close>

lemma digits64_2: "(r :: nat) = r div 64 * 64 + r mod 64"
  by simp

lemma digits64_3: "(r :: nat) = r div 4096 * 4096 + (r div 64 mod 64 * 64 + r mod 64)"
proof -
  have "r div 64 div 64 = r div 4096" by (simp flip: div_mult2_eq)
  with digits64_2 [of r] digits64_2 [of "r div 64"] show ?thesis by linarith
qed

lemma digits64_4:
  "(r :: nat) = r div 262144 * 262144 +
     (r div 4096 mod 64 * 4096 + (r div 64 mod 64 * 64 + r mod 64))"
proof -
  have "r div 4096 div 64 = r div 262144" by (simp flip: div_mult2_eq)
  with digits64_3 [of r] digits64_2 [of "r div 4096"] show ?thesis by linarith
qed

lemma decode_encode2:
  assumes "2 \<le> q" "q < 32" "m < 64"
  shows "decode_rune (char_of (192 + q) # char_of (128 + m) # t) = (q * 64 + m, 2)"
  using assms by (simp add: decode_rune_def in_range_def decode2_def)

lemma decode_encode3:
  assumes "q < 16" "p < 64" "m < 64" "2048 \<le> q * 4096 + (p * 64 + m)"
    "scalar (q * 4096 + (p * 64 + m))"
  shows "decode_rune (char_of (224 + q) # char_of (128 + p) # char_of (128 + m) # t) =
     (q * 4096 + (p * 64 + m), 3)"
proof -
  have "second3 (char_of (224 + q)) (char_of (128 + p))"
    using assms by (auto simp: second3_def in_range_def scalar_def)
  with assms(1-3) show ?thesis
    by (simp add: decode_rune_def in_range_def decode3_def)
qed

lemma decode_encode4:
  assumes "q < 5" "o' < 64" "p < 64" "m < 64"
    "65536 \<le> q * 262144 + (o' * 4096 + (p * 64 + m))"
    "q * 262144 + (o' * 4096 + (p * 64 + m)) < 1114112"
  shows "decode_rune (char_of (240 + q) # char_of (128 + o') # char_of (128 + p)
     # char_of (128 + m) # t) = (q * 262144 + (o' * 4096 + (p * 64 + m)), 4)"
proof -
  have "second4 (char_of (240 + q)) (char_of (128 + o'))"
    using assms by (auto simp: second4_def in_range_def)
  with assms(1-4) show ?thesis
    by (simp add: decode_rune_def in_range_def decode4_def)
qed

lemma decode_encode:
  assumes "scalar r"
  shows "decode_rune (encode_scalar r @ t) = (r, length (encode_scalar r))"
proof -
  consider "r < 128" | "128 \<le> r" "r < 2048" | "2048 \<le> r" "r < 65536"
    | "65536 \<le> r" "r < 1114112"
    using assms by (fastforce simp: scalar_def)
  then show ?thesis
  proof cases
    case 1
    then show ?thesis by (simp add: encode_scalar_def decode_rune_def)
  next
    case 2
    then have "2 \<le> r div 64" "r div 64 < 32" by simp_all
    then have "decode_rune (char_of (192 + r div 64) # char_of (128 + r mod 64) # t) = (r, 2)"
      using decode_encode2 [of "r div 64" "r mod 64" t] by (simp flip: digits64_2)
    with 2 show ?thesis by (simp add: encode_scalar_def)
  next
    case 3
    then have "r div 4096 < 16" by simp
    then have "decode_rune (char_of (224 + r div 4096) # char_of (128 + r div 64 mod 64)
        # char_of (128 + r mod 64) # t) = (r, 3)"
      using decode_encode3 [of "r div 4096" "r div 64 mod 64" "r mod 64" t] 3 assms
      by (simp add: digits64_3 [symmetric])
    with 3 show ?thesis by (simp add: encode_scalar_def)
  next
    case 4
    then have "r div 262144 < 5" by simp
    then have "decode_rune (char_of (240 + r div 262144) # char_of (128 + r div 4096 mod 64)
        # char_of (128 + r div 64 mod 64) # char_of (128 + r mod 64) # t) = (r, 4)"
      using decode_encode4 [of "r div 262144" "r div 4096 mod 64" "r div 64 mod 64" "r mod 64" t] 4
      by (simp add: digits64_4 [symmetric])
    with 4 show ?thesis by (simp add: encode_scalar_def)
  qed
qed

section \<open>Strings as runes\<close>

text \<open>\<open>utf8.ValidString\<close>, and the string that JSON or \<open>string([]rune(s))\<close> makes of any bytes.\<close>

definition chunk_valid :: "rune \<times> string \<Rightarrow> bool" where
  "chunk_valid c \<longleftrightarrow> \<not> (fst c = rune_error \<and> length (snd c) = 1)"

definition valid_utf8 :: "string \<Rightarrow> bool" where
  "valid_utf8 s \<longleftrightarrow> list_all chunk_valid (chunks s)"

definition coerce_utf8 :: "string \<Rightarrow> string" where
  "coerce_utf8 s = string_of_runes (runes s)"

lemma scalar_rune_error [simp]: "scalar rune_error"
  by (simp add: scalar_def rune_error_def)

lemma length_encode_scalar: "0 < length (encode_scalar r)" "length (encode_scalar r) \<le> 4"
  by (auto simp: encode_scalar_def)

lemma encode_scalar_nonempty [simp]: "encode_scalar r \<noteq> []"
  by (auto simp: encode_scalar_def)

lemma Suc_le_length_encode: "n \<le> m \<Longrightarrow> Suc n \<le> length (encode_scalar r) + m"
  by (cases "encode_scalar r") auto

lemma length_encode_error [simp]: "length (encode_scalar rune_error) = 3"
  by (simp add: encode_scalar_def rune_error_def)

lemma encode_rune_scalar: "scalar r \<Longrightarrow> encode_rune r = encode_scalar r"
  by (simp add: encode_rune_def)

lemma chunks_Nil [simp]: "chunks [] = []"
  by (subst chunks.simps) simp

lemma chunks_encode [simp]:
  "scalar r \<Longrightarrow> chunks (encode_scalar r @ t) = (r, encode_scalar r) # chunks t"
  by (subst chunks.simps) (simp add: decode_encode)

lemma chunks_invalid:
  "decode_rune (c # t) = (rune_error, Suc 0) \<Longrightarrow> chunks (c # t) = (rune_error, [c]) # chunks t"
  by (subst chunks.simps) simp

text \<open>Induction over the runes of a string.\<close>

lemma chunks_induct [case_names Nil valid invalid]:
  assumes "P []"
    and "\<And>r t. scalar r \<Longrightarrow> P t \<Longrightarrow> P (encode_scalar r @ t)"
    and "\<And>c t. decode_rune (c # t) = (rune_error, Suc 0) \<Longrightarrow> P t \<Longrightarrow> P (c # t)"
  shows "P s"
proof (induction s rule: length_induct)
  case (1 s)
  show ?case
  proof (cases "s = []")
    case True
    with assms(1) show ?thesis by simp
  next
    case False
    then show ?thesis
    proof (cases rule: decode_rune_cases)
      case (valid r t)
      with 1 assms(2) show ?thesis by (simp add: length_encode_scalar)
    next
      case (invalid c t)
      with 1 assms(3) show ?thesis by simp
    qed
  qed
qed

lemma concat_chunks [simp]: "concat (map snd (chunks s)) = s"
  by (induction s rule: chunks_induct) (simp_all add: chunks_invalid)

definition chunk_ok :: "rune \<times> string \<Rightarrow> bool" where
  "chunk_ok c \<longleftrightarrow> scalar (fst c) \<and>
     (snd c = encode_scalar (fst c) \<or> fst c = rune_error \<and> length (snd c) = 1)"

lemma chunks_ok: "c \<in> set (chunks s) \<Longrightarrow> chunk_ok c"
  by (induction s arbitrary: c rule: chunks_induct) (auto simp: chunks_invalid chunk_ok_def)

lemma chunks_scalar: "c \<in> set (chunks s) \<Longrightarrow> scalar (fst c)"
  by (simp add: chunks_ok [unfolded chunk_ok_def])

lemma chunks_valid_bytes:
  "c \<in> set (chunks s) \<Longrightarrow> chunk_valid c \<Longrightarrow> snd c = encode_scalar (fst c)"
  using chunks_ok [of c s] by (auto simp: chunk_ok_def chunk_valid_def)

lemma runes_Nil [simp]: "runes [] = []"
  by (simp add: runes_def)

lemma runes_encode [simp]: "scalar r \<Longrightarrow> runes (encode_scalar r @ t) = r # runes t"
  by (simp add: runes_def)

lemma runes_scalar: "r \<in> set (runes s) \<Longrightarrow> scalar r"
  by (auto simp: runes_def dest: chunks_scalar)

lemma length_runes: "length (runes s) \<le> length s"
proof (induction s rule: chunks_induct)
  case (valid r t)
  then show ?case by (simp add: Suc_le_length_encode)
qed (simp_all add: chunks_invalid runes_def)

lemma string_of_runes_Nil [simp]: "string_of_runes [] = []"
  by (simp add: string_of_runes_def)

lemma string_of_runes_Cons: "string_of_runes (r # rs) = encode_rune r @ string_of_runes rs"
  by (simp add: string_of_runes_def)

lemma string_of_runes_append:
  "string_of_runes (rs @ qs) = string_of_runes rs @ string_of_runes qs"
  by (simp add: string_of_runes_def)

text \<open>\<open>[]rune(string(rs))\<close> gives the runes back, and \<open>string([]rune(s))\<close> the valid string.\<close>

lemma runes_string_of_runes: "list_all scalar rs \<Longrightarrow> runes (string_of_runes rs) = rs"
  by (induction rs) (simp_all add: string_of_runes_Cons encode_rune_scalar)

lemma valid_utf8_Nil [simp]: "valid_utf8 []"
  by (simp add: valid_utf8_def)

lemma valid_utf8_encode [simp]:
  "scalar r \<Longrightarrow> valid_utf8 (encode_scalar r @ t) \<longleftrightarrow> valid_utf8 t"
  by (auto simp: valid_utf8_def chunk_valid_def)

lemma valid_utf8_string_of_runes [simp]: "valid_utf8 (string_of_runes rs)"
  by (induction rs) (simp_all add: string_of_runes_Cons encode_rune_def)

lemma valid_utf8_not_invalid:
  "decode_rune (c # t) = (rune_error, Suc 0) \<Longrightarrow> \<not> valid_utf8 (c # t)"
  by (simp add: valid_utf8_def chunks_invalid chunk_valid_def)

lemma coerce_utf8_encode [simp]:
  "scalar r \<Longrightarrow> coerce_utf8 (encode_scalar r @ t) = encode_scalar r @ coerce_utf8 t"
  by (simp add: coerce_utf8_def string_of_runes_Cons encode_rune_scalar)

lemma coerce_utf8_invalid [simp]:
  "decode_rune (c # t) = (rune_error, Suc 0) \<Longrightarrow>
   coerce_utf8 (c # t) = encode_scalar rune_error @ coerce_utf8 t"
  by (simp add: coerce_utf8_def runes_def chunks_invalid string_of_runes_Cons encode_rune_scalar)

lemma coerce_utf8_Nil [simp]: "coerce_utf8 [] = []"
  by (simp add: coerce_utf8_def)

lemma coerce_utf8_valid [simp]: "valid_utf8 s \<Longrightarrow> coerce_utf8 s = s"
  by (induction s rule: chunks_induct) (auto dest: valid_utf8_not_invalid)

lemma valid_utf8_coerce [simp]: "valid_utf8 (coerce_utf8 s)"
  by (simp add: coerce_utf8_def)

lemma valid_utf8_iff: "valid_utf8 s \<longleftrightarrow> (\<exists>rs. list_all scalar rs \<and> s = string_of_runes rs)"
proof
  assume "valid_utf8 s"
  then have "s = string_of_runes (runes s)" by (metis coerce_utf8_def coerce_utf8_valid)
  then show "\<exists>rs. list_all scalar rs \<and> s = string_of_runes rs"
    using runes_scalar by (auto simp: list_all_iff)
qed auto

lemma valid_utf8_Cons_ascii [simp]: "byte c < 128 \<Longrightarrow> valid_utf8 (c # t) \<longleftrightarrow> valid_utf8 t"
  using valid_utf8_encode [of "byte c" t] by (simp add: encode_scalar_def scalar_def)

section \<open>Package strings\<close>

text \<open>\<open>unicode.IsSpace\<close>: the property \<open>White_Space\<close>.\<close>

definition is_space :: "rune \<Rightarrow> bool" where
  "is_space r \<longleftrightarrow> r \<in> {9, 10, 11, 12, 13, 32, 133, 160, 5760, 8232, 8233, 8239, 8287, 12288}
     \<or> (8192 \<le> r \<and> r \<le> 8202)"

text \<open>Runes below 256 are decided first, so that short texts evaluate quickly.\<close>

lemma is_space_code [code]:
  "is_space r = (if r < 256 then r \<in> {9, 10, 11, 12, 13, 32, 133, 160}
     else r \<in> {5760, 8232, 8233, 8239, 8287, 12288} \<or> (8192 \<le> r \<and> r \<le> 8202))"
  by (auto simp: is_space_def)

definition space_chunk :: "rune \<times> string \<Rightarrow> bool" where
  "space_chunk c \<longleftrightarrow> is_space (fst c)"

definition trim_space :: "string \<Rightarrow> string" where
  "trim_space s =
     concat (map snd (rev (dropWhile space_chunk (rev (dropWhile space_chunk (chunks s))))))"

definition has_prefix :: "string \<Rightarrow> string \<Rightarrow> bool" where
  "has_prefix s p \<longleftrightarrow> take (length p) s = p"

definition trim_prefix :: "string \<Rightarrow> string \<Rightarrow> string" where
  "trim_prefix s p = (if has_prefix s p then drop (length p) s else s)"

definition has_suffix :: "string \<Rightarrow> string \<Rightarrow> bool" where
  "has_suffix s p \<longleftrightarrow> has_prefix (rev s) (rev p)"

definition trim_suffix :: "string \<Rightarrow> string \<Rightarrow> string" where
  "trim_suffix s p = (if has_suffix s p then take (length s - length p) s else s)"

text \<open>\<open>strings.Cut(s, "=")\<close> for a one-byte separator, and \<open>strings.TrimRight(s, "/")\<close>.\<close>

definition cut :: "string \<Rightarrow> char \<Rightarrow> string \<times> string \<times> bool" where
  "cut s c = (let (a, b) = (takeWhile (\<lambda>x. x \<noteq> c) s, dropWhile (\<lambda>x. x \<noteq> c) s) in
     case b of [] \<Rightarrow> (s, [], False) | _ # b' \<Rightarrow> (a, b', True))"

definition trim_right :: "string \<Rightarrow> char \<Rightarrow> string" where
  "trim_right s c = rev (dropWhile (\<lambda>x. x = c) (rev s))"

fun join :: "string list \<Rightarrow> string \<Rightarrow> string" where
  "join [] sep = []"
| "join [x] sep = x"
| "join (x # xs) sep = x @ sep @ join xs sep"

text \<open>\<open>strings.ContainsRune(s, 0)\<close> and \<open>strings.Contains(s, t)\<close>.\<close>

definition contains_nul :: "string \<Rightarrow> bool" where
  "contains_nul s \<longleftrightarrow> list_ex (\<lambda>c. byte c = 0) s"

fun contains :: "string \<Rightarrow> string \<Rightarrow> bool" where
  "contains s t = (has_prefix s t \<or> (case s of [] \<Rightarrow> False | _ # s' \<Rightarrow> contains s' t))"

declare contains.simps [simp del]

lemma has_prefix_append [simp]: "has_prefix (p @ s) p"
  by (simp add: has_prefix_def)

lemma trim_prefix_append [simp]: "trim_prefix (p @ s) p = s"
  by (simp add: trim_prefix_def)

lemma has_prefix_iff: "has_prefix s p \<longleftrightarrow> (\<exists>t. s = p @ t)"
  by (metis append_take_drop_id has_prefix_append has_prefix_def)

lemma cut_Some: "cut s c = (a, b, True) \<Longrightarrow> s = a @ c # b \<and> c \<notin> set a"
proof -
  assume "cut s c = (a, b, True)"
  then have "dropWhile (\<lambda>x. x \<noteq> c) s = c # b" "takeWhile (\<lambda>x. x \<noteq> c) s = a"
    by (auto simp: cut_def dropWhile_eq_Cons_conv split: list.splits)
  then show ?thesis
    by (metis set_takeWhileD takeWhile_dropWhile_id)
qed

lemma cut_none: "c \<notin> set s \<Longrightarrow> cut s c = (s, [], False)"
proof -
  assume "c \<notin> set s"
  then have "dropWhile (\<lambda>x. x \<noteq> c) s = []" by (auto simp: dropWhile_eq_Nil_conv)
  then show "cut s c = (s, [], False)" by (simp add: cut_def del: dropWhile_eq_Nil_conv)
qed

lemma cut_at: "c \<notin> set p \<Longrightarrow> cut (p @ c # s) c = (p, s, True)"
proof -
  assume "c \<notin> set p"
  then have "takeWhile (\<lambda>x. x \<noteq> c) (p @ c # s) = p" "dropWhile (\<lambda>x. x \<noteq> c) (p @ c # s) = c # s"
    by (induction p) auto
  then show ?thesis by (simp add: cut_def)
qed

text \<open>A string with no space at either end is left alone; what is trimmed has none.\<close>

lemma trim_space_Nil [simp]: "trim_space [] = []"
  by (simp add: trim_space_def)

section \<open>Package strconv and the verb %d\<close>

text \<open>\<open>%d\<close> of a non-negative and of any integer.\<close>

fun itoa_nat :: "nat \<Rightarrow> string" where
  "itoa_nat n = (if n < 10 then [char_of (48 + n)]
     else itoa_nat (n div 10) @ [char_of (48 + n mod 10)])"

declare itoa_nat.simps [simp del]

definition itoa :: "int \<Rightarrow> string" where
  "itoa n = (if n < 0 then ''-'' @ itoa_nat (nat (- n)) else itoa_nat (nat n))"

definition is_digit :: "char \<Rightarrow> bool" where
  "is_digit c \<longleftrightarrow> in_range 48 57 c"

fun dec_value :: "nat \<Rightarrow> string \<Rightarrow> nat option" where
  "dec_value acc [] = Some acc"
| "dec_value acc (c # cs) =
     (if is_digit c then dec_value (acc * 10 + (byte c - 48)) cs else None)"

definition parse_uint :: "string \<Rightarrow> nat option" where
  "parse_uint s = (if s = [] then None else dec_value 0 s)"

text \<open>\<open>strconv.ParseInt(s, 10, 64)\<close>: \<open>None\<close> for a syntax and for a range error.\<close>

definition max_int64 :: int where
  "max_int64 = 9223372036854775807"

definition parse_int64 :: "string \<Rightarrow> int option" where
  "parse_int64 s =
     (let neg = has_prefix s ''-'';
          body = (if neg \<or> has_prefix s ''+'' then drop 1 s else s)
      in case parse_uint body of None \<Rightarrow> None
         | Some u \<Rightarrow> if neg then (if int u \<le> max_int64 + 1 then Some (- int u) else None)
                    else (if int u \<le> max_int64 then Some (int u) else None))"

lemma dec_value_append:
  "dec_value acc (s @ t) = (case dec_value acc s of None \<Rightarrow> None | Some a \<Rightarrow> dec_value a t)"
  by (induction s arbitrary: acc) auto

lemma digit_char [simp]: "(d :: nat) < 10 \<Longrightarrow> is_digit (char_of (48 + d))"
  by (simp add: is_digit_def in_range_def)

lemma dec_value_itoa_nat: "dec_value 0 (itoa_nat n) = Some n"
proof (induction n rule: itoa_nat.induct)
  case (1 n)
  then show ?case
    by (subst itoa_nat.simps) (simp add: dec_value_append)
qed

lemma itoa_nat_nonempty [simp]: "itoa_nat n \<noteq> []"
  by (subst itoa_nat.simps) simp

lemma parse_uint_itoa_nat [simp]: "parse_uint (itoa_nat n) = Some n"
  by (simp add: parse_uint_def dec_value_itoa_nat)

lemma itoa_nat_digits: "c \<in> set (itoa_nat n) \<Longrightarrow> is_digit c"
proof (induction n rule: itoa_nat.induct)
  case (1 n)
  then show ?case
    by (subst (asm) (2) itoa_nat.simps) (auto split: if_splits)
qed

lemma itoa_nat_inj: "itoa_nat m = itoa_nat n \<longleftrightarrow> m = n"
  by (metis option.inject parse_uint_itoa_nat)

lemma itoa_no_sign: "\<not> has_prefix (itoa_nat n) ''-''" "\<not> has_prefix (itoa_nat n) ''+''"
proof -
  obtain c cs where c: "itoa_nat n = c # cs" by (cases "itoa_nat n") auto
  then have "is_digit c" using itoa_nat_digits [of c n] by simp
  then show "\<not> has_prefix (itoa_nat n) ''-''" "\<not> has_prefix (itoa_nat n) ''+''"
    by (auto simp: c has_prefix_def is_digit_def in_range_def)
qed

lemma parse_int64_itoa: "0 \<le> n \<Longrightarrow> n \<le> max_int64 \<Longrightarrow> parse_int64 (itoa n) = Some n"
  by (simp add: parse_int64_def itoa_def itoa_no_sign)

text \<open>The bounds of \<open>int64\<close>, and the length of what is printed within them.\<close>

definition int64 :: "int \<Rightarrow> bool" where
  "int64 n \<longleftrightarrow> - max_int64 - 1 \<le> n \<and> n \<le> max_int64"

lemma length_itoa_nat: "n < 10 ^ Suc k \<Longrightarrow> length (itoa_nat n) \<le> Suc k"
proof (induction k arbitrary: n)
  case 0
  then show ?case by (subst itoa_nat.simps) simp
next
  case (Suc k)
  then have "n div 10 < 10 ^ Suc k" by (simp add: less_mult_imp_div_less)
  with Suc.IH [of "n div 10"] show ?case by (subst itoa_nat.simps) simp
qed

lemma length_itoa: "int64 n \<Longrightarrow> length (itoa n) \<le> 20"
proof -
  assume n: "int64 n"
  have "nat \<bar>n\<bar> < 10 ^ Suc 18" using n by (auto simp: int64_def max_int64_def)
  then have "length (itoa_nat (nat \<bar>n\<bar>)) \<le> Suc 18" by (rule length_itoa_nat)
  then show ?thesis by (auto simp: itoa_def)
qed

end
