(* ===== verification/GoJson.thy ===== *)
theory GoJson
  imports GoStrings
begin

text \<open>
  Package \<open>encoding/json\<close> as the program uses it on a command: \<open>json.Marshal\<close> of a
  \<open>[]string\<close> (the text of the column \<open>command\<close> and of the request body of a submission) and
  \<open>json.Unmarshal\<close> into a \<open>[]string\<close>. The theory proves the round trip and the length of
  the encoding, on which the size limits of the socket and of the clients rest.
\<close>

abbreviation quote_char :: char where "quote_char \<equiv> CHR 0x22"
abbreviation backslash :: char where "backslash \<equiv> CHR 0x5C"

section \<open>Marshal\<close>

definition hex :: "nat \<Rightarrow> char" where
  "hex d = (if d mod 16 < 10 then char_of (48 + d mod 16) else char_of (87 + d mod 16))"

definition u_escape :: "rune \<Rightarrow> string" where
  "u_escape r = [backslash, CHR ''u'', hex (r div 4096), hex (r div 256), hex (r div 16), hex r]"

text \<open>
  One rune of \<open>appendString\<close> with HTML escaping on: short escapes, \<open>\u00xx\<close> for the other
  control characters and for \<open><\<close>, \<open>>\<close> and \<open>&\<close>, \<open>\u2028\<close> and \<open>\u2029\<close>, \<open>\ufffd\<close> for a byte
  that is not UTF-8, and the bytes themselves otherwise.
\<close>

definition esc_chunk :: "rune \<times> string \<Rightarrow> string" where
  "esc_chunk c = (let r = fst c in
     if \<not> chunk_valid c then u_escape rune_error
     else if r = 34 then [backslash, quote_char]
     else if r = 92 then [backslash, backslash]
     else if r = 8 then [backslash, CHR ''b'']
     else if r = 12 then [backslash, CHR ''f'']
     else if r = 10 then [backslash, CHR ''n'']
     else if r = 13 then [backslash, CHR ''r'']
     else if r = 9 then [backslash, CHR ''t'']
     else if r < 32 \<or> r \<in> {60, 62, 38, 8232, 8233} then u_escape r
     else snd c)"

definition json_string :: "string \<Rightarrow> string" where
  "json_string s = quote_char # concat (map esc_chunk (chunks s)) @ [quote_char]"

definition marshal_strings :: "string list \<Rightarrow> string" where
  "marshal_strings xs = ''['' @ join (map json_string xs) '','' @ '']''"

section \<open>Unmarshal\<close>

definition json_ws :: "char \<Rightarrow> bool" where
  "json_ws c \<longleftrightarrow> byte c \<in> {32, 9, 10, 13}"

abbreviation skip_ws :: "string \<Rightarrow> string" where
  "skip_ws s \<equiv> dropWhile json_ws s"

definition hex_value :: "char \<Rightarrow> nat option" where
  "hex_value c =
     (if in_range 48 57 c then Some (byte c - 48)
      else if in_range 97 102 c then Some (byte c - 87)
      else if in_range 65 70 c then Some (byte c - 55)
      else None)"

text \<open>\<open>getu4\<close>: the value of \<open>\uXXXX\<close> at the front, with what follows.\<close>

definition get_u4 :: "string \<Rightarrow> (rune \<times> string) option" where
  "get_u4 s = (case s of
     b # u # h3 # h2 # h1 # h0 # t \<Rightarrow>
       if b = backslash \<and> u = CHR ''u'' then
         (case (hex_value h3, hex_value h2, hex_value h1, hex_value h0) of
            (Some d3, Some d2, Some d1, Some d0) \<Rightarrow>
              Some (d3 * 4096 + d2 * 256 + d1 * 16 + d0, t)
          | _ \<Rightarrow> None)
       else None
   | _ \<Rightarrow> None)"

definition surrogate :: "rune \<Rightarrow> bool" where
  "surrogate r \<longleftrightarrow> 55296 \<le> r \<and> r < 57344"

text \<open>\<open>utf16.DecodeRune\<close> of two code units.\<close>

definition decode_pair :: "rune \<Rightarrow> rune \<Rightarrow> rune" where
  "decode_pair u1 u2 =
     (if 55296 \<le> u1 \<and> u1 < 56320 \<and> 56320 \<le> u2 \<and> u2 < 57344
      then (u1 - 55296) * 1024 + (u2 - 56320) + 65536 else rune_error)"

definition simple_escape :: "char \<Rightarrow> char option" where
  "simple_escape e =
     (if e = quote_char \<or> e = backslash \<or> e = CHR ''/'' then Some e
      else if e = CHR ''b'' then Some (CHR 0x08)
      else if e = CHR ''f'' then Some (CHR 0x0C)
      else if e = CHR ''n'' then Some (CHR 0x0A)
      else if e = CHR ''r'' then Some (CHR 0x0D)
      else if e = CHR ''t'' then Some (CHR 0x09)
      else None)"

text \<open>
  One element of a string literal: the bytes it stands for and the rest of the input. A
  lone surrogate escape and a byte that is not UTF-8 both become \<open>U+FFFD\<close>; a control
  character and an unknown escape are syntax errors.
\<close>

definition str_step :: "string \<Rightarrow> (string \<times> string) option" where
  "str_step s = (case s of
     [] \<Rightarrow> None
   | c # t \<Rightarrow>
      if c = backslash then
        (case t of
           [] \<Rightarrow> None
         | e # t' \<Rightarrow>
            (case simple_escape e of
               Some b \<Rightarrow> Some ([b], t')
             | None \<Rightarrow>
                (case get_u4 s of
                   None \<Rightarrow> None
                 | Some (u, r) \<Rightarrow>
                    if surrogate u then
                      (case get_u4 r of
                         None \<Rightarrow> Some (encode_rune rune_error, r)
                       | Some (u2, r2) \<Rightarrow>
                          if decode_pair u u2 \<noteq> rune_error
                          then Some (encode_rune (decode_pair u u2), r2)
                          else Some (encode_rune rune_error, r))
                    else Some (encode_rune u, r))))
      else if byte c < 32 then None
      else Some (encode_rune (fst (decode_rune s)), drop (snd (decode_rune s)) s))"

lemma get_u4_shorter: "get_u4 s = Some (u, r) \<Longrightarrow> length r < length s"
  by (auto simp: get_u4_def split: list.splits if_splits option.splits)

lemma str_step_shorter: "str_step s = Some (b, r) \<Longrightarrow> length r < length s"
  using decode_rune_width [of s]
  by (fastforce simp: str_step_def split: list.splits if_splits option.splits
        dest: get_u4_shorter)

text \<open>The rest of a string literal after its opening quote.\<close>

function str_body :: "string \<Rightarrow> (string \<times> string) option" where
  "str_body s = (case s of
     [] \<Rightarrow> None
   | c # t \<Rightarrow>
      if c = quote_char then Some ([], t)
      else (case str_step s of
              None \<Rightarrow> None
            | Some br \<Rightarrow> map_option (\<lambda>(v, rest). (fst br @ v, rest)) (str_body (snd br))))"
  by pat_completeness auto
termination
  by (relation "measure length") (auto dest!: str_step_shorter)

declare str_body.simps [simp del]

text \<open>An element of the array: a string, or \<open>null\<close>, which leaves the empty string.\<close>

definition element :: "string \<Rightarrow> (string \<times> string) option" where
  "element s =
     (if has_prefix s ''null'' then Some ([], drop 4 s)
      else case s of c # t \<Rightarrow> if c = quote_char then str_body t else None | [] \<Rightarrow> None)"

lemma str_body_Nil [simp]: "str_body [] = None"
  by (simp add: str_body.simps)

lemma str_body_quote [simp]: "str_body (quote_char # t) = Some ([], t)"
  by (simp add: str_body.simps)

lemma str_body_step:
  "str_step s = Some (b, t) \<Longrightarrow> hd s \<noteq> quote_char \<Longrightarrow>
   str_body s = map_option (\<lambda>(v, rest). (b @ v, rest)) (str_body t)"
  by (subst str_body.simps) (auto simp: str_step_def split: list.splits)

lemma str_body_shorter: "str_body s = Some (v, r) \<Longrightarrow> length r < length s"
proof (induction s arbitrary: v r rule: str_body.induct)
  case (1 s)
  show ?case
  proof (cases "s = [] \<or> hd s = quote_char")
    case True
    with 1(2) show ?thesis by (cases s) auto
  next
    case False
    then obtain c cs where s: "s = c # cs" "c \<noteq> quote_char" by (cases s) auto
    with 1(2) obtain b t w where st: "str_step s = Some (b, t)" "str_body t = Some (w, r)"
      by (auto simp: str_body.simps [of "c # cs"] split: option.splits)
    have "length r < length t" using 1(1) [OF s st(1)] st(2) by simp
    with str_step_shorter [OF st(1)] show ?thesis by simp
  qed
qed

lemma element_shorter: "element s = Some (v, r) \<Longrightarrow> length r < length s"
  by (auto simp: element_def has_prefix_iff split: if_splits list.splits
      dest!: str_body_shorter)

lemma skip_ws_le: "length (skip_ws s) \<le> length s"
  by (rule length_dropWhile_le)

function elements :: "string \<Rightarrow> (string list \<times> string) option" where
  "elements s =
     (case element s of
        None \<Rightarrow> None
      | Some vr \<Rightarrow>
         (case skip_ws (snd vr) of
            [] \<Rightarrow> None
          | c # t \<Rightarrow>
             if c = CHR '','' then
               map_option (\<lambda>(vs, rest). (fst vr # vs, rest)) (elements (skip_ws t))
             else if c = CHR '']'' then Some ([fst vr], t)
             else None))"
  by pat_completeness auto
termination
proof (relation "measure length")
  fix s vr c t
  assume "element s = Some vr" "skip_ws (snd vr) = c # t"
  then have "length (snd vr) < length s" "length t < length (snd vr)"
    using element_shorter [of s "fst vr" "snd vr"] skip_ws_le [of "snd vr"] by auto
  then show "(skip_ws t, s) \<in> measure length"
    using skip_ws_le [of t] by simp
qed simp

declare elements.simps [simp del]

text \<open>The whole text must be one array of strings, or \<open>null\<close>, with spaces around it.\<close>

definition ends :: "'a \<Rightarrow> string \<Rightarrow> 'a option" where
  "ends v rest = (if skip_ws rest = [] then Some v else None)"

definition unmarshal_strings :: "string \<Rightarrow> string list option" where
  "unmarshal_strings s = (let u = skip_ws s in
     if has_prefix u ''null'' then ends [] (drop 4 u)
     else case u of
       [] \<Rightarrow> None
     | c # t \<Rightarrow>
        if c = CHR ''['' then
          (case skip_ws t of
             [] \<Rightarrow> None
           | c' # t' \<Rightarrow>
              if c' = CHR '']'' then ends [] t'
              else (case elements (c' # t') of
                      None \<Rightarrow> None
                    | Some (vs, rest) \<Rightarrow> ends vs rest))
        else None)"

section \<open>The round trip\<close>

lemma hex_value_hex [simp]: "hex_value (hex d) = Some (d mod 16)"
proof -
  define x where "x = d mod 16"
  have "x < 16" by (simp add: x_def)
  then show ?thesis
    unfolding hex_def x_def [symmetric] by (auto simp: hex_value_def in_range_def)
qed

lemma hex_sum:
  fixes r :: nat
  assumes "r < 65536"
  shows "r div 4096 mod 16 * 4096 + r div 256 mod 16 * 256 + r div 16 mod 16 * 16 + r mod 16 = r"
proof -
  define q0 q1 q2 q3 where "q0 = r mod 16" "q1 = r div 16 mod 16" "q2 = r div 256 mod 16"
    "q3 = r div 4096"
  have "r div 256 = q3 * 16 + q2" "r div 16 = r div 256 * 16 + q1" "r = r div 16 * 16 + q0"
    using div_mult2_eq [of r 16 16] div_mult2_eq [of r 256 16]
    by (simp_all add: q0_q1_q2_q3_def)
  then have "r = q3 * 4096 + q2 * 256 + q1 * 16 + q0"
    by linarith
  moreover have "r div 4096 mod 16 = r div 4096"
    using assms by simp
  ultimately show ?thesis by (simp only: q0_q1_q2_q3_def)
qed

lemma get_u4_escape: "r < 65536 \<Longrightarrow> get_u4 (u_escape r @ t) = Some (r, t)"
  by (simp add: get_u4_def u_escape_def hex_sum del: mod_less)

lemma str_step_u_escape:
  assumes "r < 65536" "scalar r"
  shows "str_step (u_escape r @ t) = Some (encode_scalar r, t)"
proof -
  have "\<not> surrogate r" using assms(2) by (auto simp: surrogate_def scalar_def)
  moreover obtain e t' where e: "u_escape r @ t = backslash # e # t'" "simple_escape e = None"
    by (simp add: u_escape_def simple_escape_def)
  moreover have "get_u4 (backslash # e # t') = Some (r, t)"
    using get_u4_escape [OF assms(1), of t] by (simp only: e(1))
  ultimately show ?thesis
    by (simp add: str_step_def encode_rune_scalar assms(2) e)
qed

text \<open>A rune is read back from its escape, and its escape does not start with a quote.\<close>

lemma json_chars [simp]:
  "char_of (34 :: nat) = quote_char" "char_of (92 :: nat) = backslash"
  "char_of (8 :: nat) = CHR 0x08" "char_of (12 :: nat) = CHR 0x0C"
  "char_of (10 :: nat) = CHR 0x0A" "char_of (13 :: nat) = CHR 0x0D"
  "char_of (9 :: nat) = CHR 0x09"
  by (simp_all add: char_of_eq_iff)

lemma str_step_ascii_escape:
  "simple_escape e = Some b \<Longrightarrow> str_step (backslash # e # t) = Some ([b], t)"
  by (simp add: str_step_def)

lemma str_step_plain:
  assumes "scalar r" "r \<noteq> 92" "32 \<le> r"
  shows "str_step (encode_scalar r @ t) = Some (encode_scalar r, t)"
proof -
  obtain c cs where c: "encode_scalar r @ t = c # cs" by (cases "encode_scalar r @ t") auto
  have "byte c = r \<or> 128 \<le> byte c"
    using c assms(1) by (auto simp: encode_scalar_def scalar_def split: if_splits)
  with assms have "c \<noteq> backslash" "\<not> byte c < 32" by auto
  then have "str_step (c # cs) =
      Some (encode_rune (fst (decode_rune (c # cs))), drop (snd (decode_rune (c # cs))) (c # cs))"
    by (simp add: str_step_def)
  then show ?thesis
    by (simp add: decode_encode [OF assms(1)] encode_rune_scalar [OF assms(1)] flip: c)
qed

lemma encode_scalar_hd: "scalar r \<Longrightarrow> hd (encode_scalar r @ t) = quote_char \<Longrightarrow> r = 34"
proof -
  assume "scalar r" "hd (encode_scalar r @ t) = quote_char"
  then have "byte (hd (encode_scalar r @ t)) = 34" by simp
  with \<open>scalar r\<close> show ?thesis
    by (auto simp: encode_scalar_def scalar_def split: if_splits)
qed

lemma esc_chunk_valid:
  assumes "scalar r"
  shows "str_step (esc_chunk (r, encode_scalar r) @ t) = Some (encode_scalar r, t) \<and>
    hd (esc_chunk (r, encode_scalar r) @ t) \<noteq> quote_char"
proof -
  have v: "chunk_valid (r, encode_scalar r)"
    by (auto simp: chunk_valid_def)
  consider "r = 34" | "r = 92" | "r = 8" | "r = 12" | "r = 10" | "r = 13" | "r = 9"
    | "r \<notin> {34, 92, 8, 12, 10, 13, 9}" "r < 32 \<or> r \<in> {60, 62, 38, 8232, 8233}"
    | "r \<notin> {34, 92, 8, 12, 10, 13, 9, 60, 62, 38, 8232, 8233}" "32 \<le> r"
    by force
  then show ?thesis
  proof cases
    case 8
    then have "r < 65536" by auto
    moreover have "esc_chunk (r, encode_scalar r) = u_escape r"
      using 8 v by (auto simp: esc_chunk_def)
    ultimately show ?thesis
      using str_step_u_escape [OF _ assms] by (simp add: u_escape_def)
  next
    case 9
    then have "esc_chunk (r, encode_scalar r) = encode_scalar r"
      using v by (auto simp: esc_chunk_def)
    then show ?thesis
      using str_step_plain [OF assms] encode_scalar_hd [OF assms] 9 by auto
  qed (use v in \<open>simp_all add: esc_chunk_def str_step_ascii_escape simple_escape_def encode_scalar_def\<close>)
qed

lemma esc_chunk_invalid:
  "str_step (esc_chunk (rune_error, [c]) @ t) = Some (encode_scalar rune_error, t) \<and>
   hd (esc_chunk (rune_error, [c]) @ t) \<noteq> quote_char"
  using str_step_u_escape [of rune_error t]
  by (simp add: esc_chunk_def chunk_valid_def) (simp add: u_escape_def rune_error_def)

lemma str_body_json:
  "str_body (concat (map esc_chunk (chunks s)) @ quote_char # t) = Some (coerce_utf8 s, t)"
proof (induction s rule: chunks_induct)
  case Nil
  show ?case by simp
next
  case (valid r u)
  with esc_chunk_valid [OF valid(1)] show ?case
    by (simp add: str_body_step [where t = "_ @ quote_char # t"])
next
  case (invalid c u)
  with esc_chunk_invalid [of c] show ?case
    by (simp add: chunks_invalid str_body_step [where t = "_ @ quote_char # t"])
qed

lemma element_json_string: "element (json_string s @ t) = Some (coerce_utf8 s, t)"
  by (simp add: element_def json_string_def has_prefix_def str_body_json)

lemma json_string_hd: "json_string s @ t \<noteq> [] \<and> hd (json_string s @ t) = quote_char"
  by (simp add: json_string_def)

lemma skip_ws_json_string [simp]: "skip_ws (json_string s @ t) = json_string s @ t"
  by (simp add: json_string_def json_ws_def)

lemma elements_json:
  "xs \<noteq> [] \<Longrightarrow> elements (join (map json_string xs) '','' @ '']'' @ t) = Some (map coerce_utf8 xs, t)"
proof (induction xs rule: induct_list012)
  case (2 x)
  show ?case
    by (subst elements.simps) (simp add: element_json_string json_ws_def)
next
  case (3 x y zs)
  have "skip_ws (join (map json_string (y # zs)) '','' @ '']'' @ t) =
      join (map json_string (y # zs)) '','' @ '']'' @ t"
    by (cases zs) simp_all
  with 3 show ?case
    by (subst elements.simps) (simp add: element_json_string json_ws_def)
qed simp

lemma unmarshal_marshal: "unmarshal_strings (marshal_strings xs) = Some (map coerce_utf8 xs)"
proof (cases xs)
  case Nil
  then show ?thesis
    by (simp add: unmarshal_strings_def marshal_strings_def json_ws_def has_prefix_def ends_def)
next
  case (Cons x ys)
  define body where "body = join (map json_string xs) '','' @ '']''"
  have b: "body = quote_char # tl body" "skip_ws body = body"
    unfolding body_def Cons by (cases ys; simp add: json_string_def json_ws_def)+
  have "elements body = Some (map coerce_utf8 xs, [])"
    using elements_json [of xs "[]"] by (simp add: body_def Cons)
  moreover have "marshal_strings xs = CHR ''['' # body"
    by (simp add: marshal_strings_def body_def)
  moreover obtain c t where "body = c # t" "c = quote_char" using b(1) by blast
  ultimately show ?thesis
    using b(2) by (simp add: unmarshal_strings_def json_ws_def has_prefix_def ends_def)
qed

section \<open>The length of an encoding\<close>

text \<open>
  No byte takes more than six: the comment of \<open>routes\<close> (\<open>can expand sixfold when
  JSON-escaped\<close>) as a bound on the whole array.
\<close>

lemma length_esc_chunk: "c \<in> set (chunks s) \<Longrightarrow> length (esc_chunk c) \<le> 6 * length (snd c)"
proof -
  assume c: "c \<in> set (chunks s)"
  have "snd c \<noteq> []"
    using chunks_ok [OF c] by (auto simp: chunk_ok_def)
  moreover have "length (esc_chunk c) \<le> 6 \<or> esc_chunk c = snd c"
    by (simp add: esc_chunk_def u_escape_def Let_def)
  ultimately show "length (esc_chunk c) \<le> 6 * length (snd c)"
    by (cases "snd c") auto
qed

lemma length_json_string: "length (json_string s) \<le> 6 * length s + 2"
proof -
  have "length (concat (map esc_chunk cs)) \<le> 6 * length (concat (map snd cs))"
    if "set cs \<subseteq> set (chunks s)" for cs
    using that by (induction cs) (auto dest!: length_esc_chunk)
  from this [of "chunks s"] show ?thesis
    by (simp add: json_string_def)
qed

lemma length_marshal_strings:
  "length (marshal_strings xs) \<le> 6 * sum_list (map length xs) + 3 * length xs + 2"
proof -
  have "length (join (map json_string ys) '','') \<le> 6 * sum_list (map length ys) + 3 * length ys"
    for ys
  proof (induction ys rule: induct_list012)
    case (2 x)
    then show ?case using length_json_string [of x] by simp
  next
    case (3 x y zs)
    then show ?case using length_json_string [of x] by simp
  qed simp
  from this [of xs] show ?thesis by (simp add: marshal_strings_def)
qed

end
