(* ===== verification/JobModel.thy ===== *)
theory JobModel
  imports GoJson
begin

text \<open>
  The data every component passes around: \<open>Job\<close> (worker/job.go), \<open>Result\<close>
  (worker/executor_linux.go), and the errors of the local queue. Times are Unix
  nanoseconds, as \<open>time.Now().UnixNano()\<close> writes them; pointers that may be nil are
  options.
\<close>

text \<open>
  The status of a row. The column's \<open>CHECK(status IN (...))\<close> admits these four texts only;
  \<open>status_text\<close> is the text, which is also what \<open>Job.Status\<close> holds.
\<close>

datatype status = Queued | Running | Succeeded | Failed

fun status_text :: "status \<Rightarrow> string" where
  "status_text Queued = ''queued''"
| "status_text Running = ''running''"
| "status_text Succeeded = ''succeeded''"
| "status_text Failed = ''failed''"

lemma status_text_inj: "status_text s = status_text t \<longleftrightarrow> s = t"
  by (cases s; cases t) simp_all

text \<open>\<open>queueEnv\<close> is a Go map; it is given as the list of its entries in iteration order.\<close>

record job =
  queueEnv :: "(string \<times> string) list"
  ID :: string
  Status :: string
  Command :: "string list"
  CreatedAt :: int
  StartedAt :: "int option"
  FinishedAt :: "int option"
  WorkerID :: string
  Hostname :: string
  OutputPath :: string
  ExitCode :: "int option"
  Error :: string
  CancelRequested :: int

record result =
  rExitCode :: "int option"
  rError :: string
  rOutputPath :: string
  rCancelled :: bool

text \<open>\<open>Result{Error: e}\<close>, the other fields at their zero values.\<close>

definition error_result :: "string \<Rightarrow> result" where
  "error_result e = \<lparr>rExitCode = None, rError = e, rOutputPath = [], rCancelled = False\<rparr>"

text \<open>The test both reporting backends make: exit code zero and no error text.\<close>

definition result_ok :: "result \<Rightarrow> bool" where
  "result_ok r \<longleftrightarrow> rExitCode r = Some 0 \<and> rError r = []"

text \<open>
  Errors as values. Each constructor is one \<open>fmt.Errorf\<close> (or sentinel) of
  worker/local_queue.go or worker/local_batch.go; \<open>DBError\<close> is an error handed up from
  the database driver, whose text is the driver's.
\<close>

datatype lq_error =
    InvalidLocalID string
  | NoRows
  | BadCommandJSON
  | InvalidLatestKind
  | EmptyCommand
  | CommandNUL
  | CommandTooLarge
  | NotRunning string
  | OnlyQueuedReordered
  | NotFoundOrRunning string
  | OnlyFailedRetried
  | BatchSize
  | BadBatchID
  | UnknownBatchAction string
  | InvalidPagination
  | SwapNeedsTwo
  | BadBody
  | DBError string

end
