(* ===== verification/Executor.thy ===== *)
theory Executor
  imports ActiveJob JobModel
begin

text \<open>
  Running one job: the process (worker/executor_linux.go), the output file and its report
  (worker/job_execution.go), the activation and the final report (\<open>runJob\<close> and
  \<open>reportResult\<close> of worker/worker.go).

  The backend that gave the job (the local queue or the controller's client) is a pair of
  operations on a state \<open>'s\<close>; the contract it keeps and what \<open>runJob\<close> achieves over it are
  the locales at the end. What the rest of the program does meanwhile (socket requests,
  heartbeats, shutdown) is a function on the shared state at each point where the code may
  be overtaken; what the operating system does is a record of its answers.
\<close>

section \<open>The process\<close>

definition cancellationResult :: "cause option \<Rightarrow> string \<Rightarrow> result" where
  "cancellationResult c fallback =
     (if c = Some RemoteCancellation
      then \<lparr>rExitCode = None, rError = ''Job cancelled by user'', rOutputPath = [], rCancelled = True\<rparr>
      else error_result fallback)"

definition truncateError :: "string \<Rightarrow> string" where
  "truncateError msg =
     (if 4096 < length (runes msg) then string_of_runes (take 4096 (runes msg)) else msg)"

definition jobEnvironment :: "string list \<Rightarrow> string list" where
  "jobEnvironment environment = filter (\<lambda>entry.
     \<not> has_prefix entry ''JOBD_WORKER_TOKEN='' \<and> \<not> has_prefix entry ''JOBD_MASTER_KEY='') environment"

definition processResult :: "int \<Rightarrow> string option \<Rightarrow> result" where
  "processResult code err = (case err of
     None \<Rightarrow> \<lparr>rExitCode = Some code, rError = [], rOutputPath = [], rCancelled = False\<rparr>
   | Some e \<Rightarrow> \<lparr>rExitCode = Some code,
       rError = ''Process exited with code '' @ itoa code @ '': '' @ truncateError e,
       rOutputPath = [], rCancelled = False\<rparr>)"

text \<open>
  How the process went: \<open>cmd.Start\<close> failed; its exit was seen (first, or together with the
  cancellation) with its code and the error of \<open>cmd.Wait\<close>; or the cancellation was seen
  alone, and the code is that of after the group was killed.
\<close>

datatype outcome = StartFailed string | Exited int "string option" | Interrupted int

datatype effect = Started "string list" "string list" | Terminate | Sleep int | Kill

text \<open>
  \<open>execute\<close>: \<open>c\<close> is the cause of the context at the start, \<open>c'\<close> at the end. The second
  component is what is done to the process, in order.
\<close>

definition execute :: "cause option \<Rightarrow> string list \<Rightarrow> int \<Rightarrow> string list \<Rightarrow> string list \<Rightarrow> outcome \<Rightarrow>
    cause option \<Rightarrow> result \<times> effect list" where
  "execute c argv grace environ env out c' =
     (if c \<noteq> None then (cancellationResult c ''Worker shutting down'', [])
      else if argv = [] then (error_result ''Empty command'', [])
      else let start = Started argv (jobEnvironment (environ @ env)) in
        case out of
          StartFailed e \<Rightarrow> (error_result (truncateError e), [start])
        | Exited code err \<Rightarrow> (processResult code err, [start])
        | Interrupted code \<Rightarrow>
           (let res = cancellationResult c' ''Worker shut down during execution'' in
            (if code \<noteq> 0 then res\<lparr>rExitCode := Some code\<rparr> else res,
             [start, Terminate, Sleep grace, Kill])))"

section \<open>The job\<close>

text \<open>
  The answers of the system during \<open>executeJob\<close>, and what others do to the shared state:
  \<open>world 0\<close> after the activation, \<open>world 1\<close> after the output report, \<open>world 2\<close> before the
  process starts, \<open>world 3\<close> while it runs.
\<close>

record 's surroundings =
  temp_file :: "string + string"
  os_environ :: "string list"
  outcome :: outcome
  world :: "nat \<Rightarrow> 's \<times> active \<Rightarrow> 's \<times> active"

type_synonym 's shared = "'s \<times> active"

definition job_cause :: "nat \<Rightarrow> 's shared \<Rightarrow> cause option" where
  "job_cause h s = cause_of h (snd (snd s))"

definition on_backend :: "('s, 'e, 'a) op \<Rightarrow> ('s shared, 'e, 'a) op" where
  "on_backend m = (\<lambda>(s, a). case m s of (r, s') \<Rightarrow> (r, (s', a)))"

text \<open>
  \<open>executeJob\<close>. \<open>exempt\<close> is \<open>backend == w.client && errors.Is(err, errRemoteDisabled)\<close>,
  \<open>text\<close> is \<open>err.Error()\<close>. The file, once created, is the result's output path on every
  return. The context of the job is \<open>h\<close>.
\<close>

definition executeJob :: "(string \<Rightarrow> string \<Rightarrow> ('s, 'e, unit) op) \<Rightarrow> ('e \<Rightarrow> bool) \<Rightarrow> ('e \<Rightarrow> string) \<Rightarrow>
    int \<Rightarrow> nat \<Rightarrow> 's surroundings \<Rightarrow> job \<Rightarrow> 's shared \<Rightarrow> (result \<times> effect list) \<times> 's shared" where
  "executeJob output exempt txt grace h env job s =
     (let s0 = world env 0 s in
      if job_cause h s0 \<noteq> None
      then ((cancellationResult (job_cause h s0) ''Worker shut down before execution'', []), s0)
      else if Command job = [] then ((error_result ''Empty command'', []), s0)
      else case temp_file env of
        Inl e \<Rightarrow> ((error_result (truncateError (''Create command output file: '' @ e)), []), s0)
      | Inr path \<Rightarrow>
         (case on_backend (output (ID job) path) s0 of (r, s1) \<Rightarrow>
          let s2 = world env 1 s1;
              refused = (case r of Inl e \<Rightarrow> if exempt e then None else Some e | Inr _ \<Rightarrow> None) in
          case refused of
            Some e \<Rightarrow> ((cancellationResult (job_cause h s2) (truncateError (''Report output path: '' @ txt e))
                \<lparr>rOutputPath := path\<rparr>, []), s2)
          | None \<Rightarrow>
              (let s3 = world env 2 s2; s4 = world env 3 s3;
                   (res, eff) = execute (job_cause h s3) (Command job) grace (os_environ env)
                     (map (\<lambda>(n, v). n @ ''='' @ v) (queueEnv job)) (outcome env) (job_cause h s4)
               in ((res\<lparr>rOutputPath := path\<rparr>, eff), s4))))"

text \<open>
  \<open>reportResult\<close>: a second attempt under its own deadline, only when the worker's context is
  done by then; the operations of the two attempts are \<open>finish 0\<close> and \<open>finish 1\<close>.
\<close>

definition reportResult :: "(nat \<Rightarrow> string \<Rightarrow> result \<Rightarrow> ('s, 'e, unit) op) \<Rightarrow> ('e \<Rightarrow> bool) \<Rightarrow>
    ('s \<Rightarrow> bool) \<Rightarrow> string \<Rightarrow> result \<Rightarrow> ('s, 'e, unit) op" where
  "reportResult finish exempt ctx_done jid res = (\<lambda>s.
     case finish 0 jid res s of
       (Inr _, s') \<Rightarrow> (Inr (), s')
     | (Inl e, s') \<Rightarrow>
         (case (if ctx_done s' then finish 1 jid res s' else (Inl e, s')) of
            (Inr _, s'') \<Rightarrow> (Inr (), s'')
          | (Inl e', s'') \<Rightarrow> (if exempt e' then Inr () else Inl e', s'')))"

text \<open>The test of \<open>runJob\<close> for a remote job that failed by itself.\<close>

definition remote_failure :: "result \<Rightarrow> bool" where
  "remote_failure res \<longleftrightarrow> \<not> rCancelled res \<and> \<not> result_ok res"

text \<open>
  \<open>runJob\<close>: \<open>p\<close> is the worker's context; \<open>disable\<close> is \<open>w.client.disableRemote\<close> when the
  backend is the client and does nothing otherwise. The deferred calls run on both returns.
\<close>

definition runJob :: "(string \<Rightarrow> string \<Rightarrow> ('s, 'e, unit) op) \<Rightarrow> (nat \<Rightarrow> string \<Rightarrow> result \<Rightarrow> ('s, 'e, unit) op) \<Rightarrow>
    ('e \<Rightarrow> bool) \<Rightarrow> ('e \<Rightarrow> string) \<Rightarrow> ('s \<Rightarrow> 's) \<Rightarrow> int \<Rightarrow> nat \<Rightarrow> 's surroundings \<Rightarrow> job \<Rightarrow>
    's shared \<Rightarrow> ('e + result) \<times> 's shared" where
  "runJob output finish exempt txt disable grace p env job = (\<lambda>(s, (a, cs)).
     case with_cancel p cs of (h, cs') \<Rightarrow>
     (case executeJob output exempt txt grace h env job
         (s, Activate (ID job) h (CancelRequested job \<noteq> 0) (a, cs')) of
       ((res, _), (s1, a1)) \<Rightarrow>
       (case reportResult finish exempt (\<lambda>_. cause_of p (snd a1) \<noteq> None) (ID job) res s1 of
          (Inl e, s2) \<Rightarrow> (Inl e, (s2, active_step (EOther h Canceled) (Deactivate (ID job) a1)))
        | (Inr _, s2) \<Rightarrow> (Inr res, (if remote_failure res then disable s2 else s2,
            active_step (EOther h Canceled) (Deactivate (ID job) a1))))))"

section \<open>What the process is given, and what its result says\<close>

lemma result_ok_error_result [simp]: "\<not> result_ok (error_result e)"
  by (simp add: result_ok_def error_result_def)

lemma result_ok_cancellation [simp]: "\<not> result_ok (cancellationResult c msg)"
  by (simp add: cancellationResult_def result_ok_def error_result_def)

lemma result_ok_interrupted [simp]: "\<not> result_ok ((cancellationResult c (m # msg))\<lparr>rExitCode := x\<rparr>)"
  by (simp add: cancellationResult_def result_ok_def error_result_def)

lemma result_ok_path [simp]: "result_ok (res\<lparr>rOutputPath := p\<rparr>) = result_ok res"
  by (simp add: result_ok_def)

lemma result_ok_process [simp]: "result_ok (processResult code err) \<longleftrightarrow> code = 0 \<and> err = None"
  by (cases err) (auto simp: processResult_def result_ok_def)

lemma execute_ok:
  "result_ok (fst (execute c argv grace environ env out c')) \<longleftrightarrow>
     c = None \<and> argv \<noteq> [] \<and> out = Exited 0 None"
  by (cases out) (auto simp: execute_def Let_def)

lemma execute_cancelled: "c \<noteq> None \<Longrightarrow> snd (execute c argv grace environ env out c') = []"
  by (simp add: execute_def)

lemma execute_started:
  "Started argv' envv \<in> set (snd (execute c argv grace environ env out c')) \<Longrightarrow>
     argv' = argv \<and> envv = jobEnvironment (environ @ env)"
  by (cases out) (auto simp: execute_def Let_def split: if_splits)

text \<open>The bytes of a truncated message: at most four for each of its runes.\<close>

lemma length_encode_rune: "length (encode_rune r) \<le> 4"
  by (simp add: encode_rune_def encode_scalar_def)

lemma length_string_of_runes: "length (string_of_runes rs) \<le> 4 * length rs"
proof (induction rs)
  case (Cons r rs)
  then show ?case using length_encode_rune [of r] by (simp add: string_of_runes_Cons)
qed (simp add: string_of_runes_def)

lemma length_le_runes: "length s \<le> 4 * length (runes s)"
proof (induction s rule: chunks_induct)
  case (valid r t)
  then show ?case using length_encode_scalar(2) [of r] by simp
qed (simp_all add: runes_def chunks_invalid)

lemma length_truncateError: "length (truncateError msg) \<le> 16384"
proof (cases "4096 < length (runes msg)")
  case True
  then show ?thesis
    using length_string_of_runes [of "take 4096 (runes msg)"] by (simp add: truncateError_def)
next
  case False
  then show ?thesis using length_le_runes [of msg] by (simp add: truncateError_def)
qed

definition outcome_int64 :: "outcome \<Rightarrow> bool" where
  "outcome_int64 out = (case out of StartFailed _ \<Rightarrow> True | Exited n _ \<Rightarrow> int64 n | Interrupted n \<Rightarrow> int64 n)"

lemma rError_cancellation:
  "rError (cancellationResult c msg) = (if c = Some RemoteCancellation then ''Job cancelled by user'' else msg)"
  by (simp add: cancellationResult_def error_result_def)

lemma length_rError_cancellation:
  "length msg \<le> 100 \<Longrightarrow> length (rError (cancellationResult c msg)) \<le> 100"
  by (simp add: rError_cancellation)

lemma length_rError_process:
  assumes "int64 code"
  shows "length (rError (processResult code err)) \<le> 16384 + 47"
proof (cases err)
  case (Some e)
  have "length ''Process exited with code '' = 25" "length '': '' = 2" by simp_all
  then have "length (rError (processResult code err)) = 25 + length (itoa code) + 2 + length (truncateError e)"
    unfolding processResult_def Some option.case result.simps length_append by simp
  then show ?thesis
    using length_itoa [OF assms] length_truncateError [of e] by linarith
qed (simp add: processResult_def)

lemma rError_exit_code [simp]: "rError (res\<lparr>rExitCode := x\<rparr>) = rError res"
  by simp

lemma length_rError_execute:
  assumes "outcome_int64 out"
  shows "length (rError (fst (execute c argv grace environ env out c'))) \<le> 16384 + 47"
proof -
  have 1: "length (rError (cancellationResult c ''Worker shutting down'')) \<le> 100"
    by (rule length_rError_cancellation) simp
  have 2: "length (rError (cancellationResult c' ''Worker shut down during execution'')) \<le> 100"
    by (rule length_rError_cancellation) simp
  have 3: "length (rError (error_result ''Empty command'')) \<le> 100"
    by (simp add: error_result_def)
  show ?thesis
  proof (cases "c \<noteq> None \<or> argv = []")
    case True
    then have "fst (execute c argv grace environ env out c') = cancellationResult c ''Worker shutting down'' \<or>
        fst (execute c argv grace environ env out c') = error_result ''Empty command''"
      by (auto simp: execute_def)
    then have "length (rError (fst (execute c argv grace environ env out c'))) \<le> 100"
      using 1 3 by (elim disjE) simp_all
    then show ?thesis by linarith
  next
    case False
    show ?thesis
    proof (cases out)
      case (StartFailed e)
      with False length_truncateError [of e] show ?thesis
        by (simp add: execute_def Let_def error_result_def)
    next
      case (Exited code err)
      with False assms length_rError_process [of code err] show ?thesis
        by (simp add: execute_def Let_def outcome_int64_def)
    next
      case (Interrupted code)
      with False have "rError (fst (execute c argv grace environ env out c')) =
          rError (cancellationResult c' ''Worker shut down during execution'')"
        by (simp add: execute_def Let_def)
      with 2 show ?thesis by simp
    qed
  qed
qed

section \<open>The contract of a backend\<close>

text \<open>What every step of \<open>executeJob\<close> keeps, it keeps.\<close>

lemma executeJob_keeps:
  assumes w: "\<And>i t. B t \<Longrightarrow> B (world env i t)"
    and out: "\<And>path t. B t \<Longrightarrow> B (snd (on_backend (outp (ID job) path) t))" and s: "B s"
  shows "B (snd (executeJob outp exempt txt grace h env job s))"
proof (cases "job_cause h (world env 0 s) \<noteq> None \<or> Command job = []")
  case True
  then show ?thesis using w [OF s] by (auto simp: executeJob_def Let_def)
next
  case False
  show ?thesis
  proof (cases "temp_file env")
    case (Inl e)
    with False show ?thesis using w [OF s] by (simp add: executeJob_def Let_def)
  next
    case (Inr path)
    obtain r t where t: "on_backend (outp (ID job) path) (world env 0 s) = (r, t)" by (rule prod.exhaust)
    then have "B t" using out [OF w [OF s, of 0], of path] by simp
    then have "B (world env 1 t)" "B (world env 3 (world env 2 (world env 1 t)))"
      by (simp_all add: w)
    then show ?thesis
      using False Inr t by (simp add: executeJob_def Let_def case_prod_beta split: option.split)
  qed
qed

text \<open>
  \<open>good\<close> is the backend's invariant, \<open>settled s jid ok\<close> says that it holds the job's outcome.
  A backend may fail; what it accepts it has recorded.
\<close>

locale job_backend =
  fixes outp :: "string \<Rightarrow> string \<Rightarrow> ('s, 'e, unit) op"
    and finish :: "nat \<Rightarrow> string \<Rightarrow> result \<Rightarrow> ('s, 'e, unit) op"
    and good :: "'s \<Rightarrow> bool" and settled :: "'s \<Rightarrow> string \<Rightarrow> bool \<Rightarrow> bool"
  assumes output_good: "good s \<Longrightarrow> good (snd (outp jid path s))"
    and finish_good: "good s \<Longrightarrow> good (snd (finish i jid res s))"
    and finish_settles: "good s \<Longrightarrow> finish i jid res s = (Inr (), s') \<Longrightarrow> settled s' jid (result_ok res)"
begin

text \<open>The rest of the program keeps the invariant at every point where it may act.\<close>

definition polite :: "'s surroundings \<Rightarrow> bool" where
  "polite env \<longleftrightarrow> (\<forall>i s. good (fst s) \<longrightarrow> good (fst (world env i s)))"

lemma on_backend_good: "good (fst s) \<Longrightarrow> good (fst (snd (on_backend (outp jid path) s)))"
  using output_good by (auto simp: on_backend_def split: prod.split) (metis snd_conv)

lemma executeJob_good:
  assumes env: "polite env" and s: "good (fst s)"
  shows "good (fst (snd (executeJob outp exempt txt grace h env job s)))"
proof (rule executeJob_keeps [where B = "\<lambda>t. good (fst t)"])
  show "good (fst (world env i t))" if "good (fst t)" for i t
    using env that unfolding polite_def by blast
qed (use s on_backend_good in auto)

lemma reportResult_good:
  "good s \<Longrightarrow> good (snd (reportResult finish exempt ctx_done jid res s))"
  using finish_good [of s 0 jid res] finish_good [of "snd (finish 0 jid res s)" 1 jid res]
  by (auto simp: reportResult_def split: prod.split sum.split)

lemma reportResult_settles:
  assumes "good s" "reportResult finish exempt ctx_done jid res s = (Inr (), s')" "\<And>e. \<not> exempt e"
  shows "settled s' jid (result_ok res)"
proof (cases "finish 0 jid res s")
  case (Pair r t)
  then have t: "good t" using finish_good [OF assms(1), of 0 jid res] by simp
  show ?thesis
  proof (cases r)
    case (Inr u)
    then show ?thesis
      using assms(2) Pair finish_settles [OF assms(1), of 0 jid res t] by (simp add: reportResult_def)
  next
    case (Inl e)
    then have "ctx_done t \<and> finish 1 jid res t = (Inr (), s')"
      using assms(2,3) Pair by (auto simp: reportResult_def split: if_splits prod.splits sum.splits)
    then show ?thesis using finish_settles [OF t] by blast
  qed
qed

lemma runJob_settles:
  assumes env: "polite env" and s: "good s" and exempt: "\<And>e. \<not> exempt e"
    and run: "runJob outp finish exempt txt (\<lambda>s. s) grace p env job (s, acs) = (Inr res, (s', a'))"
  shows "good s' \<and> settled s' (ID job) (result_ok res)"
proof -
  obtain a cs where acs: "acs = (a, cs)" by fastforce
  obtain h cs' where h: "with_cancel p cs = (h, cs')" by fastforce
  obtain res' eff s1 a1 where ex: "executeJob outp exempt txt grace h env job
      (s, Activate (ID job) h (CancelRequested job \<noteq> 0) (a, cs')) = ((res', eff), (s1, a1))"
    by (metis prod.collapse)
  have g: "good s1"
    using executeJob_good [OF env, of "(s, Activate (ID job) h (CancelRequested job \<noteq> 0) (a, cs'))"] s ex
    by (metis fst_conv snd_conv)
  let ?report = "reportResult finish exempt (\<lambda>_. cause_of p (snd a1) \<noteq> None) (ID job)"
  obtain r s2 where rep: "?report res' s1 = (r, s2)" by fastforce
  with run ex h have r: "r = Inr ()" "res = res'" "s' = s2"
    by (auto simp: runJob_def acs split: sum.splits if_splits)
  have "settled s2 (ID job) (result_ok res')"
    using reportResult_settles [OF g, of exempt "\<lambda>_. cause_of p (snd a1) \<noteq> None" "ID job" res' s2]
      rep r(1) exempt by blast
  moreover have "good s2"
    using reportResult_good [OF g, of exempt "\<lambda>_. cause_of p (snd a1) \<noteq> None" "ID job" res'] rep by simp
  ultimately show ?thesis using r by simp
qed

end

text \<open>A backend that always accepts the reports on the jobs it says this worker runs.\<close>

locale reliable_backend = job_backend outp finish good settled
  for outp :: "string \<Rightarrow> string \<Rightarrow> ('s, 'e, unit) op"
    and finish :: "nat \<Rightarrow> string \<Rightarrow> result \<Rightarrow> ('s, 'e, unit) op"
    and good :: "'s \<Rightarrow> bool" and settled :: "'s \<Rightarrow> string \<Rightarrow> bool \<Rightarrow> bool" +
  fixes owned :: "'s \<Rightarrow> string \<Rightarrow> bool"
  assumes output_owned: "good s \<Longrightarrow> owned s jid \<Longrightarrow>
      \<exists>s'. outp jid path s = (Inr (), s') \<and> owned s' jid"
    and finish_owned: "good s \<Longrightarrow> owned s jid \<Longrightarrow> \<exists>s'. finish i jid res s = (Inr (), s')"
begin

definition respectful :: "'s surroundings \<Rightarrow> string \<Rightarrow> bool" where
  "respectful env jid \<longleftrightarrow> (\<forall>i s. good (fst s) \<and> owned (fst s) jid \<longrightarrow>
     good (fst (world env i s)) \<and> owned (fst (world env i s)) jid)"

lemma executeJob_owned:
  assumes env: "respectful env (ID job)" and s: "good (fst s)" "owned (fst s) (ID job)"
  shows "good (fst (snd (executeJob outp exempt txt grace h env job s))) \<and>
    owned (fst (snd (executeJob outp exempt txt grace h env job s))) (ID job)"
proof -
  let ?both = "\<lambda>t :: 's shared. good (fst t) \<and> owned (fst t) (ID job)"
  have "?both (snd (executeJob outp exempt txt grace h env job s))"
  proof (rule executeJob_keeps [where B = ?both])
    show "?both (world env i t)" if "?both t" for i t
      using env that unfolding respectful_def by blast
    show "?both (snd (on_backend (outp (ID job) path) t))" if "?both t" for path t
      using that output_owned [of "fst t" "ID job" path] output_good [of "fst t" "ID job" path]
      by (auto simp: on_backend_def split: prod.split)
  qed (use s in simp)
  then show ?thesis .
qed

lemma runJob_reliable:
  assumes env: "respectful env (ID job)" and s: "good s" "owned s (ID job)"
    and exempt: "\<And>e. \<not> exempt e"
  shows "\<exists>res s' a'. runJob outp finish exempt txt (\<lambda>s. s) grace p env job (s, acs) = (Inr res, (s', a')) \<and>
    good s' \<and> settled s' (ID job) (result_ok res)"
proof -
  obtain a cs where acs: "acs = (a, cs)" by fastforce
  obtain h cs' where h: "with_cancel p cs = (h, cs')" by fastforce
  obtain res eff s1 a1 where ex: "executeJob outp exempt txt grace h env job
      (s, Activate (ID job) h (CancelRequested job \<noteq> 0) (a, cs')) = ((res, eff), (s1, a1))"
    by (metis prod.collapse)
  have g: "good s1" "owned s1 (ID job)"
    using executeJob_owned [OF env, of "(s, Activate (ID job) h (CancelRequested job \<noteq> 0) (a, cs'))"] s ex
    by (metis fst_conv snd_conv)+
  obtain s2 where f: "finish 0 (ID job) res s1 = (Inr (), s2)" using finish_owned [OF g] by blast
  have "good s2" using finish_good [OF g(1), of 0 "ID job" res] f by simp
  moreover have "settled s2 (ID job) (result_ok res)" by (rule finish_settles [OF g(1) f])
  ultimately show ?thesis
    by (simp add: runJob_def acs h ex reportResult_def f)
qed

end

section \<open>Properties\<close>

text \<open>A job succeeds only if its process ran and exited by itself with code zero and no
  error: never when the job was cancelled before it started, could not be started, or had to
  be interrupted, even if it then exited with zero.\<close>

theorem only_a_clean_exit_succeeds:
  "result_ok (fst (execute c argv grace environ env out c')) \<longleftrightarrow>
     c = None \<and> argv \<noteq> [] \<and> out = Exited 0 None"
  by (rule execute_ok)

text \<open>The worker's own secrets never reach a job: the process is started with the job's
  argument vector and an environment in which no entry sets the worker token or the master
  key, be it from the worker's environment or from the queue's; every other entry is passed,
  in order.\<close>

theorem secrets_never_reach_jobs:
  assumes "Started argv' envv \<in> set (snd (execute c argv grace environ env out c'))"
  shows "argv' = argv \<and>
    (\<forall>v. ''JOBD_WORKER_TOKEN='' @ v \<notin> set envv \<and> ''JOBD_MASTER_KEY='' @ v \<notin> set envv) \<and>
    envv = filter (\<lambda>e. \<forall>v. e \<noteq> ''JOBD_WORKER_TOKEN='' @ v \<and> e \<noteq> ''JOBD_MASTER_KEY='' @ v) (environ @ env)"
proof -
  have iff: "\<not> has_prefix e ''JOBD_WORKER_TOKEN='' \<and> \<not> has_prefix e ''JOBD_MASTER_KEY='' \<longleftrightarrow>
      (\<forall>v. e \<noteq> ''JOBD_WORKER_TOKEN='' @ v \<and> e \<noteq> ''JOBD_MASTER_KEY='' @ v)" for e
    unfolding has_prefix_iff by blast
  have "envv = filter (\<lambda>e. \<forall>v. e \<noteq> ''JOBD_WORKER_TOKEN='' @ v \<and> e \<noteq> ''JOBD_MASTER_KEY='' @ v) (environ @ env)"
    using execute_started [OF assms] unfolding jobEnvironment_def iff by blast
  moreover from this have "\<forall>v. ''JOBD_WORKER_TOKEN='' @ v \<notin> set envv \<and> ''JOBD_MASTER_KEY='' @ v \<notin> set envv"
    by (simp only: set_filter mem_Collect_eq) blast
  ultimately show ?thesis using execute_started [OF assms] by blast
qed

theorem secrets_never_reach_jobs_witness:
  "snd (execute None [''env''] 5 [''HOME=/root'', ''JOBD_MASTER_KEY=k''] [''A=1''] (Exited 0 None) None) =
     [Started [''env''] [''HOME=/root'', ''A=1'']] \<and>
   (\<forall>v. ''JOBD_MASTER_KEY='' @ v \<notin> set [''HOME=/root'', ''A=1''])"
proof -
  have "snd (execute None [''env''] 5 [''HOME=/root'', ''JOBD_MASTER_KEY=k''] [''A=1''] (Exited 0 None) None) =
      [Started [''env''] [''HOME=/root'', ''A=1'']]"
    by (simp add: execute_def Let_def jobEnvironment_def has_prefix_def)
  moreover from this secrets_never_reach_jobs [of "[''env'']" "[''HOME=/root'', ''A=1'']" None "[''env'']" 5
      "[''HOME=/root'', ''JOBD_MASTER_KEY=k'']" "[''A=1'']" "Exited 0 None" None]
  have "\<forall>v. ''JOBD_MASTER_KEY='' @ v \<notin> set [''HOME=/root'', ''A=1'']" by simp
  ultimately show ?thesis by blast
qed

text \<open>The error text that is reported is bounded, whatever the system and the process
  answer: at most 4096 runes of it come from outside, so it never exceeds 16 KiB and a fixed
  prefix.\<close>

theorem reported_errors_are_bounded:
  assumes "outcome_int64 out"
  shows "length (rError (fst (execute c argv grace environ env out c'))) \<le> 16384 + 47 \<and>
    length (runes (truncateError msg)) \<le> 4096 \<and>
    (length (runes msg) \<le> 4096 \<longrightarrow> truncateError msg = msg)"
proof -
  have "list_all scalar (take 4096 (runes msg))"
    by (auto simp: list_all_iff dest: in_set_takeD runes_scalar)
  then have "runes (string_of_runes (take 4096 (runes msg))) = take 4096 (runes msg)"
    by (rule runes_string_of_runes)
  then show ?thesis
    using length_rError_execute [OF assms] by (simp add: truncateError_def)
qed

theorem reported_errors_are_bounded_witness:
  "length (rError (fst (execute None [''false''] 5 [] [] (Exited 1 (Some ''exit status 1'')) None))) \<le> 16384 + 47"
proof -
  have "outcome_int64 (Exited 1 (Some ''exit status 1''))"
    by (simp add: outcome_int64_def int64_def max_int64_def)
  then show ?thesis by (rule reported_errors_are_bounded [THEN conjunct1])
qed

text \<open>A cancelled job is never started: when the job's context is cancelled before
  \<open>executeJob\<close> begins, no process is started, the backend is not told anything, and the
  result is the user's cancellation exactly when that was the cause. When it is cancelled
  while the process runs, the process group is terminated, given its grace, and killed.\<close>

theorem cancelled_jobs_do_not_run:
  assumes "job_cause h (world env 0 s) = Some c"
  shows "snd (executeJob outp exempt txt grace h env job s) = world env 0 s \<and>
    snd (fst (executeJob outp exempt txt grace h env job s)) = [] \<and>
    rCancelled (fst (fst (executeJob outp exempt txt grace h env job s))) = (c = RemoteCancellation) \<and>
    snd (execute None (a # argv) grace environ envs (Interrupted code) (Some c)) =
      [Started (a # argv) (jobEnvironment (environ @ envs)), Terminate, Sleep grace, Kill] \<and>
    rCancelled (fst (execute None (a # argv) grace environ envs (Interrupted code) (Some c))) =
      (c = RemoteCancellation)"
  using assms by (simp add: executeJob_def execute_def Let_def cancellationResult_def error_result_def)

theorem cancelled_jobs_do_not_run_witness:
  "rCancelled (fst (fst (executeJob (\<lambda>_ _ s. (Inl ''down'', s)) (\<lambda>_. False) (\<lambda>e. e) 5 0
      \<lparr>temp_file = Inr ''/tmp/jobd-1.log'', os_environ = [], outcome = Exited 0 None, world = \<lambda>_ s. s\<rparr>
      \<lparr>queueEnv = [], ID = ''local-1'', Status = ''running'', Command = [''ls''], CreatedAt = 5,
       StartedAt = Some 7, FinishedAt = None, WorkerID = [], Hostname = [], OutputPath = [],
       ExitCode = None, Error = [], CancelRequested = 0\<rparr>
      ((), (idle, cancel_ctx 0 RemoteCancellation background)))))"
proof -
  let ?env = "\<lparr>temp_file = Inr ''/tmp/jobd-1.log'', os_environ = [], outcome = Exited 0 None,
      world = \<lambda>_ s. s\<rparr> :: unit surroundings"
  have "job_cause 0 (world ?env 0 ((), (idle, cancel_ctx 0 RemoteCancellation background))) = Some RemoteCancellation"
    by (simp add: job_cause_def background_def cancel_ctx_def cause_of_def)
  from cancelled_jobs_do_not_run [OF this] show ?thesis by blast
qed

end
