(* ===== verification/ControllerClient.thy ===== *)
theory ControllerClient
  imports Executor
begin

text \<open>
  The client of the controller's worker API, worker/client.go: the construction of its paths,
  one attempt (\<open>postOnce\<close>), the retry loop (\<open>post\<close>), the calls made of them, and the switch
  \<open>remoteDisabled\<close> that ends remote work until a restart.

  What the network answers is an oracle: \<open>rounds i\<close> is the state of the context, of the
  switch (other goroutines may set it) and the reply that the \<open>i\<close>-th turn of the loop meets.
  The loop has no bound of its own, so it is a \<open>partial_function\<close>; that it returns is proved
  from the deadline of its context. Requests sent and requests the controller has accepted
  (answered with a 2xx status) are recorded in the state, which the code does not do.
\<close>

section \<open>Paths\<close>

text \<open>\<open>url.PathEscape\<close>.\<close>

definition upper_hex :: "nat \<Rightarrow> char" where
  "upper_hex d = (if d < 10 then char_of (48 + d) else char_of (55 + d))"

definition path_safe :: "char \<Rightarrow> bool" where
  "path_safe c \<longleftrightarrow> in_range 65 90 c \<or> in_range 97 122 c \<or> in_range 48 57 c \<or>
     c \<in> set ''-_.~$&+=:@''"

definition PathEscape :: "string \<Rightarrow> string" where
  "PathEscape s = concat (map (\<lambda>c. if path_safe c then [c]
     else [CHR ''%'', upper_hex (byte c div 16), upper_hex (byte c mod 16)]) s)"

text \<open>The queue names the regular expression \<open>^[a-z0-9][a-z0-9_-]{0,62}$\<close> matches.\<close>

definition name_start :: "char \<Rightarrow> bool" where
  "name_start c \<longleftrightarrow> in_range 97 122 c \<or> in_range 48 57 c"

definition queue_name :: "string \<Rightarrow> bool" where
  "queue_name s \<longleftrightarrow> (case s of [] \<Rightarrow> False | c # cs \<Rightarrow>
     name_start c \<and> list_all (\<lambda>d. name_start d \<or> d \<in> set ''_-'') cs \<and> length cs \<le> 62)"

section \<open>The client\<close>

datatype payload =
    PRegister string string
  | PEmpty
  | POutput string string
  | PFinish string "int option" string

record controllerClient =
  remoteDisabled :: bool
  apiKey :: string
  baseURL :: string
  cc_workerID :: string
  sent :: "(string \<times> payload) list"
  accepted :: "(string \<times> payload) list"

datatype cc_error =
    BadQueueName
  | BadAddress
  | RemoteDisabled "cc_error option"
  | TokenRequired
  | CtxError cause
  | BadRequest string
  | TransportError string
  | HTTPStatus string int
  | ReadError string
  | TooLarge string
  | InvalidJSON string
  | HTTPSRequired
  | RetryDeadline string
  | RemoteJobFailed string

text \<open>What \<open>net/url\<close> makes of the address: an argument.\<close>

record url =
  Scheme :: string
  Host :: string
  RawQuery :: string
  Fragment :: string

definition NewControllerClient ::
  "string \<Rightarrow> url option \<Rightarrow> string \<Rightarrow> string \<Rightarrow> string \<Rightarrow> cc_error + controllerClient" where
  "NewControllerClient address parsed token worker queue =
     (if \<not> queue_name queue then Inl BadQueueName
      else case parsed of
        None \<Rightarrow> Inl BadAddress
      | Some u \<Rightarrow>
          if Scheme u \<noteq> ''http'' \<and> Scheme u \<noteq> ''https'' \<or> Host u = [] \<or> RawQuery u \<noteq> [] \<or> Fragment u \<noteq> []
          then Inl BadAddress
          else Inr \<lparr>remoteDisabled = False, apiKey = trim_space token,
            baseURL = trim_right address (CHR ''/'') @ ''/queues/'' @ queue,
            cc_workerID = worker, sent = [], accepted = []\<rparr>)"

text \<open>\<open>disableRemote\<close>: sets the switch; the error wraps the reason.\<close>

definition disableRemote :: "cc_error \<Rightarrow> (controllerClient, cc_error, 'a) op" where
  "disableRemote reason = (\<lambda>c. (Inl (RemoteDisabled (Some reason)), c\<lparr>remoteDisabled := True\<rparr>))"

section \<open>One attempt\<close>

text \<open>
  What an attempt meets: no request could be made, no response came, or a response with its
  status and its body, which fails to be read or has a length and decodes or not.
\<close>

datatype 'a body_read = BodyError string | BodyRead int "'a option"

datatype 'a answer = NoRequest string | NoResponse string | Response int "'a body_read"

definition postOnce :: "string \<Rightarrow> payload \<Rightarrow> bool \<Rightarrow> 'a answer \<Rightarrow> controllerClient \<Rightarrow>
    (bool \<times> (cc_error + 'a option)) \<times> controllerClient" where
  "postOnce path payload wants ans c = (case ans of
     NoRequest e \<Rightarrow> ((False, Inl (BadRequest e)), c)
   | NoResponse e \<Rightarrow> ((True, Inl (TransportError e)), c\<lparr>sent := sent c @ [(path, payload)]\<rparr>)
   | Response code body \<Rightarrow>
      (let c1 = c\<lparr>sent := sent c @ [(path, payload)]\<rparr> in
       if code = 401 \<or> code = 403
       then (case disableRemote (HTTPStatus path code) c1 of (r, c2) \<Rightarrow> ((False, r), c2))
       else if code < 200 \<or> 300 \<le> code
       then ((code = 429 \<or> 500 \<le> code, Inl (HTTPStatus path code)), c1)
       else let c2 = c1\<lparr>accepted := accepted c1 @ [(path, payload)]\<rparr> in
         (case body of
            BodyError e \<Rightarrow> ((True, Inl (ReadError e)), c2)
          | BodyRead len decoded \<Rightarrow>
              if 8388608 < len then ((False, Inl (TooLarge path)), c2)
              else if wants then (case decoded of
                  None \<Rightarrow> ((False, Inl (InvalidJSON path)), c2)
                | Some v \<Rightarrow> ((False, Inr (Some v)), c2))
              else ((False, Inr None), c2))))"

section \<open>The retry loop\<close>

record 'a round =
  ctx_before :: "cause option"
  disabled_by_others :: bool
  answer :: "'a answer"
  ctx_after :: "cause option"
  ctx_wait :: "cause option"

definition note_disabled :: "bool \<Rightarrow> controllerClient \<Rightarrow> controllerClient" where
  "note_disabled b c = (if b then c\<lparr>remoteDisabled := True\<rparr> else c)"

partial_function (option) post_loop :: "string \<Rightarrow> payload \<Rightarrow> bool \<Rightarrow> (nat \<Rightarrow> 'a round) \<Rightarrow> nat \<Rightarrow>
    controllerClient \<Rightarrow> ((cc_error + 'a option) \<times> controllerClient) option" where
  "post_loop path payload wants rounds i c =
     (case ctx_before (rounds i) of
        Some e \<Rightarrow> Some (Inl (CtxError e), c)
      | None \<Rightarrow>
         (let c1 = note_disabled (disabled_by_others (rounds i)) c in
          if remoteDisabled c1 then Some (Inl (RemoteDisabled None), c1)
          else case postOnce path payload wants (answer (rounds i)) c1 of ((retrying, res), c2) \<Rightarrow>
            if (\<exists>v. res = Inr v) \<or> \<not> retrying then Some (res, c2)
            else case ctx_after (rounds i) of
              Some e \<Rightarrow> Some (Inl (CtxError e), c2)
            | None \<Rightarrow> (case ctx_wait (rounds i) of
                Some e \<Rightarrow> Some (Inl (CtxError e), c2)
              | None \<Rightarrow> post_loop path payload wants rounds (Suc i) c2)))"

text \<open>
  \<open>post\<close>. \<open>outage\<close> is the test of the deferred function when the call returns: the caller's
  context is not done and the retry deadline has passed.
\<close>

definition post :: "bool \<Rightarrow> string \<Rightarrow> payload \<Rightarrow> bool \<Rightarrow> (nat \<Rightarrow> 'a round) \<Rightarrow> controllerClient \<Rightarrow>
    ((cc_error + 'a option) \<times> controllerClient) option" where
  "post outage path payload wants rounds c =
     (if remoteDisabled c then Some (Inl (RemoteDisabled None), c)
      else case (if apiKey c = [] then Some (Inl TokenRequired, c)
                 else post_loop path payload wants rounds 0 c) of
        None \<Rightarrow> None
      | Some (res, c1) \<Rightarrow> Some (case res of
          Inr v \<Rightarrow> (Inr v, c1)
        | Inl e \<Rightarrow> if outage then disableRemote (RetryDeadline path) c1 else (Inl e, c1)))"

section \<open>The calls\<close>

record workerRecord =
  CurrentJobID :: "string option"
  CancelJobID :: "string option"

definition Register :: "bool \<Rightarrow> string \<Rightarrow> (nat \<Rightarrow> workerRecord round) \<Rightarrow> controllerClient \<Rightarrow>
    ((cc_error + workerRecord option) \<times> controllerClient) option" where
  "Register outage host rounds c =
     post outage ''/workers/register'' (PRegister (cc_workerID c) host) True rounds c"

definition workerPath :: "string \<Rightarrow> controllerClient \<Rightarrow> string" where
  "workerPath action c = ''/workers/'' @ PathEscape (cc_workerID c) @ ''/'' @ action"

definition Heartbeat :: "bool \<Rightarrow> (nat \<Rightarrow> workerRecord round) \<Rightarrow> controllerClient \<Rightarrow>
    ((cc_error + workerRecord option) \<times> controllerClient) option" where
  "Heartbeat outage rounds c = post outage (workerPath ''heartbeat'' c) PEmpty True rounds c"

record claim_response =
  claimed :: "job option"
  environment :: "(string \<times> string) list"

definition Claim_remote :: "bool \<Rightarrow> (nat \<Rightarrow> claim_response round) \<Rightarrow> controllerClient \<Rightarrow>
    ((cc_error + job option) \<times> controllerClient) option" where
  "Claim_remote outage rounds c =
     (case post outage (workerPath ''claim'' c) PEmpty True rounds c of
        None \<Rightarrow> None
      | Some (Inl e, c1) \<Rightarrow> Some (Inl e, c1)
      | Some (Inr None, c1) \<Rightarrow> Some (Inr None, c1)
      | Some (Inr (Some resp), c1) \<Rightarrow>
          if environment resp \<noteq> [] \<and> \<not> has_prefix (baseURL c1) ''https://''
          then Some (Inl HTTPSRequired, c1)
          else Some (Inr (map_option (\<lambda>j. j\<lparr>queueEnv := environment resp\<rparr>) (claimed resp)), c1))"

definition job_path :: "string \<Rightarrow> string \<Rightarrow> string" where
  "job_path jid action = ''/jobs/'' @ PathEscape jid @ ''/'' @ action"

definition Output_remote :: "bool \<Rightarrow> (nat \<Rightarrow> unit round) \<Rightarrow> string \<Rightarrow> string \<Rightarrow> controllerClient \<Rightarrow>
    ((cc_error + unit option) \<times> controllerClient) option" where
  "Output_remote outage rounds jid path c =
     post outage (job_path jid ''output'') (POutput (cc_workerID c) path) False rounds c"

definition finish_request :: "string \<Rightarrow> result \<Rightarrow> controllerClient \<Rightarrow> string \<times> payload" where
  "finish_request jid res c =
     (job_path jid (if result_ok res then ''complete'' else ''fail''),
      PFinish (cc_workerID c) (rExitCode res) (rError res))"

definition Finish_remote :: "bool \<Rightarrow> (nat \<Rightarrow> unit round) \<Rightarrow> string \<Rightarrow> result \<Rightarrow> controllerClient \<Rightarrow>
    ((cc_error + unit option) \<times> controllerClient) option" where
  "Finish_remote outage rounds jid res c =
     (case finish_request jid res c of (path, payload) \<Rightarrow> post outage path payload False rounds c)"

section \<open>Paths are injective\<close>

lemma PathEscape_Nil [simp]: "PathEscape [] = []"
  by (simp add: PathEscape_def)

lemma PathEscape_Cons: "PathEscape (c # s) = (if path_safe c then [c]
    else [CHR ''%'', upper_hex (byte c div 16), upper_hex (byte c mod 16)]) @ PathEscape s"
  by (simp add: PathEscape_def)

lemma percent_not_safe [simp]: "\<not> path_safe (CHR ''%'')"
  by (simp add: path_safe_def in_range_def)

lemma slash_not_safe [simp]: "\<not> path_safe (CHR ''/'')"
  by (simp add: path_safe_def in_range_def)

lemma byte_upper_hex: "d < 16 \<Longrightarrow> byte (upper_hex d) = (if d < 10 then 48 + d else 55 + d)"
  by (simp add: upper_hex_def)

lemma upper_hex_inj: "d < 16 \<Longrightarrow> e < 16 \<Longrightarrow> upper_hex d = upper_hex e \<longleftrightarrow> d = e"
proof
  assume de: "d < 16" "e < 16" "upper_hex d = upper_hex e"
  then have "byte (upper_hex d) = byte (upper_hex e)" by simp
  with de(1,2) show "d = e" by (auto simp: byte_upper_hex split: if_splits)
qed simp

lemma byte_div_less [simp]: "byte c div 16 < 16"
  by (simp add: less_mult_imp_div_less)

lemma byte_parts: "byte c div 16 = byte d div 16 \<Longrightarrow> byte c mod 16 = byte d mod 16 \<Longrightarrow> c = d"
  by (metis div_mult_mod_eq of_char_eq_iff)

lemma PathEscape_inj: "PathEscape s = PathEscape t \<longleftrightarrow> s = t"
proof
  show "PathEscape s = PathEscape t \<Longrightarrow> s = t"
  proof (induction s arbitrary: t)
    case Nil
    then show ?case by (cases t) (auto simp: PathEscape_Cons split: if_splits)
  next
    case (Cons c s)
    then obtain d u where t: "t = d # u"
      by (cases t) (auto simp: PathEscape_Cons split: if_splits)
    have "c = d \<and> PathEscape s = PathEscape u"
      using Cons.prems unfolding t
      by (auto simp: PathEscape_Cons upper_hex_inj intro: byte_parts split: if_splits)
    with Cons.IH t show ?case by simp
  qed
qed simp

lemma slash_not_in_PathEscape: "CHR ''/'' \<notin> set (PathEscape s)"
proof (induction s)
  case (Cons c s)
  have "CHR ''/'' \<noteq> upper_hex d" if "d < 16" for d
  proof
    assume "CHR ''/'' = upper_hex d"
    then have "byte (upper_hex d) = byte (CHR ''/'')" by simp
    then show False using byte_upper_hex [OF that] by (simp split: if_splits)
  qed
  with Cons show ?case by (auto simp: PathEscape_Cons)
qed simp

section \<open>One attempt\<close>

definition accepting :: "'a answer \<Rightarrow> bool" where
  "accepting ans = (case ans of Response code _ \<Rightarrow> 200 \<le> code \<and> code < 300 | _ \<Rightarrow> False)"

definition made :: "'a answer \<Rightarrow> bool" where
  "made ans = (case ans of NoRequest _ \<Rightarrow> False | _ \<Rightarrow> True)"

text \<open>The answers after which the loop goes on.\<close>

definition retryable :: "'a answer \<Rightarrow> bool" where
  "retryable ans = (case ans of
     NoRequest _ \<Rightarrow> False
   | NoResponse _ \<Rightarrow> True
   | Response code body \<Rightarrow> code = 429 \<or> 500 \<le> code \<or>
       (200 \<le> code \<and> code < 300 \<and> (case body of BodyError _ \<Rightarrow> True | BodyRead _ _ \<Rightarrow> False)))"

lemma postOnce_effect:
  assumes "postOnce path payload wants ans c = ((retrying, res), c')"
  shows "sent c' = sent c @ replicate (of_bool (made ans)) (path, payload)"
    "accepted c' = accepted c @ replicate (of_bool (accepting ans)) (path, payload)"
    "retrying \<longleftrightarrow> retryable ans" "(\<exists>v. res = Inr v) \<longrightarrow> accepting ans \<and> \<not> retrying"
    "remoteDisabled c' \<longleftrightarrow> remoteDisabled c \<or> (\<exists>r. res = Inl (RemoteDisabled r))"
    "baseURL c' = baseURL c" "apiKey c' = apiKey c" "cc_workerID c' = cc_workerID c"
  using assms
  by (auto simp: postOnce_def disableRemote_def accepting_def made_def retryable_def Let_def
      split: answer.splits if_splits body_read.splits option.splits)

section \<open>The loop\<close>

definition req_log :: "string \<times> payload \<Rightarrow> nat \<Rightarrow> nat \<Rightarrow> controllerClient \<Rightarrow> controllerClient \<Rightarrow> bool" where
  "req_log req n k c c' \<longleftrightarrow> sent c' = sent c @ replicate n req \<and>
     accepted c' = accepted c @ replicate k req \<and> k \<le> n"

lemma req_log_refl [simp]: "req_log req 0 0 c c"
  by (simp add: req_log_def)

lemma req_log_note [simp]: "req_log req n k (note_disabled b c) c' = req_log req n k c c'"
    "req_log req n k c (note_disabled b c') = req_log req n k c c'"
  by (simp_all add: req_log_def note_disabled_def)

lemma req_log_trans: "req_log req n k c c' \<Longrightarrow> req_log req m l c' c'' \<Longrightarrow> req_log req (n + m) (k + l) c c''"
  by (simp add: req_log_def replicate_add)

lemma req_log_postOnce:
  assumes "postOnce path payload wants ans c = ((retrying, res), c')"
  shows "req_log (path, payload) (of_bool (made ans)) (of_bool (accepting ans)) c c'"
  using postOnce_effect(1,2) [OF assms] by (auto simp: req_log_def made_def accepting_def split: answer.splits)

lemma retryable_made: "retryable ans \<Longrightarrow> made ans"
  by (simp add: retryable_def made_def split: answer.splits)

text \<open>A round ends the loop, with at most one request, or goes on after one that may be repeated.\<close>

lemma post_loop_round:
  obtains (ends) r c' n m where "post_loop path payload wants rounds i c = Some (r, c')"
      "req_log (path, payload) n m c c'" "n \<le> 1" "(\<exists>v. r = Inr v) \<longrightarrow> 0 < m"
    | (again) c' m where "post_loop path payload wants rounds i c = post_loop path payload wants rounds (Suc i) c'"
      "req_log (path, payload) 1 m c c'" "retryable (answer (rounds i))" "ctx_before (rounds i) = None"
proof -
  let ?c = "note_disabled (disabled_by_others (rounds i)) c"
  obtain retrying res c2 where p: "postOnce path payload wants (answer (rounds i)) ?c = ((retrying, res), c2)"
    by (metis prod.collapse)
  have log: "req_log (path, payload) (of_bool (made (answer (rounds i)))) (of_bool (accepting (answer (rounds i)))) c c2"
    using req_log_postOnce [OF p] by simp
  note stop = ends [OF _ log]
  consider (pre) e where "ctx_before (rounds i) = Some e"
    | (off) "ctx_before (rounds i) = None" "remoteDisabled ?c"
    | (final) "ctx_before (rounds i) = None" "\<not> remoteDisabled ?c" "(\<exists>v. res = Inr v) \<or> \<not> retrying"
    | (late) e where "ctx_before (rounds i) = None" "\<not> remoteDisabled ?c" "\<not> ((\<exists>v. res = Inr v) \<or> \<not> retrying)"
        "ctx_after (rounds i) = Some e \<or> ctx_after (rounds i) = None \<and> ctx_wait (rounds i) = Some e"
    | (next_round) "ctx_before (rounds i) = None" "\<not> remoteDisabled ?c" "\<not> ((\<exists>v. res = Inr v) \<or> \<not> retrying)"
        "ctx_after (rounds i) = None" "ctx_wait (rounds i) = None"
    by (metis not_None_eq)
  then show ?thesis
  proof cases
    case (pre e)
    then have "post_loop path payload wants rounds i c = Some (Inl (CtxError e), c)"
      by (subst post_loop.simps) simp
    then show ?thesis by (rule ends [where n = 0 and m = 0]) simp_all
  next
    case off
    then have "post_loop path payload wants rounds i c = Some (Inl (RemoteDisabled None), ?c)"
      by (subst post_loop.simps) simp
    then show ?thesis by (rule ends [where n = 0 and m = 0]) simp_all
  next
    case final
    then have "post_loop path payload wants rounds i c = Some (res, c2)"
      by (subst post_loop.simps) (simp add: Let_def p)
    then show ?thesis using postOnce_effect(4) [OF p] by (intro stop) auto
  next
    case (late e)
    then have "post_loop path payload wants rounds i c = Some (Inl (CtxError e), c2)"
      by (subst post_loop.simps) (auto simp: Let_def p)
    then show ?thesis by (intro stop) auto
  next
    case next_round
    then have "post_loop path payload wants rounds i c = post_loop path payload wants rounds (Suc i) c2"
      by (subst post_loop.simps) (simp add: Let_def p)
    moreover have "retryable (answer (rounds i))" using next_round(3) postOnce_effect(3) [OF p] by blast
    ultimately show ?thesis using log retryable_made next_round(1) again by force
  qed
qed

lemma post_loop_total:
  assumes "ctx_before (rounds (i + k)) \<noteq> None"
  shows "\<exists>res c' n m. post_loop path payload wants rounds i c = Some (res, c') \<and>
    req_log (path, payload) n m c c' \<and> n \<le> k \<and>
    (\<forall>j. Suc j < n \<longrightarrow> retryable (answer (rounds (i + j)))) \<and> ((\<exists>v. res = Inr v) \<longrightarrow> 0 < m)"
  using assms
proof (induction k arbitrary: i c)
  case 0
  then obtain e where "ctx_before (rounds i) = Some e" by auto
  then show ?case
    by (subst post_loop.simps) (auto intro: exI [of _ 0])
next
  case (Suc k)
  show ?case
  proof (cases rule: post_loop_round [of path payload wants rounds i c])
    case (ends r c' n m)
    then show ?thesis by (intro exI [of _ r] exI [of _ c'] exI [of _ n] exI [of _ m]) auto
  next
    case (again c2 m)
    from Suc.IH [of "Suc i" c2] Suc.prems obtain r c' n l where IH:
      "post_loop path payload wants rounds (Suc i) c2 = Some (r, c')" "req_log (path, payload) n l c2 c'" "n \<le> k"
      "\<forall>j. Suc j < n \<longrightarrow> retryable (answer (rounds (Suc i + j)))" "(\<exists>v. r = Inr v) \<longrightarrow> 0 < l" by auto
    have "retryable (answer (rounds (i + j)))" if "Suc j < Suc n" for j
      using again(3) IH(4) that by (cases j) auto
    moreover have "req_log (path, payload) (Suc n) (m + l) c c'"
      using req_log_trans [OF again(2) IH(2)] by simp
    ultimately show ?thesis
      using IH again(1) by (intro exI [of _ r] exI [of _ c'] exI [of _ "Suc n"] exI [of _ "m + l"]) auto
  qed
qed

section \<open>The switch\<close>

lemma remoteDisabled_note: "remoteDisabled c \<Longrightarrow> remoteDisabled (note_disabled b c)"
  by (simp add: note_disabled_def)

lemma post_loop_disabled:
  assumes "ctx_before (rounds (i + k)) \<noteq> None"
    and "post_loop path payload wants rounds i c = Some (Inl (RemoteDisabled r), c')"
  shows "remoteDisabled c'"
  using assms
proof (induction k arbitrary: i c)
  case 0
  then show ?case unfolding post_loop.simps [of path payload wants rounds i c] by auto
next
  case (Suc k)
  let ?c = "note_disabled (disabled_by_others (rounds i)) c"
  obtain retrying res c2 where p: "postOnce path payload wants (answer (rounds i)) ?c = ((retrying, res), c2)"
    by (metis prod.collapse)
  have "post_loop path payload wants rounds (Suc i) c2 = Some (Inl (RemoteDisabled r), c') \<Longrightarrow> remoteDisabled c'"
    using Suc.IH [of "Suc i" c2] Suc.prems(1) by simp
  then show ?case
    using Suc.prems(2) postOnce_effect(5) [OF p]
    unfolding post_loop.simps [of path payload wants rounds i c]
    by (auto simp: Let_def p split: option.splits if_splits)
qed

lemma post_off: "remoteDisabled c \<Longrightarrow> post outage path payload wants rounds c = Some (Inl (RemoteDisabled None), c)"
  by (simp add: post_def)

lemma post_log:
  assumes "ctx_before (rounds k) \<noteq> None"
  shows "\<exists>res c' n m. post outage path payload wants rounds c = Some (res, c') \<and>
    req_log (path, payload) n m c c' \<and> n \<le> k \<and>
    (\<forall>j. Suc j < n \<longrightarrow> retryable (answer (rounds j))) \<and> ((\<exists>v. res = Inr v) \<longrightarrow> 0 < m)"
proof (cases "remoteDisabled c \<or> apiKey c = []")
  case True
  then show ?thesis
    by (auto simp: post_def disableRemote_def req_log_def intro!: exI [of _ 0])
next
  case False
  from post_loop_total [of rounds 0 k path payload wants c] assms obtain res c' n m where loop:
    "post_loop path payload wants rounds 0 c = Some (res, c')" "req_log (path, payload) n m c c'" "n \<le> k"
    "\<forall>j. Suc j < n \<longrightarrow> retryable (answer (rounds j))" "(\<exists>v. res = Inr v) \<longrightarrow> 0 < m" by auto
  show ?thesis
  proof (cases "\<exists>e. res = Inl e \<and> outage")
    case True
    then have "post outage path payload wants rounds c =
        Some (Inl (RemoteDisabled (Some (RetryDeadline path))), c'\<lparr>remoteDisabled := True\<rparr>)"
      using False loop(1) by (auto simp: post_def disableRemote_def)
    moreover have "req_log (path, payload) n m c (c'\<lparr>remoteDisabled := True\<rparr>)"
      using loop(2) by (simp add: req_log_def)
    ultimately show ?thesis using loop by blast
  next
    case off: False
    then have "post outage path payload wants rounds c = Some (res, c')"
      using False loop(1) by (auto simp: post_def split: sum.splits)
    then show ?thesis using loop by blast
  qed
qed

lemma post_error_disables:
  assumes "ctx_before (rounds k) \<noteq> None" "post outage path payload wants rounds c = Some (Inl e, c')"
    and "(\<exists>r. e = RemoteDisabled r) \<or> outage \<or>
      (ctx_before (rounds 0) = None \<and> (\<exists>code body. answer (rounds 0) = Response code body \<and>
        (code = 401 \<or> code = 403)) \<and> apiKey c \<noteq> [])"
  shows "remoteDisabled c'"
proof (cases "remoteDisabled c \<or> apiKey c = []")
  case True
  then show ?thesis
    using assms(2,3) by (auto simp: post_def disableRemote_def split: if_splits)
next
  case False
  then obtain res c1 where loop: "post_loop path payload wants rounds 0 c = Some (res, c1)"
    using assms(2) by (auto simp: post_def split: option.splits)
  show ?thesis
  proof (cases outage)
    case True
    with False loop assms(2) show ?thesis
      by (auto simp: post_def disableRemote_def split: sum.splits)
  next
    case off: False
    with False loop assms(2) have eq: "res = Inl e" "c1 = c'"
      by (auto simp: post_def split: sum.splits)
    have "\<exists>r. e = RemoteDisabled r"
      using assms(3) off
    proof (elim disjE)
      assume first: "ctx_before (rounds 0) = None \<and> (\<exists>code body. answer (rounds 0) = Response code body \<and>
          (code = 401 \<or> code = 403)) \<and> apiKey c \<noteq> []"
      then obtain code body where "answer (rounds 0) = Response code body" "code = 401 \<or> code = 403"
        by blast
      with first loop eq show ?thesis
        unfolding post_loop.simps [of path payload wants rounds 0 c]
        by (auto simp: Let_def postOnce_def disableRemote_def split: if_splits)
    qed auto
    with post_loop_disabled [of rounds 0 k path payload wants c] assms(1) loop eq show ?thesis
      by auto
  qed
qed

section \<open>The client as a backend\<close>

text \<open>An oracle of finitely many rounds, after which the deadline has passed.\<close>

definition until :: "'a round list \<Rightarrow> cause \<Rightarrow> nat \<Rightarrow> 'a round" where
  "until rs e i = (if i < length rs then rs ! i
     else \<lparr>ctx_before = Some e, disabled_by_others = False, answer = NoResponse [],
           ctx_after = Some e, ctx_wait = Some e\<rparr>)"

lemma until_ends: "ctx_before (until rs e (length rs)) \<noteq> None"
  by (simp add: until_def)

type_synonym 'a network = "bool \<times> 'a round list \<times> cause"

definition settle_result :: "((cc_error + 'a option) \<times> controllerClient) option \<Rightarrow> controllerClient \<Rightarrow>
    (cc_error + unit) \<times> controllerClient" where
  "settle_result r c = (case r of
     Some (Inl e, c') \<Rightarrow> (Inl e, c') | Some (Inr _, c') \<Rightarrow> (Inr (), c') | None \<Rightarrow> (Inl (CtxError Canceled), c))"

definition client_output :: "unit network \<Rightarrow> string \<Rightarrow> string \<Rightarrow> (controllerClient, cc_error, unit) op" where
  "client_output net jid path = (\<lambda>c. case net of (outage, rs, e) \<Rightarrow>
     settle_result (Output_remote outage (until rs e) jid path c) c)"

definition client_finish :: "(nat \<Rightarrow> unit network) \<Rightarrow> nat \<Rightarrow> string \<Rightarrow> result \<Rightarrow>
    (controllerClient, cc_error, unit) op" where
  "client_finish net i jid res = (\<lambda>c. case net i of (outage, rs, e) \<Rightarrow>
     settle_result (Finish_remote outage (until rs e) jid res c) c)"

text \<open>The controller has accepted the job's completion, or its failure.\<close>

definition reported :: "controllerClient \<Rightarrow> string \<Rightarrow> bool \<Rightarrow> bool" where
  "reported c jid ok \<longleftrightarrow>
     (\<exists>p. (job_path jid (if ok then ''complete'' else ''fail''), p) \<in> set (accepted c))"

interpretation remote: job_backend "client_output net" "client_finish nets" "\<lambda>_. True" reported
  for net nets
proof unfold_locales
  fix s i jid res s'
  assume fin: "client_finish nets i jid res s = (Inr (), s')"
  obtain outage rs e where net: "nets i = (outage, rs, e)" by (metis prod_cases3)
  obtain path payload where req: "finish_request jid res s = (path, payload)" by fastforce
  from post_log [of "until rs e" "length rs" outage path payload False s, OF until_ends]
  obtain r c' n m where "post outage path payload False (until rs e) s = Some (r, c')"
    "req_log (path, payload) n m s c'" "(\<exists>v. r = Inr v) \<longrightarrow> 0 < m" by blast
  then have "(path, payload) \<in> set (accepted s')"
    using fin by (auto simp: client_finish_def net Finish_remote_def req settle_result_def req_log_def
        split: sum.splits)
  then show "reported s' jid (result_ok res)"
    using req by (auto simp: reported_def finish_request_def)
qed simp_all

section \<open>Properties\<close>

text \<open>C14. A call returns once the deadline of its context passes, and until then it only
  repeats itself: all requests it sends are the same, every answer but the last is one that
  allows a retry (no response, an unreadable body, 429 or 5xx), and it reports success only
  if the controller has accepted the request.\<close>

theorem post_repeats_until_accepted:
  assumes "ctx_before (rounds k) \<noteq> None"
  shows "\<exists>res c' n m. post outage path payload wants rounds c = Some (res, c') \<and>
    sent c' = sent c @ replicate n (path, payload) \<and> n \<le> k \<and>
    accepted c' = accepted c @ replicate m (path, payload) \<and> m \<le> n \<and>
    (\<forall>j. Suc j < n \<longrightarrow> retryable (answer (rounds j))) \<and> ((\<exists>v. res = Inr v) \<longrightarrow> 0 < m)"
  using post_log [of rounds k outage path payload wants c, OF assms] unfolding req_log_def by blast

theorem post_repeats_until_accepted_witness:
  "\<exists>res c' n m. post False ''/jobs/j/complete'' PEmpty False
      (until [\<lparr>ctx_before = None, disabled_by_others = False, answer = Response 503 (BodyRead 0 (Some ())),
               ctx_after = None, ctx_wait = None\<rparr>] DeadlineExceeded)
      \<lparr>remoteDisabled = False, apiKey = ''k'', baseURL = ''https://c/queues/q'', cc_workerID = ''w'',
       sent = [], accepted = []\<rparr> = Some (res, c') \<and>
    sent c' = replicate n (''/jobs/j/complete'', PEmpty) \<and> n \<le> 1 \<and>
    accepted c' = replicate m (''/jobs/j/complete'', PEmpty) \<and> m \<le> n"
  using post_repeats_until_accepted [of "until [\<lparr>ctx_before = None, disabled_by_others = False,
        answer = Response 503 (BodyRead 0 (Some ())), ctx_after = None, ctx_wait = None\<rparr>] DeadlineExceeded"
      1 False "''/jobs/j/complete''" PEmpty False
      "\<lparr>remoteDisabled = False, apiKey = ''k'', baseURL = ''https://c/queues/q'', cc_workerID = ''w'',
       sent = [], accepted = []\<rparr>"]
  by (simp add: until_def) blast

text \<open>C38. Remote work, once disabled, stays disabled and silent: a call that reports it has set
  the switch, every further call returns at once without sending anything, and a rejected
  token (401, 403) or an outage that outlasts the retry deadline sets it.\<close>

theorem disabled_remote_stays_silent:
  assumes "ctx_before (rounds k) \<noteq> None" "post outage path payload wants rounds c = Some (Inl e, c')"
    and "(\<exists>r. e = RemoteDisabled r) \<or> outage \<or>
      (ctx_before (rounds 0) = None \<and> (\<exists>code body. answer (rounds 0) = Response code body \<and>
        (code = 401 \<or> code = 403)) \<and> apiKey c \<noteq> [])"
  shows "remoteDisabled c' \<and>
    post outage' path' payload' wants' rounds' c' = Some (Inl (RemoteDisabled None), c')"
  using post_error_disables [OF assms] post_off by blast

theorem disabled_remote_stays_silent_witness:
  "\<exists>c'. post False ''/p'' PEmpty False
      (until [\<lparr>ctx_before = None, disabled_by_others = False, answer = Response 401 (BodyRead 0 (Some ())),
               ctx_after = None, ctx_wait = None\<rparr>] DeadlineExceeded)
      \<lparr>remoteDisabled = False, apiKey = ''k'', baseURL = ''https://c/queues/q'', cc_workerID = ''w'',
       sent = [], accepted = []\<rparr> = Some (Inl (RemoteDisabled (Some (HTTPStatus ''/p'' 401))), c') \<and>
    remoteDisabled c'"
proof -
  let ?rounds = "until [\<lparr>ctx_before = None, disabled_by_others = False,
      answer = Response 401 (BodyRead 0 (Some ())), ctx_after = None, ctx_wait = None\<rparr>] DeadlineExceeded"
  let ?c = "\<lparr>remoteDisabled = False, apiKey = ''k'', baseURL = ''https://c/queues/q'', cc_workerID = ''w'',
       sent = [], accepted = []\<rparr>"
  have "post_loop ''/p'' PEmpty False ?rounds 0 ?c = Some (Inl (RemoteDisabled (Some (HTTPStatus ''/p'' 401))),
      ?c\<lparr>remoteDisabled := True, sent := [(''/p'', PEmpty)]\<rparr>)"
    by (subst post_loop.simps)
      (simp add: until_def note_disabled_def postOnce_def disableRemote_def Let_def)
  then have post: "post False ''/p'' PEmpty False ?rounds ?c =
      Some (Inl (RemoteDisabled (Some (HTTPStatus ''/p'' 401))), ?c\<lparr>remoteDisabled := True, sent := [(''/p'', PEmpty)]\<rparr>)"
    by (simp add: post_def)
  have "ctx_before (?rounds 1) \<noteq> None" by (simp add: until_def)
  from disabled_remote_stays_silent [OF this post] post show ?thesis by blast
qed

text \<open>Secrets come over HTTPS only: a claim that returns a job with a non-empty queue
  environment was made to an \<open>https://\<close> controller.\<close>

theorem claimed_environment_needs_https:
  assumes "Claim_remote outage rounds c = Some (Inr (Some job), c')" "queueEnv job \<noteq> []"
  shows "\<exists>rest. baseURL c' = ''https://'' @ rest"
  using assms
  by (auto simp: Claim_remote_def has_prefix_iff split: option.splits sum.splits prod.splits if_splits)

theorem claimed_environment_needs_https_witness:
  "\<exists>job c'. Claim_remote False (until [\<lparr>ctx_before = None, disabled_by_others = False,
        answer = Response 200 (BodyRead 2 (Some \<lparr>claimed = Some \<lparr>queueEnv = [], ID = ''j'',
          Status = ''running'', Command = [''ls''], CreatedAt = 5, StartedAt = Some 7, FinishedAt = None,
          WorkerID = [], Hostname = [], OutputPath = [], ExitCode = None, Error = [], CancelRequested = 0\<rparr>,
          environment = [(''A'', ''1'')]\<rparr>)), ctx_after = None, ctx_wait = None\<rparr>] DeadlineExceeded)
      \<lparr>remoteDisabled = False, apiKey = ''k'', baseURL = ''https://c/queues/q'', cc_workerID = ''w'',
       sent = [], accepted = []\<rparr> = Some (Inr (Some job), c') \<and> queueEnv job = [(''A'', ''1'')] \<and>
    (\<exists>rest. baseURL c' = ''https://'' @ rest)"
proof -
  let ?resp = "\<lparr>claimed = Some \<lparr>queueEnv = [], ID = ''j'',
          Status = ''running'', Command = [''ls''], CreatedAt = 5, StartedAt = Some 7, FinishedAt = None,
          WorkerID = [], Hostname = [], OutputPath = [], ExitCode = None, Error = [], CancelRequested = 0\<rparr>,
          environment = [(''A'', ''1'')]\<rparr>"
  let ?rounds = "until [\<lparr>ctx_before = None, disabled_by_others = False,
        answer = Response 200 (BodyRead 2 (Some ?resp)), ctx_after = None, ctx_wait = None\<rparr>] DeadlineExceeded"
  let ?c = "\<lparr>remoteDisabled = False, apiKey = ''k'', baseURL = ''https://c/queues/q'', cc_workerID = ''w'',
       sent = [], accepted = []\<rparr>"
  have "\<exists>c'. post_loop path PEmpty True ?rounds 0 ?c = Some (Inr (Some ?resp), c') \<and> baseURL c' = baseURL ?c"
    for path
    by (subst post_loop.simps) (simp add: until_def note_disabled_def postOnce_def Let_def)
  from this [of "workerPath ''claim'' ?c"] obtain c' where
    loop: "post_loop (workerPath ''claim'' ?c) PEmpty True ?rounds 0 ?c = Some (Inr (Some ?resp), c')"
      "baseURL c' = ''https://c/queues/q''" by auto
  then have "Claim_remote False ?rounds ?c = Some (Inr (map_option
      (\<lambda>j. j\<lparr>queueEnv := environment ?resp\<rparr>) (claimed ?resp)), c')"
    by (simp add: Claim_remote_def post_def has_prefix_def)
  then obtain job where claim: "Claim_remote False ?rounds ?c = Some (Inr (Some job), c')"
      "queueEnv job = [(''A'', ''1'')]" by simp
  from claimed_environment_needs_https [OF claim(1)] claim show ?thesis by auto
qed

text \<open>A job's identifier cannot redirect a report: whatever its bytes, the path of a job
  call has exactly the segments \<open>jobs\<close>, the escaped identifier and the action, and different
  identifiers or actions have different paths.\<close>

theorem job_paths_identify_jobs:
  assumes "CHR ''/'' \<notin> set action" "CHR ''/'' \<notin> set action'"
  shows "CHR ''/'' \<notin> set (PathEscape jid) \<and>
    (job_path jid action = job_path jid' action' \<longleftrightarrow> jid = jid' \<and> action = action')"
proof -
  have "PathEscape jid @ CHR ''/'' # action = PathEscape jid' @ CHR ''/'' # action' \<longleftrightarrow>
      PathEscape jid = PathEscape jid' \<and> action = action'"
  proof
    assume eq: "PathEscape jid @ CHR ''/'' # action = PathEscape jid' @ CHR ''/'' # action'"
    have "takeWhile (\<lambda>c. c \<noteq> CHR ''/'') (PathEscape i @ CHR ''/'' # a) = PathEscape i" for i a
      using slash_not_in_PathEscape [of i] by (auto simp: takeWhile_append)
    with eq have "PathEscape jid = PathEscape jid'" by metis
    with eq show "PathEscape jid = PathEscape jid' \<and> action = action'" by simp
  qed simp
  then show ?thesis
    by (simp add: job_path_def slash_not_in_PathEscape PathEscape_inj)
qed

theorem job_paths_identify_jobs_witness:
  "job_path ''a/b'' ''fail'' \<noteq> job_path ''a'' ''fail''"
  using job_paths_identify_jobs [of "''fail''" "''fail''" "''a/b''" "''a''"] by simp

end
