(* ===== verification/LocalQueue.thy ===== *)
theory LocalQueue
  imports JobModel
begin

text \<open>
  The worker's local job queue, worker/local_queue.go: the table \<open>jobs\<close> and every
  operation on it. A row is a record with the table's columns; the table is the list of
  its rows in rowid order (\<open>sequence\<close> is the rowid), beside the counter that
  \<open>AUTOINCREMENT\<close> keeps. Each SQL statement is translated by what it selects and writes.

  Every statement may also fail in the driver. The argument \<open>flt\<close> says which ones do:
  \<open>flt i\<close> is the error of the operation's \<open>i\<close>-th driver call, \<open>None\<close> when it succeeds. The
  theorems hold for every \<open>flt\<close>.
\<close>

section \<open>State\<close>

record row =
  sequence :: int
  status :: status
  command :: string
  created_at :: int
  started_at :: "int option"
  finished_at :: "int option"
  worker_id :: string
  hostname :: string
  output_path :: string
  exit_code :: "int option"
  error :: string
  cancel_requested :: int
  queue_position :: int

record localQueue =
  jobs :: "row list"
  last_sequence :: int
  workerID :: string
  lq_hostname :: string

type_synonym faults = "nat \<Rightarrow> string option"

type_synonym 'a lq_op = "(localQueue, lq_error, 'a) op"

abbreviation no_faults :: faults where
  "no_faults \<equiv> \<lambda>_. None"

text \<open>One driver call: it fails without effect, or runs the statement.\<close>

definition sql :: "faults \<Rightarrow> nat \<Rightarrow> (localQueue \<Rightarrow> 'a \<times> localQueue) \<Rightarrow> 'a lq_op" where
  "sql flt i f = (\<lambda>q. case flt i of
     Some e \<Rightarrow> (Inl (DBError e), q)
   | None \<Rightarrow> (case f q of (v, q') \<Rightarrow> (Inr v, q')))"

text \<open>\<open>UPDATE jobs SET f WHERE p\<close> and \<open>DELETE FROM jobs WHERE p\<close>, with \<open>RowsAffected\<close>.\<close>

definition update_where :: "(row \<Rightarrow> bool) \<Rightarrow> (row \<Rightarrow> row) \<Rightarrow> localQueue \<Rightarrow> nat \<times> localQueue" where
  "update_where p f q =
     (length (filter p (jobs q)), q\<lparr>jobs := map (\<lambda>r. if p r then f r else r) (jobs q)\<rparr>)"

definition delete_where :: "(row \<Rightarrow> bool) \<Rightarrow> localQueue \<Rightarrow> nat \<times> localQueue" where
  "delete_where p q =
     (length (filter p (jobs q)), q\<lparr>jobs := filter (\<lambda>r. \<not> p r) (jobs q)\<rparr>)"

definition row_of :: "int \<Rightarrow> row list \<Rightarrow> row option" where
  "row_of n rows = find (\<lambda>r. sequence r = n) rows"

definition queued :: "row \<Rightarrow> bool" where
  "queued r \<longleftrightarrow> status r = Queued"

definition running :: "row \<Rightarrow> bool" where
  "running r \<longleftrightarrow> status r = Running"

text \<open>\<open>ORDER BY queue_position, sequence\<close>.\<close>

definition position_order :: "row list \<Rightarrow> row list" where
  "position_order rows = sort_key (\<lambda>r. (queue_position r, sequence r)) rows"

text \<open>\<open>COALESCE(MAX(queue_position),0)+1 FROM jobs\<close>.\<close>

definition next_position :: "localQueue \<Rightarrow> int" where
  "next_position q = coalesce (sql_max (map queue_position (jobs q))) 0 + 1"

section \<open>Identifiers and rows\<close>

text \<open>\<open>'local-' || sequence\<close>.\<close>

definition local_id :: "int \<Rightarrow> string" where
  "local_id n = ''local-'' @ itoa n"

definition localSequence :: "string \<Rightarrow> lq_error + int" where
  "localSequence jid =
     (if \<not> has_prefix jid ''local-'' then Inl (InvalidLocalID jid)
      else case parse_int64 (trim_prefix jid ''local-'') of
        None \<Rightarrow> Inl (InvalidLocalID jid)
      | Some n \<Rightarrow> if n < 1 \<or> jid \<noteq> local_id n then Inl (InvalidLocalID jid) else Inr n)"

definition scanLocalJob :: "row \<Rightarrow> lq_error + job" where
  "scanLocalJob r = (case unmarshal_strings (command r) of
     None \<Rightarrow> Inl BadCommandJSON
   | Some argv \<Rightarrow> Inr
      \<lparr>queueEnv = [], ID = local_id (sequence r), Status = status_text (status r),
       Command = argv, CreatedAt = created_at r, StartedAt = started_at r,
       FinishedAt = finished_at r, WorkerID = worker_id r, Hostname = hostname r,
       OutputPath = output_path r, ExitCode = exit_code r, Error = error r,
       CancelRequested = cancel_requested r\<rparr>)"

section \<open>Reading\<close>

fun scan_all :: "row list \<Rightarrow> lq_error + job list" where
  "scan_all [] = Inr []"
| "scan_all (r # rs) = (case scanLocalJob r of
     Inl e \<Rightarrow> Inl e
   | Inr j \<Rightarrow> (case scan_all rs of Inl e \<Rightarrow> Inl e | Inr js \<Rightarrow> Inr (j # js)))"

fun list_rank :: "status \<Rightarrow> nat" where
  "list_rank Running = 0"
| "list_rank Queued = 1"
| "list_rank _ = 2"

definition list_order :: "row list \<Rightarrow> row list" where
  "list_order rows =
     sort_key (\<lambda>r. (list_rank (status r), queue_position r, sequence r)) rows"

text \<open>\<open>LIMIT l OFFSET o\<close>: a negative limit is no limit, a negative offset is none.\<close>

definition sql_limit :: "int \<Rightarrow> int \<Rightarrow> 'a list \<Rightarrow> 'a list" where
  "sql_limit l off xs = (if l < 0 then drop (nat off) xs else take (nat l) (drop (nat off) xs))"

definition list_jobs :: "faults \<Rightarrow> int \<Rightarrow> int \<Rightarrow> job list lq_op" where
  "list_jobs flt l off =
     bnd (sql flt 0 (\<lambda>q. (sql_limit l off (list_order (jobs q)), q))) (\<lambda>rows.
     bnd (lift_sum (scan_all rows)) (\<lambda>js.
     sql flt 1 (\<lambda>q. (js, q))))"

text \<open>\<open>QueryRow(...).Scan\<close>: no row is \<open>sql.ErrNoRows\<close>.\<close>

definition scan_row :: "row option \<Rightarrow> job lq_op" where
  "scan_row ro = (case ro of None \<Rightarrow> fail NoRows | Some r \<Rightarrow> lift_sum (scanLocalJob r))"

definition get_job :: "faults \<Rightarrow> string \<Rightarrow> job lq_op" where
  "get_job flt jid =
     bnd (lift_sum (localSequence jid)) (\<lambda>n.
     bnd (sql flt 0 (\<lambda>q. (row_of n (jobs q), q))) scan_row)"

text \<open>
  \<open>ORDER BY sequence DESC LIMIT 1\<close>, or the same over \<open>started_at DESC, sequence DESC\<close> for
  the rows that have started.
\<close>

definition last_added :: "row list \<Rightarrow> row option" where
  "last_added rows = (case rev (sort_key sequence rows) of [] \<Rightarrow> None | r # _ \<Rightarrow> Some r)"

definition last_run :: "row list \<Rightarrow> row option" where
  "last_run rows =
     (case rev (sort_key (\<lambda>r. (case started_at r of None \<Rightarrow> 0 | Some t \<Rightarrow> t, sequence r))
        (filter (\<lambda>r. started_at r \<noteq> None) rows)) of [] \<Rightarrow> None | r # _ \<Rightarrow> Some r)"

definition latest :: "faults \<Rightarrow> string \<Rightarrow> job lq_op" where
  "latest flt kind =
     (if kind = ''added'' then bnd (sql flt 0 (\<lambda>q. (last_added (jobs q), q))) scan_row
      else if kind = ''run'' then bnd (sql flt 0 (\<lambda>q. (last_run (jobs q), q))) scan_row
      else fail InvalidLatestKind)"

section \<open>Submitting and claiming\<close>

text \<open>The loop over the arguments: it stops at a NUL and adds up the bytes.\<close>

fun command_size :: "nat \<Rightarrow> string list \<Rightarrow> lq_error + nat" where
  "command_size acc [] = Inr acc"
| "command_size acc (arg # args) =
     (if contains_nul arg then Inl CommandNUL else command_size (acc + length arg) args)"

definition check_command :: "string list \<Rightarrow> lq_error + unit" where
  "check_command argv =
     (if argv = [] \<or> trim_space (hd argv) = [] then Inl EmptyCommand
      else case command_size 0 argv of
        Inl e \<Rightarrow> Inl e
      | Inr acc \<Rightarrow>
          if 262144 < acc \<or> 4096 < length argv then Inl CommandTooLarge else Inr ())"

text \<open>
  The rowid \<open>AUTOINCREMENT\<close> gives the next row: one more than the largest ever used. When
  that is the largest 64-bit integer, SQLite refuses the insertion.
\<close>

definition new_row :: "int \<Rightarrow> string \<Rightarrow> int \<Rightarrow> int \<Rightarrow> row" where
  "new_row n txt now pos =
     \<lparr>sequence = n, status = Queued, command = txt, created_at = now,
      started_at = None, finished_at = None, worker_id = [], hostname = [],
      output_path = [], exit_code = None, error = [], cancel_requested = 0,
      queue_position = pos\<rparr>"

definition insert_row :: "string \<Rightarrow> int \<Rightarrow> localQueue \<Rightarrow> row option \<times> localQueue" where
  "insert_row txt now q =
     (let base = max (last_sequence q) (coalesce (sql_max (map sequence (jobs q))) 0);
          r = new_row (base + 1) txt now (next_position q)
      in if base \<ge> max_int64 then (None, q)
         else (Some r, q\<lparr>jobs := jobs q @ [r], last_sequence := base + 1\<rparr>))"

definition submit :: "faults \<Rightarrow> int \<Rightarrow> string list \<Rightarrow> job lq_op" where
  "submit flt now argv =
     bnd (lift_sum (check_command argv)) (\<lambda>_.
     bnd (sql flt 0 (insert_row (marshal_strings argv) now)) (\<lambda>ro.
     case ro of None \<Rightarrow> fail (DBError ''database or disk is full'')
     | Some r \<Rightarrow> lift_sum (scanLocalJob r)))"

definition next_queued :: "localQueue \<Rightarrow> row option" where
  "next_queued q = (case position_order (filter queued (jobs q)) of [] \<Rightarrow> None | r # _ \<Rightarrow> Some r)"

text \<open>
  \<open>UPDATE ... WHERE sequence=(SELECT ... LIMIT 1) RETURNING\<close>: the first queued row starts
  running. Nothing queued is not an error: \<open>claim\<close> returns nil. The row has already been
  changed when its command fails to decode.
\<close>

definition start_row :: "localQueue \<Rightarrow> int \<Rightarrow> row \<Rightarrow> row" where
  "start_row q now r =
     r\<lparr>status := Running, started_at := Some now, worker_id := workerID q,
       hostname := lq_hostname q\<rparr>"

definition claim_row :: "int \<Rightarrow> localQueue \<Rightarrow> row option \<times> localQueue" where
  "claim_row now q = (case next_queued q of
     None \<Rightarrow> (None, q)
   | Some r \<Rightarrow> (Some (start_row q now r),
       snd (update_where (\<lambda>x. sequence x = sequence r) (start_row q now) q)))"

definition claim :: "faults \<Rightarrow> int \<Rightarrow> job option lq_op" where
  "claim flt now =
     bnd (sql flt 0 (claim_row now)) (\<lambda>ro.
     case ro of None \<Rightarrow> ret None
     | Some r \<Rightarrow> bnd (lift_sum (scanLocalJob r)) (\<lambda>j. ret (Some j)))"

section \<open>Reporting on a running job\<close>

definition updateRunning :: "faults \<Rightarrow> string \<Rightarrow> (row \<Rightarrow> row) \<Rightarrow> unit lq_op" where
  "updateRunning flt jid assign =
     bnd (lift_sum (localSequence jid)) (\<lambda>n.
     bnd (sql flt 0 (update_where (\<lambda>r. sequence r = n \<and> running r) assign)) (\<lambda>count.
     bnd (sql flt 1 (\<lambda>q. ((), q))) (\<lambda>_.
     if count = 0 then fail (NotRunning jid) else ret ())))"

definition Output :: "faults \<Rightarrow> string \<Rightarrow> string \<Rightarrow> unit lq_op" where
  "Output flt jid path = updateRunning flt jid (\<lambda>r. r\<lparr>output_path := path\<rparr>)"

definition finish_row :: "int \<Rightarrow> result \<Rightarrow> row \<Rightarrow> row" where
  "finish_row now res r =
     r\<lparr>status := (if result_ok res then Succeeded else Failed), finished_at := Some now,
       exit_code := rExitCode res, error := rError res\<rparr>"

definition Finish :: "faults \<Rightarrow> int \<Rightarrow> string \<Rightarrow> result \<Rightarrow> unit lq_op" where
  "Finish flt now jid res = updateRunning flt jid (finish_row now res)"

definition recover_row :: "int \<Rightarrow> row \<Rightarrow> row" where
  "recover_row now r =
     r\<lparr>status := Failed, finished_at := Some now,
       error := ''Worker restarted; previous outcome unknown''\<rparr>"

definition recover :: "faults \<Rightarrow> int \<Rightarrow> unit lq_op" where
  "recover flt now =
     bnd (sql flt 0 (update_where running (recover_row now))) (\<lambda>_. ret ())"

text \<open>
  \<open>requestCancel\<close> also calls \<open>q.cancel\<close>, which the worker sets to its own
  \<open>RequestCancellation\<close>: the state of that callback is threaded beside the queue.
\<close>

definition requestCancel ::
  "faults \<Rightarrow> (string \<Rightarrow> 'c \<Rightarrow> 'c) option \<Rightarrow> string \<Rightarrow> (localQueue \<times> 'c, lq_error, unit) op" where
  "requestCancel flt cancel jid = (\<lambda>(q, c).
     case updateRunning flt jid (\<lambda>r. r\<lparr>cancel_requested := 1\<rparr>) q of
       (Inl e, q') \<Rightarrow> (Inl e, (q', c))
     | (Inr _, q') \<Rightarrow> (Inr (), (q', case cancel of None \<Rightarrow> c | Some f \<Rightarrow> f jid c)))"

section \<open>Reordering, removing, retrying\<close>

text \<open>The closure \<open>position\<close> of \<open>reorder\<close>.\<close>

definition position :: "faults \<Rightarrow> nat \<Rightarrow> int \<Rightarrow> int lq_op" where
  "position flt i n =
     bnd (sql flt i (\<lambda>q. (row_of n (jobs q), q))) (\<lambda>ro.
     case ro of None \<Rightarrow> fail NoRows
     | Some r \<Rightarrow> if status r \<noteq> Queued then fail OnlyQueuedReordered else ret (queue_position r))"

text \<open>
  \<open>SET queue_position=(SELECT MIN(queue_position)-1 ...)\<close>. With nothing queued the value
  would be \<open>NULL\<close>, which the column refuses.
\<close>

definition move_first :: "faults \<Rightarrow> int \<Rightarrow> unit lq_op" where
  "move_first flt n =
     bnd (sql flt 2 (\<lambda>q. (sql_min (map queue_position (filter queued (jobs q))), q))) (\<lambda>m.
     case m of None \<Rightarrow> fail (DBError ''NOT NULL constraint failed: jobs.queue_position'')
     | Some p \<Rightarrow> (\<lambda>q. (Inr (), snd (update_where (\<lambda>r. sequence r = n)
         (\<lambda>r. r\<lparr>queue_position := p - 1\<rparr>) q))))"

definition swap_positions :: "faults \<Rightarrow> int \<Rightarrow> int \<Rightarrow> int \<Rightarrow> int \<Rightarrow> unit lq_op" where
  "swap_positions flt first a second b =
     bnd (sql flt 3 (update_where (\<lambda>r. sequence r = first \<or> sequence r = second)
       (\<lambda>r. r\<lparr>queue_position := (if sequence r = first then b else a)\<rparr>))) (\<lambda>_. ret ())"

definition reorder :: "faults \<Rightarrow> string \<Rightarrow> string \<Rightarrow> unit lq_op" where
  "reorder flt jid other =
     bnd (lift_sum (localSequence jid)) (\<lambda>first.
     in_tx (
       bnd (sql flt 0 (\<lambda>q. ((), q))) (\<lambda>_.
       bnd (position flt 1 first) (\<lambda>a.
       bnd (if other = [] then move_first flt first
            else bnd (lift_sum (localSequence other)) (\<lambda>second.
                 bnd (position flt 2 second) (\<lambda>b. swap_positions flt first a second b))) (\<lambda>_.
       sql flt 4 (\<lambda>q. ((), q)))))))"

definition remove :: "faults \<Rightarrow> string \<Rightarrow> unit lq_op" where
  "remove flt jid =
     bnd (lift_sum (localSequence jid)) (\<lambda>n.
     bnd (sql flt 0 (delete_where (\<lambda>r. sequence r = n \<and> \<not> running r))) (\<lambda>count.
     bnd (sql flt 1 (\<lambda>q. ((), q))) (\<lambda>_.
     if count = 0 then fail (NotFoundOrRunning jid) else ret ())))"

record removeAllResult =
  Removed :: nat
  KeptRunning :: nat

definition removeAll :: "faults \<Rightarrow> removeAllResult lq_op" where
  "removeAll flt = in_tx (
     bnd (sql flt 0 (\<lambda>q. ((), q))) (\<lambda>_.
     bnd (sql flt 1 (delete_where (\<lambda>r. \<not> running r))) (\<lambda>removed.
     bnd (sql flt 2 (\<lambda>q. ((), q))) (\<lambda>_.
     bnd (sql flt 3 (\<lambda>q. (length (filter running (jobs q)), q))) (\<lambda>kept.
     sql flt 4 (\<lambda>q. (\<lparr>Removed = removed, KeptRunning = kept\<rparr>, q)))))))"

definition requeue_row :: "int \<Rightarrow> row \<Rightarrow> row" where
  "requeue_row pos r =
     r\<lparr>status := Queued, started_at := None, finished_at := None, worker_id := [],
       hostname := [], output_path := [], exit_code := None, error := [],
       cancel_requested := 0, queue_position := pos\<rparr>"

fun requeue_all :: "faults \<Rightarrow> nat \<Rightarrow> int list \<Rightarrow> unit lq_op" where
  "requeue_all flt i [] = ret ()"
| "requeue_all flt i (n # ns) =
     bnd (sql flt i (\<lambda>q. update_where (\<lambda>r. sequence r = n) (requeue_row (next_position q)) q)) (\<lambda>_.
     requeue_all flt (Suc i) ns)"

text \<open>The rows \<open>retry\<close> requeues: every failed one, or the one named if it has failed.\<close>

definition retry_target :: "faults \<Rightarrow> string \<Rightarrow> int option lq_op" where
  "retry_target flt jid =
     (if jid = [] then ret None
      else bnd (lift_sum (localSequence jid)) (\<lambda>n.
           bnd (sql flt 1 (\<lambda>q. (row_of n (jobs q), q))) (\<lambda>ro.
           case ro of None \<Rightarrow> fail NoRows
           | Some r \<Rightarrow> if status r \<noteq> Failed then fail OnlyFailedRetried else ret (Some n))))"

definition retry_rows :: "int option \<Rightarrow> row list \<Rightarrow> int list" where
  "retry_rows target rows =
     map sequence (position_order (filter (\<lambda>r. status r = Failed \<and>
       (case target of None \<Rightarrow> True | Some n \<Rightarrow> sequence r = n)) rows))"

definition retry :: "faults \<Rightarrow> string \<Rightarrow> nat lq_op" where
  "retry flt jid = in_tx (
     bnd (sql flt 0 (\<lambda>q. ((), q))) (\<lambda>_.
     bnd (retry_target flt jid) (\<lambda>target.
     bnd (sql flt 2 (\<lambda>q. (retry_rows target (jobs q), q))) (\<lambda>ns.
     bnd (sql flt 3 (\<lambda>q. ((), q))) (\<lambda>_.
     bnd (requeue_all flt 4 ns) (\<lambda>_.
     sql flt (4 + length ns) (\<lambda>q. (length ns, q))))))))"

definition clear :: "faults \<Rightarrow> unit lq_op" where
  "clear flt =
     bnd (sql flt 0 (delete_where (\<lambda>r. status r = Succeeded \<or> status r = Failed))) (\<lambda>_. ret ())"

section \<open>Opening the queue\<close>

text \<open>
  What \<open>os.Lstat\<close> finds at \<open>local/queue.db\<close>: nothing, a regular file (holding a database),
  something else, or an error of its own.
\<close>

datatype db_file = NoFile | RegularFile "row list" int | OtherFile | LstatError string

text \<open>
  \<open>openLocalQueue\<close>. In memory mode the file is neither read nor written and the queue starts
  empty; otherwise a non-regular file is refused, and a regular one is the queue. The
  system calls (\<open>Abs\<close>, \<open>MkdirAll\<close>, \<open>Chmod\<close>, then \<open>OpenFile\<close>, \<open>Close\<close>, \<open>Chmod\<close>, \<open>sql.Open\<close> and
  the schema) fail as \<open>flt\<close> says.
\<close>

definition empty_queue :: localQueue where
  "empty_queue = \<lparr>jobs = [], last_sequence = 0, workerID = [], lq_hostname = []\<rparr>"

fun first_fault :: "faults \<Rightarrow> nat list \<Rightarrow> string option" where
  "first_fault flt [] = None"
| "first_fault flt (i # is) = (case flt i of Some e \<Rightarrow> Some e | None \<Rightarrow> first_fault flt is)"

definition openLocalQueue :: "faults \<Rightarrow> bool \<Rightarrow> db_file \<Rightarrow> lq_error + localQueue" where
  "openLocalQueue flt persist file =
     (case first_fault flt [0, 1, 2] of
        Some e \<Rightarrow> Inl (DBError e)
      | None \<Rightarrow>
         if persist \<and> file = OtherFile then Inl (DBError ''local database must be a regular file'')
         else case (if persist then file else NoFile) of
           LstatError e \<Rightarrow> Inl (DBError e)
         | f \<Rightarrow>
            (case first_fault flt (if persist then [3, 4, 5, 6, 7] else [6, 7]) of
               Some e \<Rightarrow> Inl (DBError e)
             | None \<Rightarrow>
                Inr (case f of
                  RegularFile rows seq \<Rightarrow> empty_queue\<lparr>jobs := rows, last_sequence := seq\<rparr>
                | _ \<Rightarrow> empty_queue)))"

end
