(* ===== verification/LocalQueueInv.thy ===== *)
theory LocalQueueInv
  imports LocalQueue
begin

text \<open>
  The invariant of the local queue's table and its preservation by every operation, whatever
  driver calls fail: rowids are strictly increasing and never exceed the counter, no two
  queued rows share a position, every stored command decodes, and the nullable columns fit
  the row's status.
\<close>

section \<open>The invariant\<close>

definition row_shape :: "row \<Rightarrow> bool" where
  "row_shape r = (case status r of
     Queued \<Rightarrow> started_at r = None \<and> finished_at r = None \<and> worker_id r = [] \<and> hostname r = [] \<and>
       output_path r = [] \<and> exit_code r = None \<and> error r = [] \<and> cancel_requested r = 0
   | Running \<Rightarrow> started_at r \<noteq> None \<and> finished_at r = None \<and> exit_code r = None \<and> error r = []
   | Succeeded \<Rightarrow> started_at r \<noteq> None \<and> finished_at r \<noteq> None \<and> exit_code r = Some 0 \<and> error r = []
   | Failed \<Rightarrow> started_at r \<noteq> None \<and> finished_at r \<noteq> None \<and>
       \<not> (exit_code r = Some 0 \<and> error r = []))"

definition wf_row :: "localQueue \<Rightarrow> row \<Rightarrow> bool" where
  "wf_row q r \<longleftrightarrow> 1 \<le> sequence r \<and> sequence r \<le> last_sequence q \<and> row_shape r \<and>
     unmarshal_strings (command r) \<noteq> None"

definition positions_distinct :: "row list \<Rightarrow> bool" where
  "positions_distinct rows \<longleftrightarrow> (\<forall>r \<in> set rows. \<forall>s \<in> set rows.
     queued r \<and> queued s \<and> queue_position r = queue_position s \<longrightarrow> sequence r = sequence s)"

definition wf_queue :: "localQueue \<Rightarrow> bool" where
  "wf_queue q \<longleftrightarrow> sorted_wrt (<) (map sequence (jobs q)) \<and> list_all (wf_row q) (jobs q) \<and>
     positions_distinct (jobs q) \<and> 0 \<le> last_sequence q \<and> last_sequence q \<le> max_int64"

lemma wf_queueI:
  assumes "sorted_wrt (<) (map sequence (jobs q))" "\<And>r. r \<in> set (jobs q) \<Longrightarrow> wf_row q r"
    "positions_distinct (jobs q)" "0 \<le> last_sequence q" "last_sequence q \<le> max_int64"
  shows "wf_queue q"
  using assms by (simp add: wf_queue_def list_all_iff)

lemma wf_rowD: "wf_queue q \<Longrightarrow> r \<in> set (jobs q) \<Longrightarrow> wf_row q r"
  by (simp add: wf_queue_def list_all_iff)

lemma wf_sorted: "wf_queue q \<Longrightarrow> sorted_wrt (<) (map sequence (jobs q))"
  by (simp add: wf_queue_def)

lemma wf_positions: "wf_queue q \<Longrightarrow> positions_distinct (jobs q)"
  by (simp add: wf_queue_def)

lemma wf_distinct_sequences: "wf_queue q \<Longrightarrow> distinct (map sequence (jobs q))"
  using strict_sorted_iff wf_sorted by blast

lemma wf_distinct_rows: "wf_queue q \<Longrightarrow> distinct (jobs q)"
  using wf_distinct_sequences distinct_map by blast

lemma wf_sequence_inj:
  "wf_queue q \<Longrightarrow> r \<in> set (jobs q) \<Longrightarrow> s \<in> set (jobs q) \<Longrightarrow> sequence r = sequence s \<Longrightarrow> r = s"
  using wf_distinct_sequences [of q] by (auto simp: distinct_map inj_on_def)

lemma row_of_Some: "row_of n rows = Some r \<Longrightarrow> r \<in> set rows \<and> sequence r = n"
  by (auto simp: row_of_def find_Some_iff)

lemma row_of_eq:
  "wf_queue q \<Longrightarrow> r \<in> set (jobs q) \<Longrightarrow> row_of (sequence r) (jobs q) = Some r"
proof -
  assume q: "wf_queue q" and r: "r \<in> set (jobs q)"
  then have "row_of (sequence r) (jobs q) \<noteq> None"
    by (auto simp: row_of_def find_None_iff)
  then obtain s where "row_of (sequence r) (jobs q) = Some s" by blast
  with wf_sequence_inj [OF q _ r] row_of_Some [of "sequence r"] show ?thesis by metis
qed

lemma row_of_None: "row_of n rows = None \<longleftrightarrow> n \<notin> sequence ` set rows"
  by (auto simp: row_of_def find_None_iff)

section \<open>Statements keep the invariant\<close>

text \<open>An update that moves no row in the table and queues nothing new.\<close>

lemma wf_map_rows:
  assumes wf: "wf_queue q"
    and g: "\<And>r. r \<in> set (jobs q) \<Longrightarrow>
      sequence (g r) = sequence r \<and> command (g r) = command r \<and> row_shape (g r)"
    and pos: "positions_distinct (map g (jobs q))"
  shows "wf_queue (q\<lparr>jobs := map g (jobs q)\<rparr>)"
proof -
  have "map sequence (map g (jobs q)) = map sequence (jobs q)"
    using g by simp
  then have "sorted_wrt (<) (map sequence (map g (jobs q)))"
    using wf_sorted [OF wf] by (simp only:)
  moreover have "wf_row q (g r)" if "r \<in> set (jobs q)" for r
    using g [OF that] wf_rowD [OF wf that] by (simp add: wf_row_def)
  ultimately show ?thesis
    using wf pos by (auto simp: wf_queue_def list_all_iff wf_row_def)
qed

lemma wf_update_where:
  assumes wf: "wf_queue q"
    and f: "\<And>r. r \<in> set (jobs q) \<Longrightarrow> p r \<Longrightarrow> row_shape r \<Longrightarrow>
      sequence (f r) = sequence r \<and> command (f r) = command r \<and>
      queue_position (f r) = queue_position r \<and> row_shape (f r) \<and> (queued (f r) \<longrightarrow> queued r)"
  shows "wf_queue (snd (update_where p f q))"
proof -
  define g where "g r = (if p r then f r else r)" for r
  have g: "sequence (g r) = sequence r \<and> command (g r) = command r \<and>
      queue_position (g r) = queue_position r \<and> row_shape (g r) \<and> (queued (g r) \<longrightarrow> queued r)"
    if "r \<in> set (jobs q)" for r
    using f [OF that] wf_rowD [OF wf that] by (simp add: g_def wf_row_def)
  have "sequence r = sequence s"
    if "r \<in> set (jobs q)" "s \<in> set (jobs q)" "queued (g r)" "queued (g s)"
      "queue_position (g r) = queue_position (g s)" for r s
    using that g [OF that(1)] g [OF that(2)] wf_positions [OF wf]
    unfolding positions_distinct_def by metis
  then have "positions_distinct (map g (jobs q))"
    unfolding positions_distinct_def set_map ball_simps by (metis g)
  with wf g have "wf_queue (q\<lparr>jobs := map g (jobs q)\<rparr>)"
    by (intro wf_map_rows) auto
  then show ?thesis
    by (simp add: update_where_def g_def [abs_def])
qed

lemma wf_delete_where: "wf_queue q \<Longrightarrow> wf_queue (snd (delete_where p q))"
  by (auto simp: wf_queue_def delete_where_def list_all_iff wf_row_def positions_distinct_def
      sorted_wrt_map sorted_wrt_filter)

text \<open>Queueing or moving the row \<open>n\<close> to a position no queued row has.\<close>

lemma wf_place:
  assumes wf: "wf_queue q"
    and f: "\<And>r. r \<in> set (jobs q) \<Longrightarrow> sequence r = n \<Longrightarrow>
      sequence (f r) = n \<and> command (f r) = command r \<and> queue_position (f r) = p \<and> row_shape (f r)"
    and fresh: "\<And>r. r \<in> set (jobs q) \<Longrightarrow> queued r \<Longrightarrow> queue_position r \<noteq> p"
  shows "wf_queue (snd (update_where (\<lambda>r. sequence r = n) f q))"
proof -
  define g where "g r = (if sequence r = n then f r else r)" for r
  have g: "sequence (g r) = sequence r \<and> command (g r) = command r \<and> row_shape (g r)"
    if "r \<in> set (jobs q)" for r
    using f [OF that] wf_rowD [OF wf that] by (simp add: g_def wf_row_def)
  have n: "queue_position (g r) = p" if "r \<in> set (jobs q)" "sequence r = n" for r
    using f [OF that] that(2) by (simp add: g_def)
  have other: "g r = r" if "sequence r \<noteq> n" for r
    using that by (simp add: g_def)
  have "sequence r = sequence s"
    if "r \<in> set (jobs q)" "s \<in> set (jobs q)" "queued (g r)" "queued (g s)"
      "queue_position (g r) = queue_position (g s)" for r s
  proof (cases "sequence r = n \<or> sequence s = n")
    case True
    then show ?thesis
      using that n fresh other by metis
  next
    case False
    then have "g r = r" "g s = s" by (simp_all add: other)
    with that wf_positions [OF wf] show ?thesis
      unfolding positions_distinct_def by metis
  qed
  then have "positions_distinct (map g (jobs q))"
    unfolding positions_distinct_def set_map ball_simps by (metis g)
  with wf g have "wf_queue (q\<lparr>jobs := map g (jobs q)\<rparr>)"
    by (intro wf_map_rows) auto
  then show ?thesis
    by (simp add: update_where_def g_def [abs_def])
qed

section \<open>Every operation keeps the invariant\<close>

lemma keeps_sql: "(\<And>q. P q \<Longrightarrow> P (snd (f q))) \<Longrightarrow> keeps P (sql flt i f)"
  by (auto simp: keeps_def sql_def split: option.splits prod.splits) (metis snd_conv)

lemma keeps_sql_read [simp, intro]: "keeps P (sql flt i (\<lambda>q. (v q, q)))"
  by (rule keeps_sql) simp

lemma keeps_scan_row [simp, intro]: "keeps P (scan_row ro)"
  by (cases ro) (auto simp: scan_row_def)

lemma list_jobs_wf: "keeps wf_queue (list_jobs flt l off)"
  unfolding list_jobs_def by (intro keeps_bnd) auto

lemma get_job_wf: "keeps wf_queue (get_job flt jid)"
  unfolding get_job_def by (intro keeps_bnd) auto

lemma latest_wf: "keeps wf_queue (latest flt kind)"
  unfolding latest_def by (intro keeps_if keeps_bnd) auto

lemma unmarshal_marshal_Some: "unmarshal_strings (marshal_strings argv) \<noteq> None"
  by (simp add: unmarshal_marshal)

lemma sequence_le_last:
  assumes "wf_queue q"
  shows "max (last_sequence q) (coalesce (sql_max (map sequence (jobs q))) 0) = last_sequence q"
proof -
  have "sql_max xs = Some m \<Longrightarrow> m \<in> set xs" for xs :: "int list" and m
    using Max_in [of "set xs"]
    by (cases xs) (auto simp: sql_max_def simp flip: Max.set_eq_fold)
  moreover have "n \<in> sequence ` set (jobs q) \<Longrightarrow> n \<le> last_sequence q" for n
    using wf_rowD [OF assms] by (auto simp: wf_row_def)
  ultimately show ?thesis
    using assms by (cases "sql_max (map sequence (jobs q))")
      (fastforce simp: coalesce_def wf_queue_def)+
qed

lemma next_position_fresh: "r \<in> set (jobs q) \<Longrightarrow> queue_position r < next_position q"
  unfolding next_position_def by (rule sql_max_ge) simp

text \<open>
  On a well-formed queue the new rowid is the counter plus one; the insertion is refused
  when the counter is the largest integer.
\<close>

definition append_row :: "row \<Rightarrow> localQueue \<Rightarrow> localQueue" where
  "append_row r q = q\<lparr>jobs := jobs q @ [r], last_sequence := sequence r\<rparr>"

definition fresh_row :: "localQueue \<Rightarrow> string \<Rightarrow> int \<Rightarrow> row" where
  "fresh_row q txt now = new_row (last_sequence q + 1) txt now (next_position q)"

lemma fresh_row_simps [simp]:
  "sequence (fresh_row q txt now) = last_sequence q + 1"
  "status (fresh_row q txt now) = Queued" "command (fresh_row q txt now) = txt"
  "queue_position (fresh_row q txt now) = next_position q"
  "queued (fresh_row q txt now)" "row_shape (fresh_row q txt now)"
  by (simp_all add: fresh_row_def new_row_def queued_def row_shape_def)

lemma insert_row_wf:
  assumes "wf_queue q"
  shows "insert_row txt now q = (if last_sequence q = max_int64 then (None, q) else
    (Some (fresh_row q txt now), append_row (fresh_row q txt now) q))"
  using assms
  by (auto simp: insert_row_def Let_def sequence_le_last wf_queue_def append_row_def
      simp flip: fresh_row_def)

lemma jobs_append_row [simp]: "jobs (append_row r q) = jobs q @ [r]"
  by (simp add: append_row_def)

lemma last_sequence_append_row [simp]: "last_sequence (append_row r q) = sequence r"
  by (simp add: append_row_def)

lemma wf_append_row:
  assumes wf: "wf_queue q" and r: "sequence r = last_sequence q + 1" "row_shape r"
      "unmarshal_strings (command r) \<noteq> None" "last_sequence q < max_int64"
    and fresh: "\<And>s. s \<in> set (jobs q) \<Longrightarrow> queue_position s < queue_position r"
  shows "wf_queue (append_row r q)"
proof (rule wf_queueI)
  have less: "s \<in> set (jobs q) \<Longrightarrow> sequence s < sequence r" for s
    using wf_rowD [OF wf] r(1) by (fastforce simp: wf_row_def)
  with wf_sorted [OF wf] show "sorted_wrt (<) (map sequence (jobs (append_row r q)))"
    by (auto simp: sorted_wrt_append)
  show "positions_distinct (jobs (append_row r q))"
    using wf_positions [OF wf] fresh unfolding positions_distinct_def jobs_append_row
    by (metis (no_types, lifting) Un_iff less_irrefl set_ConsD set_append set_empty2 empty_set
        list.set_intros(1) empty_iff)
  have n: "0 \<le> last_sequence q" using wf by (simp add: wf_queue_def)
  show "wf_row (append_row r q) s" if "s \<in> set (jobs (append_row r q))" for s
  proof (cases "s = r")
    case True
    with r n show ?thesis by (simp add: wf_row_def)
  next
    case False
    with that have "wf_row q s" using wf_rowD [OF wf] by simp
    with r(1) show ?thesis by (simp add: wf_row_def)
  qed
qed (use wf r in \<open>simp_all add: wf_queue_def\<close>)

lemma insert_row_keeps_wf: "wf_queue q \<Longrightarrow> wf_queue (snd (insert_row (marshal_strings argv) now q))"
  using next_position_fresh [of _ q]
  by (auto simp: insert_row_wf unmarshal_marshal intro!: wf_append_row)
    (simp add: wf_queue_def)

lemma submit_wf: "keeps wf_queue (submit flt now argv)"
  unfolding submit_def
  by (intro keeps_bnd keeps_sql keeps_lift_sum insert_row_keeps_wf) (auto split: option.splits)

lemma position_order_set [simp]: "set (position_order rows) = set rows"
  by (simp add: position_order_def)

lemma next_queued_Some: "next_queued q = Some r \<Longrightarrow> r \<in> set (jobs q) \<and> queued r"
proof -
  assume "next_queued q = Some r"
  then obtain rest where "position_order (filter queued (jobs q)) = r # rest"
    by (auto simp: next_queued_def split: list.splits)
  then have "r \<in> set (filter queued (jobs q))"
    by (metis list.set_intros(1) position_order_set)
  then show ?thesis by simp
qed

lemma next_queued_None: "next_queued q = None \<longleftrightarrow> filter queued (jobs q) = []"
  by (auto simp: next_queued_def position_order_def split: list.splits)
    (metis length_0_conv length_sort list.size(3) filter_empty_conv)

lemma start_row_simps [simp]:
  "sequence (start_row q now r) = sequence r" "command (start_row q now r) = command r"
  "queue_position (start_row q now r) = queue_position r" "status (start_row q now r) = Running"
  "\<not> queued (start_row q now r)" "running (start_row q now r)"
  "started_at (start_row q now r) = Some now"
  by (simp_all add: start_row_def queued_def running_def)

lemma start_row_shape: "queued r \<Longrightarrow> row_shape r \<Longrightarrow> row_shape (start_row q now r)"
  by (simp add: start_row_def queued_def row_shape_def)

lemma claim_row_keeps_wf: "wf_queue q \<Longrightarrow> wf_queue (snd (claim_row now q))"
proof (cases "next_queued q")
  case (Some r)
  assume wf: "wf_queue q"
  have "queued x" if "x \<in> set (jobs q)" "sequence x = sequence r" for x
    using that next_queued_Some [OF Some] wf_sequence_inj [OF wf] by blast
  then show ?thesis
    using Some wf by (auto simp: claim_row_def start_row_shape intro!: wf_update_where)
qed (simp add: claim_row_def)

lemma claim_wf: "keeps wf_queue (claim flt now)"
  unfolding claim_def
  by (intro keeps_bnd keeps_sql claim_row_keeps_wf) (auto split: option.splits)

text \<open>An assignment that \<open>updateRunning\<close> may make.\<close>

definition keeps_row :: "(row \<Rightarrow> row) \<Rightarrow> bool" where
  "keeps_row f \<longleftrightarrow> (\<forall>r. running r \<and> row_shape r \<longrightarrow>
     sequence (f r) = sequence r \<and> command (f r) = command r \<and>
     queue_position (f r) = queue_position r \<and> row_shape (f r) \<and> \<not> queued (f r))"

lemma keeps_row_output: "keeps_row (\<lambda>r. r\<lparr>output_path := path\<rparr>)"
  by (auto simp: keeps_row_def row_shape_def running_def queued_def)

lemma keeps_row_cancel: "keeps_row (\<lambda>r. r\<lparr>cancel_requested := 1\<rparr>)"
  by (auto simp: keeps_row_def row_shape_def running_def queued_def)

lemma keeps_row_finish: "keeps_row (finish_row now res)"
  by (auto simp: keeps_row_def row_shape_def running_def queued_def finish_row_def result_ok_def)

lemma keeps_row_recover: "keeps_row (recover_row now)"
  by (auto simp: keeps_row_def row_shape_def running_def queued_def recover_row_def)

lemma update_running_keeps_wf:
  "keeps_row f \<Longrightarrow> (\<And>r. p r \<Longrightarrow> running r) \<Longrightarrow> wf_queue q \<Longrightarrow> wf_queue (snd (update_where p f q))"
  by (rule wf_update_where) (auto simp: keeps_row_def)

lemma updateRunning_wf: "keeps_row f \<Longrightarrow> keeps wf_queue (updateRunning flt jid f)"
  unfolding updateRunning_def
  by (intro keeps_bnd keeps_sql keeps_lift_sum keeps_if update_running_keeps_wf) auto

lemma Output_wf: "keeps wf_queue (Output flt jid path)"
  unfolding Output_def by (rule updateRunning_wf [OF keeps_row_output])

lemma Finish_wf: "keeps wf_queue (Finish flt now jid res)"
  unfolding Finish_def by (rule updateRunning_wf [OF keeps_row_finish])

lemma recover_wf: "keeps wf_queue (recover flt now)"
  unfolding recover_def
  by (intro keeps_bnd keeps_sql update_running_keeps_wf [OF keeps_row_recover]) auto

lemma requestCancel_wf: "keeps (\<lambda>(q, c). wf_queue q) (requestCancel flt cancel jid)"
  using keepsD [OF updateRunning_wf [OF keeps_row_cancel], of _ flt jid]
  by (fastforce simp: keeps_def requestCancel_def split: prod.splits sum.splits)

lemma keeps_position [simp, intro]: "keeps P (position flt i n)"
  unfolding position_def by (intro keeps_bnd) (auto split: option.splits)

lemma position_eq_Inr:
  "position flt i n q = (Inr p, q') \<longleftrightarrow> flt i = None \<and> q' = q \<and>
     (\<exists>r. row_of n (jobs q) = Some r \<and> queued r \<and> queue_position r = p)"
  by (auto simp: position_def bnd_eq_Inr sql_def queued_def split: option.splits)

text \<open>Prepending the row \<open>n\<close>, which is queued, and exchanging the positions of two queued rows.\<close>

definition place_first :: "int \<Rightarrow> int \<Rightarrow> localQueue \<Rightarrow> localQueue" where
  "place_first n p q =
     snd (update_where (\<lambda>r. sequence r = n) (\<lambda>r. r\<lparr>queue_position := p - 1\<rparr>) q)"

lemma row_shape_position [simp]: "row_shape (r\<lparr>queue_position := p\<rparr>) = row_shape r"
  by (simp add: row_shape_def cong: status.case_cong)

lemma queued_position [simp]: "queued (r\<lparr>queue_position := p\<rparr>) = queued r"
  by (simp add: queued_def)

lemma place_first_wf:
  assumes wf: "wf_queue q" and p: "sql_min (map queue_position (filter queued (jobs q))) = Some p"
  shows "wf_queue (place_first n p q)"
  unfolding place_first_def using wf
proof (rule wf_place)
  fix r assume "r \<in> set (jobs q)" "queued r"
  then have "p \<le> queue_position r" using p by (auto elim!: sql_min_le)
  then show "queue_position r \<noteq> p - 1" by simp
qed (use wf in \<open>auto dest: wf_rowD simp: wf_row_def\<close>)

lemma move_first_eq_Inr:
  "move_first flt n q = (Inr v, q') \<longleftrightarrow> flt 2 = None \<and>
     (\<exists>p. sql_min (map queue_position (filter queued (jobs q))) = Some p \<and> q' = place_first n p q)"
  by (auto simp: move_first_def bnd_eq_Inr sql_def place_first_def split: option.splits)

definition exchange :: "int \<Rightarrow> int \<Rightarrow> int \<Rightarrow> int \<Rightarrow> localQueue \<Rightarrow> localQueue" where
  "exchange first a second b q =
     snd (update_where (\<lambda>r. sequence r = first \<or> sequence r = second)
       (\<lambda>r. r\<lparr>queue_position := (if sequence r = first then b else a)\<rparr>) q)"

lemma swap_positions_eq_Inr:
  "swap_positions flt first a second b q = (Inr v, q') \<longleftrightarrow>
     flt 3 = None \<and> q' = exchange first a second b q"
  by (auto simp: swap_positions_def bnd_eq_Inr sql_def exchange_def split: option.splits prod.splits)


text \<open>Exchanging the positions of two queued rows keeps positions distinct.\<close>

lemma exchange_wf:
  assumes wf: "wf_queue q"
    and r: "r \<in> set (jobs q)" "queued r" and s: "s \<in> set (jobs q)" "queued s"
  shows "wf_queue (exchange (sequence r) (queue_position r) (sequence s) (queue_position s) q)"
proof -
  define g where "g x = (if sequence x = sequence r \<or> sequence x = sequence s
     then x\<lparr>queue_position := (if sequence x = sequence r then queue_position s
       else queue_position r)\<rparr> else x)" for x :: row
  have g: "sequence (g x) = sequence x \<and> command (g x) = command x \<and> row_shape (g x) = row_shape x
      \<and> queued (g x) = queued x" for x
    by (simp add: g_def)
  have eqs: "x \<in> set (jobs q) \<Longrightarrow> sequence x = sequence r \<longleftrightarrow> x = r"
      "x \<in> set (jobs q) \<Longrightarrow> sequence x = sequence s \<longleftrightarrow> x = s" for x
    using wf_sequence_inj [OF wf] r(1) s(1) by blast+
  have pos: "queue_position (g x) = (if x = r then queue_position s
      else if x = s then queue_position r else queue_position x)" if "x \<in> set (jobs q)" for x
    using eqs [OF that] wf_sequence_inj [OF wf s(1) r(1)] by (auto simp: g_def)
  have inj: "x = y" if "x \<in> set (jobs q)" "y \<in> set (jobs q)" "queued x" "queued y"
      "queue_position x = queue_position y" for x y
    using that wf_positions [OF wf] wf_sequence_inj [OF wf] unfolding positions_distinct_def by blast
  have "sequence x = sequence y" if "x \<in> set (jobs q)" "y \<in> set (jobs q)" "queued (g x)"
      "queued (g y)" "queue_position (g x) = queue_position (g y)" for x y
    using that g pos [OF that(1)] pos [OF that(2)] inj r s by (metis (full_types))
  then have "positions_distinct (map g (jobs q))"
    unfolding positions_distinct_def set_map ball_simps by (metis g)
  moreover have "row_shape x" if "x \<in> set (jobs q)" for x
    using wf_rowD [OF wf that] by (simp add: wf_row_def)
  ultimately have "wf_queue (q\<lparr>jobs := map g (jobs q)\<rparr>)"
    using wf g by (intro wf_map_rows) auto
  then show ?thesis
    by (simp add: exchange_def update_where_def g_def [abs_def])
qed

text \<open>
  The successful runs of \<open>reorder\<close>, and its failing ones: a transaction that fails leaves
  the table as it was.
\<close>

lemma reorder_first_Inr:
  "reorder flt jid [] q = (Inr v, q') \<longleftrightarrow>
     flt 0 = None \<and> flt 1 = None \<and> flt 2 = None \<and> flt 4 = None \<and>
     (\<exists>n r p. localSequence jid = Inr n \<and> row_of n (jobs q) = Some r \<and> queued r \<and>
        sql_min (map queue_position (filter queued (jobs q))) = Some p \<and> q' = place_first n p q)"
  by (auto simp: reorder_def bnd_eq_Inr sql_def position_eq_Inr move_first_eq_Inr
      split: option.splits)

lemma reorder_swap_Inr:
  "other \<noteq> [] \<Longrightarrow> reorder flt jid other q = (Inr v, q') \<longleftrightarrow>
     flt 0 = None \<and> flt 1 = None \<and> flt 2 = None \<and> flt 3 = None \<and> flt 4 = None \<and>
     (\<exists>n r m s. localSequence jid = Inr n \<and> row_of n (jobs q) = Some r \<and> queued r \<and>
        localSequence other = Inr m \<and> row_of m (jobs q) = Some s \<and> queued s \<and>
        q' = exchange n (queue_position r) m (queue_position s) q)"
  by (auto simp: reorder_def bnd_eq_Inr sql_def position_eq_Inr swap_positions_eq_Inr
      split: option.splits)

lemma reorder_error_unchanged: "reorder flt jid other q = (Inl e, q') \<Longrightarrow> q' = q"
  by (auto simp: reorder_def bnd_eq_Inl dest: in_tx_error_unchanged)

lemma reorder_wf: "keeps wf_queue (reorder flt jid other)"
proof
  fix q assume wf: "wf_queue q"
  show "wf_queue (snd (reorder flt jid other q))"
  proof (cases "reorder flt jid other q")
    case (Pair res q')
    show ?thesis
    proof (cases res)
      case (Inl e)
      with Pair wf show ?thesis by (auto dest: reorder_error_unchanged)
    next
      case (Inr v)
      with Pair have ok: "reorder flt jid other q = (Inr v, q')" by simp
      have "wf_queue q'"
      proof (cases "other = []")
        case True
        with ok wf show ?thesis by (auto simp: reorder_first_Inr intro: place_first_wf)
      next
        case False
        with ok obtain n r m s where
          "row_of n (jobs q) = Some r" "queued r" "row_of m (jobs q) = Some s" "queued s"
          "q' = exchange n (queue_position r) m (queue_position s) q"
          by (auto simp: reorder_swap_Inr)
        then show ?thesis
          using exchange_wf [OF wf, of r s] by (auto dest!: row_of_Some)
      qed
      then show ?thesis by (simp add: Pair)
    qed
  qed
qed

lemma remove_wf: "keeps wf_queue (remove flt jid)"
  unfolding remove_def by (intro keeps_bnd keeps_sql keeps_if wf_delete_where) auto

lemma removeAll_wf: "keeps wf_queue (removeAll flt)"
  unfolding removeAll_def by (intro keeps_in_tx keeps_bnd keeps_sql wf_delete_where) auto

lemma clear_wf: "keeps wf_queue (clear flt)"
  unfolding clear_def by (intro keeps_bnd keeps_sql wf_delete_where) auto

definition requeue :: "int \<Rightarrow> localQueue \<Rightarrow> localQueue" where
  "requeue n q = snd (update_where (\<lambda>r. sequence r = n) (requeue_row (next_position q)) q)"

lemma requeue_row_simps [simp]:
  "sequence (requeue_row p r) = sequence r" "command (requeue_row p r) = command r"
  "queue_position (requeue_row p r) = p" "row_shape (requeue_row p r)" "queued (requeue_row p r)"
  "\<not> running (requeue_row p r)" "status (requeue_row p r) = Queued"
  by (simp_all add: requeue_row_def row_shape_def queued_def running_def)

lemma requeue_wf: "wf_queue q \<Longrightarrow> wf_queue (requeue n q)"
  unfolding requeue_def by (rule wf_place) (auto dest: next_position_fresh)

lemma requeue_all_eq_Inr:
  "requeue_all flt i ns q = (Inr v, q') \<longleftrightarrow>
     (\<forall>k < length ns. flt (i + k) = None) \<and> q' = fold requeue ns q"
proof (induction ns arbitrary: i q)
  case (Cons n ns)
  have "(\<forall>k < Suc (length ns). flt (i + k) = None) \<longleftrightarrow>
      flt i = None \<and> (\<forall>k < length ns. flt (Suc i + k) = None)"
    by (auto simp: less_Suc_eq_0_disj)
  with Cons show ?case
    by (auto simp: bnd_eq_Inr sql_def requeue_def split: option.splits prod.splits)
qed auto

lemma keeps_requeue_all: "keeps wf_queue (requeue_all flt i ns)"
proof (induction ns arbitrary: i)
  case (Cons n ns)
  have "wf_queue (snd (update_where (\<lambda>r. sequence r = n) (requeue_row (next_position q)) q))"
    if "wf_queue q" for q
    using requeue_wf [OF that, of n] by (simp add: requeue_def)
  with Cons show ?case
    by (auto intro!: keeps_bnd keeps_sql)
qed simp

lemma keeps_retry_target [simp, intro]: "keeps P (retry_target flt jid)"
  unfolding retry_target_def
  by (intro keeps_if keeps_bnd) (auto split: option.splits)

lemma retry_wf: "keeps wf_queue (retry flt jid)"
  unfolding retry_def by (intro keeps_in_tx keeps_bnd keeps_requeue_all) auto

lemma empty_queue_wf: "wf_queue empty_queue"
  by (simp add: wf_queue_def empty_queue_def positions_distinct_def max_int64_def)

end
