(* ===== verification/LocalQueueSpec.thy ===== *)
theory LocalQueueSpec
  imports LocalQueueInv "HOL-Library.Multiset"
begin

text \<open>
  What the local queue promises, and that its table implements it. The abstract queue knows
  the waiting jobs in the order they will run, which jobs are running, have failed and have
  succeeded, and the last identifier given out; it knows no positions, times or columns.
\<close>

section \<open>Identifiers\<close>

lemma localSequence_iff:
  "localSequence jid = Inr n \<longleftrightarrow> 1 \<le> n \<and> n \<le> max_int64 \<and> jid = local_id n"
proof
  have bound: "m \<le> max_int64" if "parse_int64 s = Some m" for s m
    using that by (auto simp: parse_int64_def Let_def max_int64_def split: option.splits if_splits)
  assume "localSequence jid = Inr n"
  then have "parse_int64 (trim_prefix jid ''local-'') = Some n \<and> 1 \<le> n \<and> jid = local_id n"
    by (simp add: localSequence_def split: if_splits option.splits)
  then show "1 \<le> n \<and> n \<le> max_int64 \<and> jid = local_id n"
    using bound by blast
next
  assume n: "1 \<le> n \<and> n \<le> max_int64 \<and> jid = local_id n"
  then have "parse_int64 (trim_prefix jid ''local-'') = Some n"
    using parse_int64_itoa [of n] trim_prefix_append [of "''local-''" "itoa n"]
    unfolding local_id_def by simp
  moreover have "has_prefix jid ''local-''"
    using n has_prefix_append unfolding local_id_def by blast
  ultimately show "localSequence jid = Inr n"
    using n by (simp add: localSequence_def)
qed

lemma local_id_inj: "0 \<le> m \<Longrightarrow> 0 \<le> n \<Longrightarrow> local_id m = local_id n \<longleftrightarrow> m = n"
  by (auto simp: local_id_def itoa_def itoa_nat_inj)

section \<open>Orders\<close>

definition order_key :: "row \<Rightarrow> int \<times> int" where
  "order_key r = (queue_position r, sequence r)"

lemma position_order_eq: "position_order rows = sort_key order_key rows"
  by (simp add: position_order_def order_key_def [abs_def])

lemma mset_position_order [simp]: "mset (position_order rows) = mset rows"
  by (simp add: position_order_def)

lemma sorted_position_order: "sorted (map order_key (position_order rows))"
  by (simp add: position_order_eq)

text \<open>A sorted arrangement of the rows is the order, since no two rows have the same key.\<close>

lemma position_order_eqI:
  assumes "mset ys = mset rows" "distinct (map sequence rows)" "sorted (map order_key ys)"
  shows "position_order rows = ys"
proof -
  have "inj_on order_key (set rows)"
    using assms(2) by (auto simp: inj_on_def order_key_def distinct_map)
  then show ?thesis
    unfolding position_order_eq using assms(1,3) by (intro sort_key_inj_key_eq) auto
qed

lemma order_key_less: "queue_position r < queue_position s \<Longrightarrow> order_key r \<le> order_key s"
  by (simp add: order_key_def less_eq_prod_def)

lemma sorted_positions:
  assumes "sorted (map order_key ys)"
  shows "sorted (map queue_position ys)"
  using assms unfolding sorted_map
  by (rule sorted_wrt_mono_rel [rotated]) (auto simp: order_key_def less_eq_prod_def)

lemma sorted_order_key:
  "sorted_wrt (<) (map queue_position ys) \<Longrightarrow> sorted (map order_key ys)"
  by (induction ys) (auto simp: order_key_less)

section \<open>The waiting jobs\<close>

definition queue_rows :: "localQueue \<Rightarrow> row list" where
  "queue_rows q = position_order (filter queued (jobs q))"

definition waiting :: "localQueue \<Rightarrow> int list" where
  "waiting q = map sequence (queue_rows q)"

lemma mset_queue_rows: "mset (queue_rows q) = mset (filter queued (jobs q))"
  by (simp add: queue_rows_def)

lemma set_queue_rows [simp]: "set (queue_rows q) = {r \<in> set (jobs q). queued r}"
  by (auto simp: queue_rows_def)

lemma set_waiting: "set (waiting q) = sequence ` {r \<in> set (jobs q). queued r}"
  by (simp add: waiting_def)

lemma distinct_queue_rows:
  assumes "wf_queue q"
  shows "distinct (map sequence (queue_rows q))"
proof -
  have "distinct (map sequence (filter queued (jobs q)))"
    using wf_distinct_sequences [OF assms] by (rule distinct_map_filter)
  then have "inj_on sequence (set (filter queued (jobs q)))" "distinct (filter queued (jobs q))"
    by (simp_all add: distinct_map)
  moreover have "distinct (queue_rows q)"
    using calculation(2) mset_queue_rows [of q] by (metis mset_eq_imp_distinct_iff)
  ultimately show ?thesis
    by (simp add: distinct_map)
qed

lemma distinct_waiting: "wf_queue q \<Longrightarrow> distinct (waiting q)"
  by (simp add: waiting_def distinct_queue_rows)

lemma strict_positions:
  assumes wf: "wf_queue q"
  shows "sorted_wrt (<) (map queue_position (queue_rows q))"
proof -
  have "inj_on queue_position (set (queue_rows q))"
    using wf_positions [OF wf] wf_sequence_inj [OF wf]
    by (auto simp: inj_on_def positions_distinct_def)
  moreover have "distinct (queue_rows q)"
    using distinct_queue_rows [OF wf] distinct_map by blast
  ultimately have "distinct (map queue_position (queue_rows q))"
    by (simp add: distinct_map)
  moreover have "sorted (map queue_position (queue_rows q))"
    unfolding queue_rows_def by (rule sorted_positions [OF sorted_position_order])
  ultimately show ?thesis
    by (simp add: strict_sorted_iff)
qed

text \<open>
  The rows of an updated table: when \<open>ys\<close> holds exactly its queued rows in strictly
  increasing positions, it is the new order.
\<close>

lemma queue_rowsI:
  assumes "wf_queue q" "mset ys = mset (filter queued (jobs q))"
    "sorted_wrt (<) (map queue_position ys)"
  shows "queue_rows q = ys"
  unfolding queue_rows_def using assms wf_distinct_sequences [OF assms(1)]
  by (intro position_order_eqI sorted_order_key distinct_map_filter) auto

section \<open>How each statement changes the waiting jobs\<close>

text \<open>Dropping queued rows from the table, or taking them out of the queue, drops them here.\<close>

lemma queue_rows_filter:
  assumes "wf_queue q" "wf_queue q'"
    and "filter queued (jobs q') = filter P (filter queued (jobs q))"
  shows "queue_rows q' = filter P (queue_rows q)"
  using assms(2)
proof (rule queue_rowsI)
  show "mset (filter P (queue_rows q)) = mset (filter queued (jobs q'))"
    by (simp only: assms(3) mset_filter mset_queue_rows)
  show "sorted_wrt (<) (map queue_position (filter P (queue_rows q)))"
    using strict_positions [OF assms(1)] by (simp add: sorted_wrt_map sorted_wrt_filter)
qed

lemma filter_queued_update:
  assumes "\<And>r. r \<in> set rows \<Longrightarrow> p r \<Longrightarrow> \<not> queued (f r)"
  shows "filter queued (map (\<lambda>r. if p r then f r else r) rows) =
    filter (\<lambda>r. \<not> p r) (filter queued rows)"
  using assms by (induction rows) auto

lemma queue_rows_append_row:
  assumes "wf_queue q" "wf_queue (append_row r q)" "queued r"
    and "\<And>s. s \<in> set (jobs q) \<Longrightarrow> queue_position s < queue_position r"
  shows "queue_rows (append_row r q) = queue_rows q @ [r]"
  using assms strict_positions [OF assms(1)]
  by (intro queue_rowsI) (auto simp: mset_queue_rows sorted_wrt_append)

text \<open>The row that changes its place in the table, with the others in order.\<close>

lemma mset_filter_queued_place:
  assumes "wf_queue q" "r \<in> set (jobs q)" "queued (f r)"
  shows "mset (filter queued (jobs (snd (update_where (\<lambda>x. sequence x = sequence r) f q)))) =
    add_mset (f r) (mset (filter (\<lambda>x. sequence x \<noteq> sequence r) (queue_rows q)))"
proof -
  obtain as bs where split: "jobs q = as @ r # bs"
    using assms(2) by (meson split_list)
  have other: "sequence x \<noteq> sequence r" if "x \<in> set as \<union> set bs" for x
    using wf_distinct_sequences [OF assms(1)] that by (auto simp: split) (metis image_eqI)+
  let ?g = "\<lambda>x. if sequence x = sequence r then f x else x"
  have m: "map ?g as = as" "map ?g bs = bs"
    using other by (simp_all add: map_idI)
  have "mset (filter (\<lambda>x. sequence x \<noteq> sequence r) (queue_rows q)) =
      filter_mset (\<lambda>x. sequence x \<noteq> sequence r) (mset (filter queued (jobs q)))"
    by (simp add: mset_queue_rows)
  also have "\<dots> = mset (filter queued as) + mset (filter queued bs)"
  proof -
    have "filter_mset (\<lambda>x. sequence x \<noteq> sequence r) (mset (filter queued xs)) = mset (filter queued xs)"
      if "\<forall>x \<in> set xs. sequence x \<noteq> sequence r" for xs
      using that by (induction xs) auto
    with other show ?thesis by (simp add: split)
  qed
  finally show ?thesis
    using assms(3) m by (simp add: update_where_def split)
qed

lemma waiting_remove1:
  assumes "wf_queue q"
  shows "map sequence (filter (\<lambda>x. sequence x \<noteq> n) (queue_rows q)) = remove1 n (waiting q)"
  using distinct_waiting [OF assms]
  by (simp add: waiting_def distinct_remove1_removeAll removeAll_filter_not_eq filter_map o_def)
    (metis (mono_tags, lifting))

lemma place_first_waiting:
  assumes wf: "wf_queue q" and r: "r \<in> set (jobs q)" "queued r"
    and p: "sql_min (map queue_position (filter queued (jobs q))) = Some p"
  shows "waiting (place_first (sequence r) p q) = sequence r # remove1 (sequence r) (waiting q)"
proof -
  let ?r = "r\<lparr>queue_position := p - 1\<rparr>"
  have "queue_rows (place_first (sequence r) p q) =
      ?r # filter (\<lambda>x. sequence x \<noteq> sequence r) (queue_rows q)"
  proof (rule queue_rowsI)
    show "wf_queue (place_first (sequence r) p q)"
      using wf p by (rule place_first_wf)
    show "mset (?r # filter (\<lambda>x. sequence x \<noteq> sequence r) (queue_rows q)) =
        mset (filter queued (jobs (place_first (sequence r) p q)))"
      using mset_filter_queued_place [OF wf r(1), of "\<lambda>r. r\<lparr>queue_position := p - 1\<rparr>"] r(2)
      by (simp add: place_first_def)
    have "p \<le> queue_position x" if "x \<in> set (queue_rows q)" for x
      using that by (intro sql_min_le [OF p]) auto
    then show "sorted_wrt (<) (map queue_position
        (?r # filter (\<lambda>x. sequence x \<noteq> sequence r) (queue_rows q)))"
      using strict_positions [OF wf] by (fastforce simp: sorted_wrt_map sorted_wrt_filter)
  qed
  then show ?thesis
    by (simp add: waiting_def waiting_remove1 [OF wf, unfolded waiting_def])
qed

lemma requeue_waiting:
  assumes wf: "wf_queue q" and r: "r \<in> set (jobs q)" "\<not> queued r"
  shows "waiting (requeue (sequence r) q) = waiting q @ [sequence r]"
proof -
  let ?r = "requeue_row (next_position q) r"
  have other: "filter (\<lambda>x. sequence x \<noteq> sequence r) (queue_rows q) = queue_rows q"
    using r wf_sequence_inj [OF wf _ r(1)] by (auto simp: filter_id_conv)
  have "queue_rows (requeue (sequence r) q) = queue_rows q @ [?r]"
  proof (rule queue_rowsI)
    show "wf_queue (requeue (sequence r) q)"
      using wf by (rule requeue_wf)
    show "mset (queue_rows q @ [?r]) = mset (filter queued (jobs (requeue (sequence r) q)))"
      using mset_filter_queued_place [OF wf r(1), of "requeue_row (next_position q)"]
      by (simp add: requeue_def other)
    show "sorted_wrt (<) (map queue_position (queue_rows q @ [?r]))"
      using strict_positions [OF wf] next_position_fresh by (auto simp: sorted_wrt_append)
  qed
  then show ?thesis by (simp add: waiting_def)
qed

text \<open>Two elements of a list exchanged.\<close>

definition swap_in :: "'a \<Rightarrow> 'a \<Rightarrow> 'a list \<Rightarrow> 'a list" where
  "swap_in a b xs = map (\<lambda>x. if x = a then b else if x = b then a else x) xs"

lemma mset_swap_in:
  assumes "distinct xs" "a \<in> set xs" "b \<in> set xs"
  shows "mset (swap_in a b xs) = mset xs"
proof -
  let ?h = "\<lambda>x. if x = a then b else if x = b then a else x"
  have "set (swap_in a b xs) = set xs"
    using assms(2,3) by (auto simp: swap_in_def image_iff)
  moreover have "distinct (swap_in a b xs)"
    using assms(1) by (auto simp: swap_in_def distinct_map inj_on_def)
  ultimately show ?thesis
    using assms(1) set_eq_iff_mset_eq_distinct by blast
qed

lemma exchange_waiting:
  assumes wf: "wf_queue q" and r: "r \<in> set (jobs q)" "queued r" and s: "s \<in> set (jobs q)" "queued s"
  shows "waiting (exchange (sequence r) (queue_position r) (sequence s) (queue_position s) q) =
    swap_in (sequence r) (sequence s) (waiting q)"
proof -
  let ?q = "exchange (sequence r) (queue_position r) (sequence s) (queue_position s) q"
  define g where "g x = (if sequence x = sequence r \<or> sequence x = sequence s
     then x\<lparr>queue_position := (if sequence x = sequence r then queue_position s
       else queue_position r)\<rparr> else x)" for x :: row
  define h where "h x = g (if x = r then s else if x = s then r else x)" for x
  have jobs: "jobs ?q = map g (jobs q)"
    by (simp add: exchange_def update_where_def g_def [abs_def])
  have gq: "queued (g x) = queued x" for x
    by (simp add: g_def)
  have eqs: "sequence x = sequence r \<longleftrightarrow> x = r" "sequence x = sequence s \<longleftrightarrow> x = s"
    if "x \<in> set (queue_rows q)" for x
    using that wf_sequence_inj [OF wf] r(1) s(1) by auto
  have rs: "r \<in> set (queue_rows q)" "s \<in> set (queue_rows q)"
    using r s by auto
  have h: "queue_position (h x) = queue_position x" if "x \<in> set (queue_rows q)" for x
    using eqs [OF that] eqs [OF rs(1)] eqs [OF rs(2)] by (auto simp: h_def g_def)
  have "queue_rows ?q = map h (queue_rows q)"
  proof (rule queue_rowsI)
    show "wf_queue ?q"
      using wf r s by (rule exchange_wf)
    have "filter queued (jobs ?q) = map g (filter queued (jobs q))"
      by (simp add: jobs filter_map o_def gq)
    moreover have "map h (queue_rows q) = map g (swap_in r s (queue_rows q))"
      by (simp add: h_def swap_in_def)
    moreover have "mset (swap_in r s (queue_rows q)) = mset (queue_rows q)"
      using distinct_queue_rows [OF wf] rs by (intro mset_swap_in) (auto simp: distinct_map)
    ultimately show "mset (map h (queue_rows q)) = mset (filter queued (jobs ?q))"
      by (simp add: mset_queue_rows)
    have "map queue_position (map h (queue_rows q)) = map queue_position (queue_rows q)"
      using h by simp
    then show "sorted_wrt (<) (map queue_position (map h (queue_rows q)))"
      using strict_positions [OF wf] by (simp only:)
  qed
  moreover have "sequence (h x) = (if sequence x = sequence r then sequence s
      else if sequence x = sequence s then sequence r else sequence x)"
    if "x \<in> set (queue_rows q)" for x
    using eqs [OF that] by (auto simp: h_def g_def)
  ultimately show ?thesis
    by (simp add: waiting_def swap_in_def)
qed

end
