(* ===== verification/LocalQueueRefine.thy ===== *)
theory LocalQueueRefine
  imports LocalQueueSpec
begin

text \<open>
  The contract of the local queue: an abstract queue (the waiting jobs in the order they
  will be claimed, and the sets of running, failed and succeeded jobs), its steps, and the
  proof that every operation of worker/local_queue.go, whatever its driver calls do, either
  leaves the abstract queue as it is or takes one of its steps. Then the states any sequence
  of operations reaches, and what stays true of a job's row along it.
\<close>

section \<open>The abstract queue\<close>

record queue_spec =
  s_waiting :: "int list"
  s_running :: "int set"
  s_failed :: "int set"
  s_succeeded :: "int set"
  s_last :: int

definition ids :: "status \<Rightarrow> localQueue \<Rightarrow> int set" where
  "ids st q = sequence ` {r \<in> set (jobs q). status r = st}"

definition abs_queue :: "localQueue \<Rightarrow> queue_spec" where
  "abs_queue q = \<lparr>s_waiting = waiting q, s_running = ids Running q, s_failed = ids Failed q,
     s_succeeded = ids Succeeded q, s_last = last_sequence q\<rparr>"

text \<open>
  The steps of the abstract queue. First come, first served; a job runs at most once per
  queueing; only failed jobs come back; nothing touches a running job but its own report
  and the recovery at start-up.
\<close>

inductive spec_step :: "queue_spec \<Rightarrow> queue_spec \<Rightarrow> bool" where
  spec_submit: "s_last S < max_int64 \<Longrightarrow>
    spec_step S (S\<lparr>s_waiting := s_waiting S @ [s_last S + 1], s_last := s_last S + 1\<rparr>)"
| spec_claim: "s_waiting S = n # ns \<Longrightarrow>
    spec_step S (S\<lparr>s_waiting := ns, s_running := insert n (s_running S)\<rparr>)"
| spec_succeed: "n \<in> s_running S \<Longrightarrow>
    spec_step S (S\<lparr>s_running := s_running S - {n}, s_succeeded := insert n (s_succeeded S)\<rparr>)"
| spec_fail: "n \<in> s_running S \<Longrightarrow>
    spec_step S (S\<lparr>s_running := s_running S - {n}, s_failed := insert n (s_failed S)\<rparr>)"
| spec_recover:
    "spec_step S (S\<lparr>s_running := {}, s_failed := s_running S \<union> s_failed S\<rparr>)"
| spec_urgent: "n \<in> set (s_waiting S) \<Longrightarrow>
    spec_step S (S\<lparr>s_waiting := n # remove1 n (s_waiting S)\<rparr>)"
| spec_swap: "m \<in> set (s_waiting S) \<Longrightarrow> n \<in> set (s_waiting S) \<Longrightarrow>
    spec_step S (S\<lparr>s_waiting := swap_in m n (s_waiting S)\<rparr>)"
| spec_remove: "n \<notin> s_running S \<Longrightarrow>
    spec_step S (S\<lparr>s_waiting := remove1 n (s_waiting S), s_failed := s_failed S - {n},
      s_succeeded := s_succeeded S - {n}\<rparr>)"
| spec_remove_all:
    "spec_step S (S\<lparr>s_waiting := [], s_failed := {}, s_succeeded := {}\<rparr>)"
| spec_clear: "spec_step S (S\<lparr>s_failed := {}, s_succeeded := {}\<rparr>)"
| spec_retry: "distinct ns \<Longrightarrow> set ns \<subseteq> s_failed S \<Longrightarrow>
    spec_step S (S\<lparr>s_waiting := s_waiting S @ ns, s_failed := s_failed S - set ns\<rparr>)"

inductive_simps spec_step_iff: "spec_step S T"

section \<open>Sets of identifiers under updates\<close>

lemma update_where_cong:
  "(\<And>x. x \<in> set (jobs q) \<Longrightarrow> p x = p' x) \<Longrightarrow> update_where p f q = update_where p' f q"
  by (simp add: update_where_def cong: filter_cong map_cong)

lemma jobs_update_where:
  "jobs (snd (update_where p f q)) = map (\<lambda>r. if p r then f r else r) (jobs q)"
  by (simp add: update_where_def)

lemma jobs_delete_where: "jobs (snd (delete_where p q)) = filter (\<lambda>r. \<not> p r) (jobs q)"
  by (simp add: delete_where_def)

lemma last_sequence_where [simp]:
  "last_sequence (snd (update_where p f q)) = last_sequence q"
  "last_sequence (snd (delete_where p q)) = last_sequence q"
  by (simp_all add: update_where_def delete_where_def)

lemma ids_update_one:
  assumes wf: "wf_queue q" and r: "r \<in> set (jobs q)" and f: "\<And>x. sequence (f x) = sequence x"
  shows "ids st (snd (update_where (\<lambda>x. sequence x = sequence r) f q)) =
    (if status (f r) = st then insert (sequence r) (ids st q) else ids st q - {sequence r})"
proof -
  let ?q = "snd (update_where (\<lambda>x. sequence x = sequence r) f q)"
  have eq: "x = r" if "x \<in> set (jobs q)" "sequence x = sequence r" for x
    using wf_sequence_inj [OF wf that(1) r that(2)] .
  define g where "g x = (if sequence x = sequence r then f x else x)" for x
  have jobs: "jobs ?q = map g (jobs q)"
    by (simp add: jobs_update_where g_def [abs_def])
  have g: "sequence (g x) = sequence x" "g r = f r" "sequence x \<noteq> sequence r \<Longrightarrow> g x = x" for x
    by (simp_all add: g_def f)
  have mem: "n \<in> ids st ?q \<longleftrightarrow> (\<exists>x \<in> set (jobs q). n = sequence x \<and> status (g x) = st)" for n
  proof
    assume "\<exists>x \<in> set (jobs q). n = sequence x \<and> status (g x) = st"
    then obtain x where x: "x \<in> set (jobs q)" "n = sequence (g x)" "status (g x) = st"
      by (auto simp: g(1))
    then have "g x \<in> {r \<in> set (jobs ?q). status r = st}" by (simp add: jobs)
    with x(2) show "n \<in> ids st ?q" unfolding ids_def by blast
  qed (auto simp: ids_def jobs g(1))
  have "sequence r \<in> ids st ?q \<longleftrightarrow> status (f r) = st"
    unfolding mem using eq r g(2) by metis
  moreover have "n \<in> ids st ?q \<longleftrightarrow> n \<in> ids st q" if "n \<noteq> sequence r" for n
    unfolding mem using that g(3) by (force simp: ids_def)
  ultimately have "n \<in> ids st ?q \<longleftrightarrow> n \<in> (if status (f r) = st
      then insert (sequence r) (ids st q) else ids st q - {sequence r})" for n
    by (cases "n = sequence r") simp_all
  then show ?thesis by (intro set_eqI)
qed

lemma ids_delete: "ids st (snd (delete_where p q)) =
    sequence ` {r \<in> set (jobs q). status r = st \<and> \<not> p r}"
  by (auto simp: ids_def jobs_delete_where)

lemma ids_waiting: "set (waiting q) = ids Queued q"
  by (simp add: set_waiting ids_def queued_def)

lemma ids_disjoint:
  assumes wf: "wf_queue q" and "n \<in> ids st q" "n \<in> ids st' q"
  shows "st = st'"
  using assms wf_sequence_inj [OF wf] by (auto simp: ids_def)

section \<open>Every operation is a step of the abstract queue, or none\<close>

definition simulated :: "localQueue \<Rightarrow> localQueue \<Rightarrow> bool" where
  "simulated q q' \<longleftrightarrow> abs_queue q' = abs_queue q \<or> spec_step (abs_queue q) (abs_queue q')"

lemma simulated_refl [simp]: "simulated q q"
  by (simp add: simulated_def)

lemma simulatedI: "spec_step (abs_queue q) S \<Longrightarrow> abs_queue q' = S \<Longrightarrow> simulated q q'"
  by (simp add: simulated_def)

text \<open>An operation whose only statement that writes is its first.\<close>

lemma snd_sql: "snd (sql flt i f q) = (if flt i = None then snd (f q) else q)"
  by (simp add: sql_def split: option.splits prod.splits)

lemma snd_bnd_read:
  "snd (m s) = s \<Longrightarrow> (\<And>v. snd (k v s) = s) \<Longrightarrow> snd (bnd m k s) = s"
  by (auto simp: bnd_def split: prod.splits sum.splits)

lemma snd_bnd_write:
  "(\<And>v t. snd (k v t) = t) \<Longrightarrow> snd (bnd m k s) = snd (m s)"
  by (auto simp: bnd_def split: prod.splits sum.splits)

lemma simulated_submit:
  assumes wf: "wf_queue q"
  shows "simulated q (snd (submit flt now argv q))"
proof -
  let ?r = "fresh_row q (marshal_strings argv) now"
  have q': "snd (submit flt now argv q) = q \<or>
      last_sequence q < max_int64 \<and> snd (submit flt now argv q) = append_row ?r q"
    using wf
    by (auto simp: submit_def bnd_def sql_def insert_row_wf wf_queue_def split: sum.splits option.splits prod.splits)
  moreover have "simulated q (append_row ?r q)" if "last_sequence q < max_int64"
  proof (rule simulatedI [OF spec_submit])
    have wf': "wf_queue (append_row ?r q)"
      using insert_row_keeps_wf [OF wf, of argv now] that by (simp add: insert_row_wf [OF wf])
    have "waiting (append_row ?r q) = waiting q @ [last_sequence q + 1]"
      using queue_rows_append_row [OF wf wf'] next_position_fresh by (simp add: waiting_def)
    then show "abs_queue (append_row ?r q) = (abs_queue q)\<lparr>s_waiting := s_waiting (abs_queue q) @
        [s_last (abs_queue q) + 1], s_last := s_last (abs_queue q) + 1\<rparr>"
      by (auto simp: abs_queue_def ids_def)
  qed (simp add: that abs_queue_def)
  ultimately show ?thesis by auto
qed

lemma claim_waiting:
  assumes wf: "wf_queue q" and r: "next_queued q = Some r"
  shows "waiting q = sequence r # waiting (snd (claim_row now q))"
proof -
  let ?q = "snd (claim_row now q)"
  from r obtain rs where rs: "queue_rows q = r # rs"
    by (auto simp: next_queued_def queue_rows_def split: list.splits)
  have "queue_rows ?q = filter (\<lambda>x. sequence x \<noteq> sequence r) (queue_rows q)"
    using wf claim_row_keeps_wf [OF wf]
    by (rule queue_rows_filter) (simp add: claim_row_def r jobs_update_where filter_queued_update)
  also have "\<dots> = rs"
    using distinct_queue_rows [OF wf] unfolding rs by (auto simp: filter_id_conv image_iff)
  finally show ?thesis
    by (simp add: waiting_def rs)
qed

lemma abs_claim_row:
  assumes wf: "wf_queue q" and r: "next_queued q = Some r"
  shows "abs_queue (snd (claim_row now q)) = (abs_queue q)\<lparr>s_waiting := tl (waiting q),
    s_running := insert (sequence r) (ids Running q)\<rparr>"
proof -
  have mem: "r \<in> set (jobs q)" "status r = Queued"
    using next_queued_Some [OF r] by (simp_all add: queued_def)
  then have "sequence r \<notin> ids Failed q" "sequence r \<notin> ids Succeeded q"
    using ids_disjoint [OF wf, of "sequence r" Queued] by (auto simp: ids_def)
  then show ?thesis
    using claim_waiting [OF wf r, of now] ids_update_one [OF wf mem(1), of "start_row q now"]
    by (simp add: abs_queue_def claim_row_def r)
qed

lemma simulated_claim:
  assumes wf: "wf_queue q"
  shows "simulated q (snd (claim flt now q))"
proof (cases "next_queued q")
  case None
  then have "snd (claim flt now q) = q"
    by (simp add: claim_def bnd_def sql_def claim_row_def split: option.splits)
  then show ?thesis by simp
next
  case (Some r)
  have "simulated q (snd (claim_row now q))"
    using claim_waiting [OF wf Some, of now] abs_claim_row [OF wf Some, of now]
    by (intro simulatedI [OF spec_claim]) (simp_all add: abs_queue_def)
  moreover have "snd (claim flt now q) = q \<or> snd (claim flt now q) = snd (claim_row now q)"
    by (auto simp: claim_def bnd_def sql_def split: sum.splits option.splits prod.splits)
  ultimately show ?thesis by auto
qed

text \<open>Updates of running rows: the waiting jobs stay as they are.\<close>

lemma update_where_none: "(\<And>x. x \<in> set (jobs q) \<Longrightarrow> \<not> p x) \<Longrightarrow> snd (update_where p f q) = q"
  by (simp add: update_where_def cong: map_cong)

lemma update_running_waiting:
  assumes "keeps_row f" "wf_queue q" "\<And>r. p r \<Longrightarrow> running r"
  shows "waiting (snd (update_where p f q)) = waiting q"
proof -
  let ?q = "snd (update_where p f q)"
  have n: "\<not> queued (f r)" if "r \<in> set (jobs q)" "p r" for r
    using assms wf_rowD [OF assms(2) that(1)] that(2) by (auto simp: keeps_row_def wf_row_def)
  have "filter queued (jobs ?q) = filter (\<lambda>r. \<not> p r) (filter queued (jobs q))"
    unfolding jobs_update_where using n by (rule filter_queued_update)
  moreover have "wf_queue ?q"
    using assms by (intro update_running_keeps_wf) auto
  ultimately have "queue_rows ?q = filter (\<lambda>r. \<not> p r) (queue_rows q)"
    using queue_rows_filter [OF assms(2)] by blast
  also have "\<dots> = queue_rows q"
    using assms(3) by (auto simp: filter_id_conv queued_def running_def)
  finally show ?thesis by (simp add: waiting_def)
qed

lemma ids_update:
  assumes "\<And>r. r \<in> set (jobs q) \<Longrightarrow> p r \<Longrightarrow> sequence (f r) = sequence r"
  shows "ids st (snd (update_where p f q)) =
    sequence ` {r \<in> set (jobs q). status (if p r then f r else r) = st}"
proof -
  define g where "g x = (if p x then f x else x)" for x
  have "jobs (snd (update_where p f q)) = map g (jobs q)"
    by (simp add: jobs_update_where g_def [abs_def])
  then have "ids st (snd (update_where p f q)) = sequence ` g ` {r \<in> set (jobs q). status (g r) = st}"
    by (auto simp: ids_def intro!: image_eqI)
  also have "\<dots> = sequence ` {r \<in> set (jobs q). status (g r) = st}"
    unfolding image_image using assms by (intro image_cong) (auto simp: g_def)
  finally show ?thesis by (simp add: g_def)
qed

lemma ids_update_same:
  assumes "\<And>r. r \<in> set (jobs q) \<Longrightarrow> p r \<Longrightarrow> sequence (f r) = sequence r \<and> status (f r) = status r"
  shows "ids st (snd (update_where p f q)) = ids st q"
proof -
  have "ids st (snd (update_where p f q)) =
      sequence ` {r \<in> set (jobs q). status (if p r then f r else r) = st}"
    using assms by (intro ids_update) blast
  also have "\<dots> = ids st q"
    using assms by (auto simp: ids_def)
  finally show ?thesis .
qed

lemma snd_updateRunning:
  obtains "snd (updateRunning flt jid f q) = q"
  | n where "localSequence jid = Inr n"
      "snd (updateRunning flt jid f q) =
        snd (update_where (\<lambda>r. sequence r = n \<and> running r) f q)"
  by (cases "localSequence jid"; cases "flt 0"; cases "flt (Suc 0)")
    (auto simp: updateRunning_def bnd_def sql_def split: prod.splits)

lemma updateRunning_same_abs:
  assumes wf: "wf_queue q" and f: "keeps_row f"
    and same: "\<And>r. sequence (f r) = sequence r \<and> status (f r) = status r"
  shows "abs_queue (snd (updateRunning flt jid f q)) = abs_queue q"
proof (cases rule: snd_updateRunning [of flt jid f q])
  case (2 n)
  then show ?thesis
    using same update_running_waiting [OF f wf, of "\<lambda>r. sequence r = n \<and> running r"]
    by (simp add: abs_queue_def ids_update_same)
qed simp

lemma finish_row_simps [simp]:
  "sequence (finish_row now res r) = sequence r"
  "status (finish_row now res r) = (if result_ok res then Succeeded else Failed)"
  by (simp_all add: finish_row_def)

text \<open>The table after a running job's report.\<close>

lemma abs_finish_row:
  assumes wf: "wf_queue q" and r: "r \<in> set (jobs q)" "running r"
  shows "abs_queue (snd (update_where (\<lambda>x. sequence x = sequence r \<and> running x)
      (finish_row now res) q)) =
    (if result_ok res
     then (abs_queue q)\<lparr>s_running := ids Running q - {sequence r},
       s_succeeded := insert (sequence r) (ids Succeeded q)\<rparr>
     else (abs_queue q)\<lparr>s_running := ids Running q - {sequence r},
       s_failed := insert (sequence r) (ids Failed q)\<rparr>)"
proof -
  have eq: "update_where (\<lambda>x. sequence x = sequence r \<and> running x) (finish_row now res) q =
      update_where (\<lambda>x. sequence x = sequence r) (finish_row now res) q"
    using wf_sequence_inj [OF wf _ r(1)] r(2) by (intro update_where_cong) auto
  have "sequence r \<in> ids Running q"
    using r by (auto simp: ids_def running_def)
  then have "sequence r \<notin> ids Failed q" "sequence r \<notin> ids Succeeded q"
    using ids_disjoint [OF wf] by blast+
  then show ?thesis
    using update_running_waiting [OF keeps_row_finish wf,
        of "\<lambda>x. sequence x = sequence r \<and> running x" now res]
    by (simp add: abs_queue_def eq ids_update_one [OF wf r(1)])
qed

lemma simulated_Finish:
  assumes wf: "wf_queue q"
  shows "simulated q (snd (Finish flt now jid res q))"
  unfolding Finish_def
proof (cases rule: snd_updateRunning [of flt jid "finish_row now res" q])
  case (2 n)
  show "simulated q (snd (updateRunning flt jid (finish_row now res) q))"
  proof (cases "\<exists>r \<in> set (jobs q). sequence r = n \<and> running r")
    case True
    then obtain r where r: "r \<in> set (jobs q)" "running r" "n = sequence r" by blast
    then have "n \<in> s_running (abs_queue q)"
      by (auto simp: abs_queue_def ids_def running_def)
    then have step: "spec_step (abs_queue q) (abs_queue (snd (update_where
        (\<lambda>r. sequence r = n \<and> running r) (finish_row now res) q)))"
      using spec_succeed [of n "abs_queue q"] spec_fail [of n "abs_queue q"]
      unfolding r(3) abs_finish_row [OF wf r(1,2)]
      by (cases "result_ok res") (simp_all add: abs_queue_def)
    with 2 show ?thesis by (simp add: simulated_def)
  next
    case False
    then have "snd (update_where (\<lambda>r. sequence r = n \<and> running r) (finish_row now res) q) = q"
      by (intro update_where_none) blast
    with 2 show ?thesis by simp
  qed
qed simp

lemma abs_recover:
  assumes wf: "wf_queue q"
  shows "abs_queue (snd (update_where running (recover_row now) q)) = (abs_queue q)\<lparr>s_running := {},
    s_failed := ids Running q \<union> ids Failed q\<rparr>"
proof -
  have "ids st (snd (update_where running (recover_row now) q)) =
      sequence ` {r \<in> set (jobs q). status (if running r then recover_row now r else r) = st}" for st
    by (rule ids_update) (simp add: recover_row_def)
  moreover have "status (if running r then recover_row now r else r) = Running \<longleftrightarrow> False"
    "status (if running r then recover_row now r else r) = Failed \<longleftrightarrow>
      status r = Running \<or> status r = Failed"
    "status (if running r then recover_row now r else r) = Succeeded \<longleftrightarrow> status r = Succeeded" for r
    by (cases "status r"; simp add: running_def recover_row_def)+
  ultimately have "ids Running (snd (update_where running (recover_row now) q)) = {}"
    "ids Failed (snd (update_where running (recover_row now) q)) = ids Running q \<union> ids Failed q"
    "ids Succeeded (snd (update_where running (recover_row now) q)) = ids Succeeded q"
    by (auto simp: ids_def)
  then show ?thesis
    using update_running_waiting [OF keeps_row_recover wf, of running]
    by (simp add: abs_queue_def)
qed

lemma simulated_recover: "wf_queue q \<Longrightarrow> simulated q (snd (recover flt now q))"
  using abs_recover [of q now] spec_recover [of "abs_queue q"]
  by (auto simp: recover_def snd_bnd_write snd_sql simulated_def abs_queue_def)

lemma snd_reorder:
  "snd (reorder flt jid other q) = q \<or>
   reorder flt jid other q = (Inr (), snd (reorder flt jid other q))"
  by (cases "reorder flt jid other q"; cases "fst (reorder flt jid other q)")
    (auto dest: reorder_error_unchanged)

lemma waiting_memI: "row_of n (jobs q) = Some r \<Longrightarrow> queued r \<Longrightarrow> n \<in> set (waiting q)"
  by (auto simp: set_waiting dest!: row_of_Some)

lemma abs_place_first:
  assumes "wf_queue q" "row_of n (jobs q) = Some r" "queued r"
    "sql_min (map queue_position (filter queued (jobs q))) = Some p"
  shows "abs_queue (place_first n p q) =
    (abs_queue q)\<lparr>s_waiting := n # remove1 n (waiting q)\<rparr>"
proof -
  have r: "r \<in> set (jobs q)" "n = sequence r" using row_of_Some [OF assms(2)] by auto
  show ?thesis
    using place_first_waiting [OF assms(1) r(1) assms(3,4)]
    by (simp add: abs_queue_def r(2)) (simp add: place_first_def ids_update_same)
qed

lemma abs_exchange:
  assumes "wf_queue q" "row_of n (jobs q) = Some r" "queued r" "row_of m (jobs q) = Some s" "queued s"
  shows "abs_queue (exchange n (queue_position r) m (queue_position s) q) =
    (abs_queue q)\<lparr>s_waiting := swap_in n m (waiting q)\<rparr>"
proof -
  have r: "r \<in> set (jobs q)" "n = sequence r" and s: "s \<in> set (jobs q)" "m = sequence s"
    using row_of_Some [OF assms(2)] row_of_Some [OF assms(4)] by auto
  show ?thesis
    using exchange_waiting [OF assms(1) r(1) assms(3) s(1) assms(5)]
    by (simp add: abs_queue_def r(2) s(2)) (simp add: exchange_def ids_update_same)
qed

lemma simulated_reorder:
  assumes wf: "wf_queue q"
  shows "simulated q (snd (reorder flt jid other q))"
proof (cases "snd (reorder flt jid other q) = q")
  case False
  define q' where "q' = snd (reorder flt jid other q)"
  with False have ok: "reorder flt jid other q = (Inr (), q')"
    using snd_reorder [of flt jid other q] by simp
  show ?thesis
  proof (cases "other = []")
    case True
    with ok obtain n r p where r: "row_of n (jobs q) = Some r" "queued r"
      "sql_min (map queue_position (filter queued (jobs q))) = Some p" "q' = place_first n p q"
      by (auto simp: reorder_first_Inr)
    then show ?thesis
      unfolding q'_def [symmetric]
      using abs_place_first [OF wf r(1-3)] waiting_memI [OF r(1,2)]
      by (intro simulatedI [OF spec_urgent [of n]]) (simp_all add: abs_queue_def)
  next
    case False
    with ok obtain n r m s where r: "row_of n (jobs q) = Some r" "queued r"
      "row_of m (jobs q) = Some s" "queued s"
      "q' = exchange n (queue_position r) m (queue_position s) q"
      by (auto simp: reorder_swap_Inr)
    then show ?thesis
      unfolding q'_def [symmetric]
      using abs_exchange [OF wf r(1-4)] waiting_memI [OF r(1,2)] waiting_memI [OF r(3,4)]
      by (intro simulatedI [OF spec_swap [of n _ m]]) (simp_all add: abs_queue_def)
  qed
qed simp

text \<open>Deletions that spare running rows.\<close>

lemma delete_waiting:
  assumes wf: "wf_queue q"
  shows "waiting (snd (delete_where p q)) = map sequence (filter (\<lambda>r. \<not> p r) (queue_rows q))"
proof -
  have "filter queued (jobs (snd (delete_where p q))) =
      filter (\<lambda>r. \<not> p r) (filter queued (jobs q))"
    by (simp add: jobs_delete_where conj_commute)
  then show ?thesis
    using queue_rows_filter [OF wf wf_delete_where [OF wf]] by (simp add: waiting_def)
qed

definition remove_row :: "int \<Rightarrow> localQueue \<Rightarrow> localQueue" where
  "remove_row n q = snd (delete_where (\<lambda>r. sequence r = n \<and> \<not> running r) q)"

lemma abs_remove_row:
  assumes wf: "wf_queue q" and n: "n \<notin> ids Running q"
  shows "abs_queue (remove_row n q) = (abs_queue q)\<lparr>s_waiting := remove1 n (waiting q),
    s_failed := ids Failed q - {n}, s_succeeded := ids Succeeded q - {n}\<rparr>"
proof -
  let ?q = "remove_row n q"
  have eq: "sequence r = n \<and> \<not> running r \<longleftrightarrow> sequence r = n" if "r \<in> set (jobs q)" for r
    using n that by (auto simp: ids_def running_def)
  have "filter (\<lambda>r. \<not> (sequence r = n \<and> \<not> running r)) (queue_rows q) =
      filter (\<lambda>r. sequence r \<noteq> n) (queue_rows q)"
    using eq by (intro filter_cong) auto
  then have w: "waiting ?q = remove1 n (waiting q)"
    by (simp add: remove_row_def delete_waiting [OF wf] waiting_remove1 [OF wf])
  have "ids st ?q = ids st q - {n}" for st
    using eq unfolding remove_row_def ids_delete by (auto simp: ids_def)
  with w n show ?thesis
    by (simp add: abs_queue_def remove_row_def)
qed

lemma delete_where_none: "(\<And>x. x \<in> set (jobs q) \<Longrightarrow> \<not> p x) \<Longrightarrow> snd (delete_where p q) = q"
  by (simp add: delete_where_def)

lemma remove_running_row:
  assumes "wf_queue q" "n \<in> ids Running q"
  shows "remove_row n q = q"
  unfolding remove_row_def
proof (rule delete_where_none)
  fix x assume "x \<in> set (jobs q)"
  then show "\<not> (sequence x = n \<and> \<not> running x)"
    using assms(2) wf_sequence_inj [OF assms(1)] by (auto simp: ids_def running_def)
qed

lemma simulated_remove:
  assumes wf: "wf_queue q"
  shows "simulated q (snd (remove flt jid q))"
proof -
  have "snd (remove flt jid q) = q \<or> (\<exists>n. snd (remove flt jid q) = remove_row n q)"
    by (cases "localSequence jid"; cases "flt 0"; cases "flt (Suc 0)")
      (auto simp: remove_def remove_row_def bnd_def sql_def split: prod.splits, (metis snd_conv)+)
  moreover have "simulated q (remove_row n q)" for n
  proof (cases "n \<in> ids Running q")
    case True
    with remove_running_row [OF wf] show ?thesis by simp
  next
    case False
    with abs_remove_row [OF wf False] show ?thesis
      by (intro simulatedI [OF spec_remove [of n]]) (simp_all add: abs_queue_def)
  qed
  ultimately show ?thesis by auto
qed

lemma queue_rows_queued: "r \<in> set (queue_rows q) \<Longrightarrow> queued r"
  by simp

lemma simulated_removeAll:
  assumes wf: "wf_queue q"
  shows "simulated q (snd (removeAll flt q))"
proof -
  let ?q = "snd (delete_where (\<lambda>r. \<not> running r) q)"
  have "snd (removeAll flt q) = q \<or> snd (removeAll flt q) = ?q"
    by (cases "flt 0"; cases "flt (Suc 0)"; cases "flt 2"; cases "flt 3"; cases "flt 4")
      (simp_all add: removeAll_def in_tx_def bnd_def sql_def numeral_3_eq_3 split: prod.splits)
  moreover have "waiting ?q = []"
    by (simp add: delete_waiting [OF wf]) (auto simp: filter_empty_conv queued_def running_def)
  then have "simulated q ?q"
    by (intro simulatedI [OF spec_remove_all])
      (auto simp: abs_queue_def ids_delete running_def, auto simp: ids_def)
  ultimately show ?thesis by auto
qed

lemma simulated_clear:
  assumes wf: "wf_queue q"
  shows "simulated q (snd (clear flt q))"
proof -
  let ?q = "snd (delete_where (\<lambda>r. status r = Succeeded \<or> status r = Failed) q)"
  have "filter (\<lambda>r. \<not> (status r = Succeeded \<or> status r = Failed)) (queue_rows q) = queue_rows q"
    by (auto simp: filter_id_conv queued_def)
  then have "waiting ?q = waiting q"
    using delete_waiting [OF wf, of "\<lambda>r. status r = Succeeded \<or> status r = Failed"]
    unfolding waiting_def by (simp only:)
  then have "simulated q ?q"
    by (intro simulatedI [OF spec_clear])
      (auto simp: abs_queue_def ids_delete, auto simp: ids_def)
  then show ?thesis
    by (simp add: clear_def snd_bnd_write snd_sql)
qed

text \<open>A successful \<open>retry\<close> requeues the selected rows one after the other.\<close>

lemma requeue_fold:
  assumes "wf_queue q" "distinct ns" "set ns \<subseteq> ids Failed q"
  shows "wf_queue (fold requeue ns q) \<and> abs_queue (fold requeue ns q) = (abs_queue q)
    \<lparr>s_waiting := waiting q @ ns, s_failed := ids Failed q - set ns\<rparr>"
  using assms
proof (induction ns arbitrary: q)
  case Nil
  then show ?case by (simp add: abs_queue_def)
next
  case (Cons n ns)
  obtain r where r: "r \<in> set (jobs q)" "sequence r = n" "status r = Failed"
    using Cons.prems(3) by (auto simp: ids_def)
  let ?q = "requeue n q"
  have wf: "wf_queue ?q" using Cons.prems(1) by (rule requeue_wf)
  have w: "waiting ?q = waiting q @ [n]"
    using requeue_waiting [OF Cons.prems(1) r(1)] r(2,3) by (simp add: queued_def)
  have "n \<in> ids Failed q" using r by (auto simp: ids_def)
  then have "n \<notin> ids Running q" "n \<notin> ids Succeeded q"
    using ids_disjoint [OF Cons.prems(1)] by blast+
  then have ids: "ids Running ?q = ids Running q" "ids Succeeded ?q = ids Succeeded q"
      "ids Failed ?q = ids Failed q - {n}"
    using ids_update_one [OF Cons.prems(1) r(1), of "requeue_row (next_position q)"] r(2)
    by (simp_all add: requeue_def)
  have "wf_queue (fold requeue ns ?q) \<and> abs_queue (fold requeue ns ?q) = (abs_queue ?q)
      \<lparr>s_waiting := waiting ?q @ ns, s_failed := ids Failed ?q - set ns\<rparr>"
    using Cons.prems wf ids by (intro Cons.IH) auto
  moreover have "last_sequence ?q = last_sequence q"
    by (simp add: requeue_def)
  ultimately show ?case
    using w ids by (auto simp: abs_queue_def)
qed

lemma retry_rows_failed:
  assumes "wf_queue q"
  shows "distinct (retry_rows target (jobs q))" "set (retry_rows target (jobs q)) \<subseteq> ids Failed q"
proof -
  let ?p = "\<lambda>r. status r = Failed \<and> (case target of None \<Rightarrow> True | Some n \<Rightarrow> sequence r = n)"
  have "mset (retry_rows target (jobs q)) = mset (map sequence (filter ?p (jobs q)))"
    by (simp add: retry_rows_def)
  moreover have "distinct (map sequence (filter ?p (jobs q)))"
    using wf_distinct_sequences [OF assms] by (rule distinct_map_filter)
  ultimately show "distinct (retry_rows target (jobs q))"
    using mset_eq_imp_distinct_iff by blast
  show "set (retry_rows target (jobs q)) \<subseteq> ids Failed q"
    by (auto simp: retry_rows_def ids_def)
qed

lemma retry_target_state: "retry_target flt jid q = (res, q') \<Longrightarrow> q' = q"
  using snd_bnd_read [of "lift_sum (localSequence jid)" q] 
  by (auto simp: retry_target_def bnd_def sql_def split: if_splits sum.splits prod.splits option.splits)

lemma retry_eq_Inr:
  "retry flt jid q = (Inr k, q') \<longleftrightarrow> (\<exists>target ns. flt 0 = None \<and> retry_target flt jid q = (Inr target, q) \<and>
     flt 2 = None \<and> flt 3 = None \<and> ns = retry_rows target (jobs q) \<and>
     (\<forall>i < length ns. flt (4 + i) = None) \<and> flt (4 + length ns) = None \<and>
     k = length ns \<and> q' = fold requeue ns q)"
  by (auto simp: retry_def bnd_eq_Inr sql_def requeue_all_eq_Inr split: option.splits
      dest: retry_target_state) 

lemma retry_error_unchanged: "retry flt jid q = (Inl e, q') \<Longrightarrow> q' = q"
  unfolding retry_def by (rule in_tx_error_unchanged)

lemma simulated_retry:
  assumes wf: "wf_queue q"
  shows "simulated q (snd (retry flt jid q))"
proof (cases "retry flt jid q")
  case (Pair res q')
  show ?thesis
  proof (cases res)
    case (Inl e)
    with Pair show ?thesis by (auto dest: retry_error_unchanged)
  next
    case (Inr k)
    with Pair obtain target where q': "q' = fold requeue (retry_rows target (jobs q)) q"
      by (auto simp: retry_eq_Inr)
    then show ?thesis
      using requeue_fold [OF wf retry_rows_failed [OF wf]] retry_rows_failed [OF wf, of target]
      by (intro simulatedI [OF spec_retry [of "retry_rows target (jobs q)"]])
        (simp_all add: Pair abs_queue_def)
  qed
qed

section \<open>Any operation, any sequence of operations\<close>

datatype lq_call =
  Submit int "string list" | Claim int | SetOutput string string | Report int string result |
  Recover int | Cancel string | Reorder string string | Remove string | RemoveAll |
  Retry string | Clear | ListJobs int int | Get string | Latest string

fun lq_exec :: "faults \<Rightarrow> lq_call \<Rightarrow> localQueue \<Rightarrow> localQueue" where
  "lq_exec flt (Submit now argv) q = snd (submit flt now argv q)"
| "lq_exec flt (Claim now) q = snd (claim flt now q)"
| "lq_exec flt (SetOutput jid path) q = snd (Output flt jid path q)"
| "lq_exec flt (Report now jid res) q = snd (Finish flt now jid res q)"
| "lq_exec flt (Recover now) q = snd (recover flt now q)"
| "lq_exec flt (Cancel jid) q = fst (snd (requestCancel flt None jid (q, ())))"
| "lq_exec flt (Reorder jid other) q = snd (reorder flt jid other q)"
| "lq_exec flt (Remove jid) q = snd (remove flt jid q)"
| "lq_exec flt RemoveAll q = snd (removeAll flt q)"
| "lq_exec flt (Retry jid) q = snd (retry flt jid q)"
| "lq_exec flt Clear q = snd (clear flt q)"
| "lq_exec flt (ListJobs l off) q = snd (list_jobs flt l off q)"
| "lq_exec flt (Get jid) q = snd (get_job flt jid q)"
| "lq_exec flt (Latest kind) q = snd (latest flt kind q)"

lemma requestCancel_fst:
  "fst (snd (requestCancel flt cancel jid (q, c))) =
     snd (updateRunning flt jid (\<lambda>r. r\<lparr>cancel_requested := 1\<rparr>) q)"
  by (simp add: requestCancel_def split: prod.splits sum.splits)

lemma lq_exec_wf: "wf_queue q \<Longrightarrow> wf_queue (lq_exec flt c q)"
  by (cases c)
    (simp_all add: keepsD [OF submit_wf] keepsD [OF claim_wf] keepsD [OF Output_wf]
      keepsD [OF Finish_wf] keepsD [OF recover_wf] keepsD [OF reorder_wf] keepsD [OF remove_wf]
      keepsD [OF removeAll_wf] keepsD [OF retry_wf] keepsD [OF clear_wf] keepsD [OF list_jobs_wf]
      keepsD [OF get_job_wf] keepsD [OF latest_wf] requestCancel_fst
      keepsD [OF updateRunning_wf [OF keeps_row_cancel]])

text \<open>The reading operations change nothing.\<close>

lemma keeps_same_read: "keeps ((=) q0) m \<Longrightarrow> snd (m q0) = q0"
  by (simp add: keeps_def)

lemma list_jobs_state [simp]: "snd (list_jobs flt l off q) = q"
  by (rule keeps_same_read) (unfold list_jobs_def, intro keeps_bnd; auto)

lemma get_job_state [simp]: "snd (get_job flt jid q) = q"
  by (rule keeps_same_read) (unfold get_job_def, intro keeps_bnd; auto)

lemma latest_state [simp]: "snd (latest flt kind q) = q"
  by (rule keeps_same_read) (unfold latest_def, intro keeps_if keeps_bnd; auto)

lemma simulated_same_abs: "abs_queue q' = abs_queue q \<Longrightarrow> simulated q q'"
  by (simp add: simulated_def)

lemma lq_exec_simulated:
  assumes wf: "wf_queue q"
  shows "simulated q (lq_exec flt c q)"
proof (cases c)
  case (SetOutput jid path)
  then show ?thesis
    using updateRunning_same_abs [OF wf keeps_row_output]
    by (simp add: Output_def simulated_same_abs)
next
  case (Cancel jid)
  then show ?thesis
    using updateRunning_same_abs [OF wf keeps_row_cancel]
    by (simp add: requestCancel_fst simulated_same_abs)
qed (simp_all add: simulated_submit simulated_claim simulated_Finish simulated_recover
    simulated_reorder simulated_remove simulated_removeAll simulated_retry simulated_clear wf)

inductive lq_reaches :: "localQueue \<Rightarrow> localQueue \<Rightarrow> bool" where
  lq_reaches_refl: "lq_reaches q q"
| lq_reaches_step: "lq_reaches q q' \<Longrightarrow> lq_reaches q (lq_exec flt c q')"

lemma lq_reaches_wf: "lq_reaches q q' \<Longrightarrow> wf_queue q \<Longrightarrow> wf_queue q'"
  by (induction rule: lq_reaches.induct) (auto intro: lq_exec_wf)

section \<open>An identifier names one job for ever\<close>

definition same_job :: "row \<Rightarrow> row \<Rightarrow> bool" where
  "same_job r s \<longleftrightarrow> sequence r = sequence s \<and> command r = command s \<and> created_at r = created_at s"

definition extends :: "localQueue \<Rightarrow> localQueue \<Rightarrow> bool" where
  "extends q q' \<longleftrightarrow> last_sequence q \<le> last_sequence q' \<and>
     (\<forall>r \<in> set (jobs q'). last_sequence q < sequence r \<or> (\<exists>s \<in> set (jobs q). same_job r s))"

lemma extends_refl [simp]: "extends q q"
  by (auto simp: extends_def same_job_def)

lemma extends_update:
  assumes "extends q0 q" "\<And>r. same_job (f r) r"
  shows "extends q0 (snd (update_where p f q))"
proof -
  have "\<exists>s \<in> set (jobs q). same_job r s" if "r \<in> set (jobs (snd (update_where p f q)))" for r
    using that assms(2) by (auto simp: jobs_update_where same_job_def split: if_splits)
  then show ?thesis
    using assms(1) unfolding extends_def same_job_def last_sequence_where by metis
qed

lemma extends_delete: "extends q0 q \<Longrightarrow> extends q0 (snd (delete_where p q))"
  by (auto simp: extends_def jobs_delete_where)

lemma extends_insert: "extends q0 q \<Longrightarrow> extends q0 (snd (insert_row txt now q))"
  by (auto simp: extends_def insert_row_def new_row_def Let_def)

lemma same_job_rows [simp]:
  "same_job (start_row q now r) r" "same_job (finish_row now res r) r"
  "same_job (recover_row now r) r" "same_job (requeue_row p r) r"
  "same_job (r\<lparr>output_path := path\<rparr>) r" "same_job (r\<lparr>cancel_requested := k\<rparr>) r"
  "same_job (r\<lparr>queue_position := p\<rparr>) r"
  by (simp_all add: same_job_def start_row_def finish_row_def recover_row_def requeue_row_def)

lemma extends_updateRunning:
  "(\<And>r. same_job (f r) r) \<Longrightarrow> keeps (extends q0) (updateRunning flt jid f)"
  unfolding updateRunning_def by (intro keeps_bnd keeps_sql keeps_if extends_update) auto

lemma extends_reorder: "keeps (extends q0) (reorder flt jid other)"
  unfolding reorder_def move_first_def swap_positions_def
  by (intro keeps_bnd keeps_in_tx keeps_if keeps_sql extends_update keeps_position)
    (auto split: option.splits simp: keeps_def extends_update)

lemma extends_requeue_all: "keeps (extends q0) (requeue_all flt i ns)"
  by (induction ns arbitrary: i) (auto intro!: keeps_bnd keeps_sql extends_update)

lemma extends_claim_row: "extends q0 q \<Longrightarrow> extends q0 (snd (claim_row now q))"
  by (auto simp: claim_row_def extends_update split: option.splits)

lemma lq_exec_extends: "extends q (lq_exec flt c q)"
proof (cases c)
  case (Submit now argv)
  have "keeps (extends q) (submit flt now argv)"
    unfolding submit_def
    by (intro keeps_bnd keeps_sql extends_insert) (auto split: option.splits)
  then show ?thesis using Submit by (simp add: keepsD)
next
  case (Claim now)
  have "keeps (extends q) (claim flt now)"
    unfolding claim_def
    by (intro keeps_bnd keeps_sql extends_claim_row) (auto split: option.splits)
  then show ?thesis using Claim by (simp add: keepsD)
next
  case (Recover now)
  have "keeps (extends q) (recover flt now)"
    unfolding recover_def by (intro keeps_bnd keeps_sql extends_update) auto
  then show ?thesis using Recover by (simp add: keepsD)
next
  case (Remove jid)
  have "keeps (extends q) (remove flt jid)"
    unfolding remove_def by (intro keeps_bnd keeps_sql keeps_if extends_delete) auto
  then show ?thesis using Remove by (simp add: keepsD)
next
  case RemoveAll
  have "keeps (extends q) (removeAll flt)"
    unfolding removeAll_def by (intro keeps_in_tx keeps_bnd keeps_sql extends_delete) auto
  then show ?thesis using RemoveAll by (simp add: keepsD)
next
  case Clear
  have "keeps (extends q) (clear flt)"
    unfolding clear_def by (intro keeps_bnd keeps_sql extends_delete) auto
  then show ?thesis using Clear by (simp add: keepsD)
next
  case (Retry jid)
  have "keeps (extends q) (retry flt jid)"
    unfolding retry_def by (intro keeps_in_tx keeps_bnd extends_requeue_all) auto
  then show ?thesis using Retry by (simp add: keepsD)
qed (simp_all add: Output_def Finish_def requestCancel_fst keepsD [OF extends_updateRunning]
    keepsD [OF extends_reorder])

lemma same_job_trans: "same_job r s \<Longrightarrow> same_job s t \<Longrightarrow> same_job r t"
  by (simp add: same_job_def)

lemma extends_trans:
  assumes a: "extends q q'" and b: "extends q' q''"
  shows "extends q q''"
  unfolding extends_def
proof (intro conjI ballI)
  show "last_sequence q \<le> last_sequence q''" using a b by (simp add: extends_def)
  fix r assume "r \<in> set (jobs q'')"
  with b consider "last_sequence q' < sequence r" | s where "s \<in> set (jobs q')" "same_job r s"
    by (auto simp: extends_def)
  then show "last_sequence q < sequence r \<or> (\<exists>s \<in> set (jobs q). same_job r s)"
  proof cases
    case 1
    with a show ?thesis by (auto simp: extends_def)
  next
    case (2 s)
    with a have "last_sequence q < sequence s \<or> (\<exists>t \<in> set (jobs q). same_job s t)"
      by (simp add: extends_def)
    with 2(2) show ?thesis
      using same_job_trans by (auto simp: same_job_def)
  qed
qed

lemma lq_reaches_extends: "lq_reaches q q' \<Longrightarrow> extends q q'"
  by (induction rule: lq_reaches.induct) (auto intro: extends_trans lq_exec_extends)

end
