(* ===== verification/LocalQueueProps.thy ===== *)
theory LocalQueueProps
  imports LocalQueueRefine
begin

text \<open>
  What the operations of the local queue return, on every well-formed queue: the properties
  of worker/local_queue.go as its callers (the worker loop, the socket handlers) use them.
\<close>

section \<open>Scanning rows\<close>

text \<open>The job a well-formed row scans to.\<close>

definition job_of :: "row \<Rightarrow> job" where
  "job_of r = (case scanLocalJob r of Inr j \<Rightarrow> j | Inl e \<Rightarrow> undefined)"

lemma scan_wf_row: "unmarshal_strings (command r) \<noteq> None \<Longrightarrow> scanLocalJob r = Inr (job_of r)"
  by (auto simp: job_of_def scanLocalJob_def)

lemma job_of_simps:
  assumes "unmarshal_strings (command r) = Some argv"
  shows "ID (job_of r) = local_id (sequence r)" "Status (job_of r) = status_text (status r)"
    "Command (job_of r) = argv"
  using assms by (simp_all add: job_of_def scanLocalJob_def)

lemma wf_command: "wf_queue q \<Longrightarrow> r \<in> set (jobs q) \<Longrightarrow> unmarshal_strings (command r) \<noteq> None"
  using wf_rowD by (auto simp: wf_row_def)

lemma ID_job_of: "unmarshal_strings (command r) \<noteq> None \<Longrightarrow> ID (job_of r) = local_id (sequence r)"
  by (auto simp: job_of_simps)

lemma scan_all_eq:
  "(\<And>r. r \<in> set rows \<Longrightarrow> unmarshal_strings (command r) \<noteq> None) \<Longrightarrow>
     scan_all rows = Inr (map job_of rows)"
  by (induction rows) (simp_all add: scan_wf_row)

lemma sql_no_faults [simp]: "sql no_faults i f q = (Inr (fst (f q)), snd (f q))"
  by (simp add: sql_def split: prod.splits)

lemma wf_sequence_range: "wf_queue q \<Longrightarrow> r \<in> set (jobs q) \<Longrightarrow> 1 \<le> sequence r \<and> sequence r \<le> max_int64"
  using wf_rowD [of q r] by (auto simp: wf_row_def wf_queue_def)

lemma localSequence_local_id:
  "wf_queue q \<Longrightarrow> r \<in> set (jobs q) \<Longrightarrow> localSequence (local_id (sequence r)) = Inr (sequence r)"
  using wf_sequence_range by (simp add: localSequence_iff)

section \<open>The order of the list\<close>

definition finished :: "row \<Rightarrow> bool" where
  "finished r \<longleftrightarrow> status r = Succeeded \<or> status r = Failed"

lemma list_rank_cases:
  "list_rank (status r) = 0 \<longleftrightarrow> running r" "list_rank (status r) = Suc 0 \<longleftrightarrow> queued r"
  "list_rank (status r) = 2 \<longleftrightarrow> finished r"
  by (cases "status r"; simp add: running_def queued_def finished_def)+

definition list_key :: "row \<Rightarrow> nat \<times> int \<times> int" where
  "list_key r = (list_rank (status r), queue_position r, sequence r)"

lemma list_key_same_rank:
  "list_rank (status r) = list_rank (status s) \<Longrightarrow> order_key r \<le> order_key s \<Longrightarrow> list_key r \<le> list_key s"
  by (auto simp: list_key_def order_key_def less_eq_prod_def)

lemma list_key_rank_less: "list_rank (status r) < list_rank (status s) \<Longrightarrow> list_key r \<le> list_key s"
  by (simp add: list_key_def less_eq_prod_def)

lemma sorted_list_key_same:
  assumes "\<And>r. r \<in> set rows \<Longrightarrow> list_rank (status r) = k"
  shows "sorted (map list_key (position_order rows))"
  unfolding sorted_map
proof (rule sorted_wrt_mono_rel)
  show "sorted_wrt (\<lambda>x y. order_key x \<le> order_key y) (position_order rows)"
    using sorted_position_order [of rows] by (simp add: sorted_map)
  show "list_key x \<le> list_key y"
    if "x \<in> set (position_order rows)" "y \<in> set (position_order rows)" "order_key x \<le> order_key y" for x y
    using that assms [of x] assms [of y] by (intro list_key_same_rank) simp_all
qed

lemma mset_by_status:
  "mset (filter running rows) + mset (filter queued rows) + mset (filter finished rows) = mset rows"
proof (induction rows)
  case (Cons r rows)
  then show ?case
    by (cases "status r") (auto simp: running_def queued_def finished_def)
qed simp

lemma list_order_parts:
  assumes "distinct (map sequence rows)"
  shows "list_order rows = position_order (filter running rows) @
    position_order (filter queued rows) @ position_order (filter finished rows)"
    (is "_ = ?ys")
proof -
  have mset: "mset ?ys = mset rows"
    using mset_by_status [of rows] by (simp add: add.assoc)
  have 1: "sorted (map list_key (position_order (filter running rows)))"
    by (rule sorted_list_key_same [where k = 0]) (simp add: list_rank_cases)
  have 2: "sorted (map list_key (position_order (filter queued rows)))"
    by (rule sorted_list_key_same [where k = "Suc 0"]) (simp add: list_rank_cases)
  have 3: "sorted (map list_key (position_order (filter finished rows)))"
    by (rule sorted_list_key_same [where k = 2]) (simp add: list_rank_cases)
  have "list_key r \<le> list_key s" if "running r" "queued s \<or> finished s" for r s
    using that by (intro list_key_rank_less) (auto simp: running_def queued_def finished_def)
  moreover have "list_key r \<le> list_key s" if "queued r" "finished s" for r s
    using that by (intro list_key_rank_less) (auto simp: queued_def finished_def)
  ultimately have "sorted (map list_key ?ys)"
    using 1 2 3 by (auto simp: sorted_append)
  moreover have "inj_on list_key (set rows)"
    using assms by (auto simp: inj_on_def list_key_def distinct_map)
  ultimately have "sort_key list_key rows = ?ys"
    using mset by (intro sort_key_inj_key_eq) simp_all
  then show ?thesis by (simp add: list_order_def list_key_def [abs_def])
qed

lemma sql_limit_map: "sql_limit l off (map f xs) = map f (sql_limit l off xs)"
  by (simp add: sql_limit_def take_map drop_map)

lemma set_sql_limit: "set (sql_limit l off xs) \<subseteq> set xs"
  by (auto simp: sql_limit_def dest: in_set_takeD in_set_dropD)

text \<open>The identifiers of the list, in its order.\<close>

definition listed :: "localQueue \<Rightarrow> int list" where
  "listed q = map sequence (position_order (filter running (jobs q))) @ waiting q @
     map sequence (position_order (filter finished (jobs q)))"

lemma listed_eq: "wf_queue q \<Longrightarrow> listed q = map sequence (list_order (jobs q))"
  by (simp add: listed_def list_order_parts [OF wf_distinct_sequences] waiting_def queue_rows_def)

lemma list_jobs_eq:
  assumes wf: "wf_queue q"
  shows "list_jobs no_faults l off q = (Inr (map job_of (sql_limit l off (list_order (jobs q)))), q)"
proof -
  have "unmarshal_strings (command r) \<noteq> None" if "r \<in> set (sql_limit l off (list_order (jobs q)))" for r
    using that set_sql_limit [of l off "list_order (jobs q)"] wf_command [OF wf, of r]
    by (auto simp: list_order_def)
  then show ?thesis
    by (simp add: list_jobs_def bnd_def scan_all_eq)
qed

lemma list_jobs_ids:
  assumes wf: "wf_queue q"
  shows "map ID (map job_of (sql_limit l off (list_order (jobs q)))) =
    map local_id (sql_limit l off (listed q))"
proof -
  have "ID (job_of r) = local_id (sequence r)" if "r \<in> set (sql_limit l off (list_order (jobs q)))" for r
    using that set_sql_limit [of l off "list_order (jobs q)"] wf_command [OF wf, of r]
    by (auto simp: list_order_def intro!: ID_job_of)
  then show ?thesis
    by (simp add: listed_eq [OF wf] sql_limit_map)
qed

section \<open>Requests leave running rows alone\<close>

text \<open>The operations that the socket's clients reach, as opposed to the worker itself.\<close>

fun client_call :: "lq_call \<Rightarrow> bool" where
  "client_call (Claim _) = False"
| "client_call (SetOutput _ _) = False"
| "client_call (Report _ _ _) = False"
| "client_call (Recover _) = False"
| "client_call _ = True"

text \<open>The running rows, up to the mark that a cancellation leaves.\<close>

definition runs :: "localQueue \<Rightarrow> row list" where
  "runs q = map (\<lambda>r. r\<lparr>cancel_requested := 0\<rparr>) (filter running (jobs q))"

lemma filter_map_if:
  "(\<And>r. r \<in> set rows \<Longrightarrow> p r \<Longrightarrow> \<not> P r \<and> \<not> P (f r)) \<Longrightarrow>
     filter P (map (\<lambda>r. if p r then f r else r) rows) = filter P rows"
  by (induction rows) auto

lemma runs_update:
  "(\<And>r. r \<in> set (jobs q) \<Longrightarrow> p r \<Longrightarrow> \<not> running r \<and> \<not> running (f r)) \<Longrightarrow>
     runs (snd (update_where p f q)) = runs q"
  using filter_map_if [of "jobs q" p running f] by (simp add: runs_def jobs_update_where)

lemma runs_delete: "(\<And>r. p r \<Longrightarrow> \<not> running r) \<Longrightarrow> runs (snd (delete_where p q)) = runs q"
  by (auto simp: runs_def jobs_delete_where intro!: arg_cong [where f = "map _"] filter_cong)

lemma runs_cancel: "runs (snd (update_where p (\<lambda>r. r\<lparr>cancel_requested := k\<rparr>) q)) = runs q"
proof -
  have "map (\<lambda>r. r\<lparr>cancel_requested := 0\<rparr>) (filter running
      (map (\<lambda>r. if p r then r\<lparr>cancel_requested := k\<rparr> else r) rows)) =
    map (\<lambda>r. r\<lparr>cancel_requested := 0\<rparr>) (filter running rows)" for rows
    by (induction rows) (auto simp: running_def)
  then show ?thesis by (simp add: runs_def jobs_update_where)
qed

lemma running_position [simp]: "running (r\<lparr>queue_position := p\<rparr>) = running r"
  by (simp add: running_def)

lemma queued_not_running: "queued r \<Longrightarrow> \<not> running r"
  by (simp add: queued_def running_def)

lemma runs_reorder:
  assumes wf: "wf_queue q"
  shows "runs (snd (reorder flt jid other q)) = runs q"
proof (cases "reorder flt jid other q")
  case (Pair res q')
  have nr: "\<not> running x" if "row_of n (jobs q) = Some r" "queued r" "x \<in> set (jobs q)" "sequence x = n" for n r x
    using that wf_sequence_inj [OF wf] row_of_Some queued_not_running by blast
  show ?thesis
  proof (cases res)
    case (Inl e)
    with Pair show ?thesis by (auto dest: reorder_error_unchanged)
  next
    case (Inr u)
    show ?thesis
    proof (cases "other = []")
      case True
      with Inr Pair obtain n r p' where rows: "row_of n (jobs q) = Some r" "queued r"
        and q': "q' = place_first n p' q"
        by (auto simp: reorder_first_Inr)
      have "runs q' = runs q"
        unfolding q' place_first_def by (rule runs_update) (use nr [OF rows] in auto)
      with Pair show ?thesis by simp
    next
      case False
      with Inr Pair obtain n r m s where rows: "row_of n (jobs q) = Some r" "queued r"
          "row_of m (jobs q) = Some s" "queued s"
        and q': "q' = exchange n (queue_position r) m (queue_position s) q"
        by (auto simp: reorder_swap_Inr)
      have "runs q' = runs q"
        unfolding q' exchange_def
        by (rule runs_update) (use nr [OF rows(1,2)] nr [OF rows(3,4)] in auto)
      with Pair show ?thesis by simp
    qed
  qed
qed

lemma runs_requeue_fold:
  assumes "wf_queue q" "distinct ns" "set ns \<subseteq> ids Failed q"
  shows "runs (fold requeue ns q) = runs q"
  using assms
proof (induction ns arbitrary: q)
  case (Cons n ns)
  have "n \<in> ids Failed q" using Cons.prems(3) by simp
  then have "n \<notin> ids Running q" using ids_disjoint [OF Cons.prems(1)] by blast
  then have nr: "\<not> running x" if "x \<in> set (jobs q)" "sequence x = n" for x
    using that by (auto simp: ids_def running_def)
  then have "runs (requeue n q) = runs q"
    unfolding requeue_def by (intro runs_update) simp
  moreover have "ids Failed (requeue n q) = ids Failed q - {n}" "wf_queue (requeue n q)"
    using requeue_fold [OF Cons.prems(1), of "[n]"] Cons.prems(3) by (simp_all add: abs_queue_def)
  moreover from this have "runs (fold requeue ns (requeue n q)) = runs (requeue n q)"
    using Cons.prems by (intro Cons.IH) auto
  ultimately show ?case by simp
qed simp

lemma runs_retry:
  assumes wf: "wf_queue q"
  shows "runs (snd (retry flt jid q)) = runs q"
proof (cases "retry flt jid q")
  case (Pair res q')
  show ?thesis
  proof (cases res)
    case (Inl e)
    with Pair show ?thesis by (auto dest: retry_error_unchanged)
  next
    case (Inr k)
    with Pair obtain target where q': "q' = fold requeue (retry_rows target (jobs q)) q"
      by (auto simp: retry_eq_Inr)
    with Pair show ?thesis
      using runs_requeue_fold [OF wf retry_rows_failed [OF wf]] by simp
  qed
qed

lemma runs_insert_row: "runs (snd (insert_row txt now q)) = runs q"
  by (simp add: insert_row_def runs_def new_row_def running_def Let_def)

lemma keeps_runsD: "keeps (\<lambda>q'. runs q' = runs q) m \<Longrightarrow> runs (snd (m q)) = runs q"
  by (simp add: keeps_def)

lemma client_call_runs:
  assumes wf: "wf_queue q" and c: "client_call c"
  shows "runs (lq_exec flt c q) = runs q"
proof (cases c)
  case (Submit now argv)
  have "keeps (\<lambda>q'. runs q' = runs q) (submit flt now argv)"
    unfolding submit_def
    by (intro keeps_bnd keeps_sql) (auto split: option.splits simp: runs_insert_row)
  then show ?thesis using Submit by (simp add: keeps_runsD)
next
  case (Cancel jid)
  then show ?thesis
    by (cases rule: snd_updateRunning [of flt jid "\<lambda>r. r\<lparr>cancel_requested := 1\<rparr>" q])
      (simp_all add: requestCancel_fst runs_cancel)
next
  case (Remove jid)
  have "keeps (\<lambda>q'. runs q' = runs q) (remove flt jid)"
    unfolding remove_def
    by (intro keeps_bnd keeps_sql keeps_if) (auto intro: trans [OF runs_delete])
  then show ?thesis using Remove by (simp add: keeps_runsD)
next
  case RemoveAll
  have "keeps (\<lambda>q'. runs q' = runs q) (removeAll flt)"
    unfolding removeAll_def 
    by (intro keeps_bnd keeps_sql keeps_in_tx) (auto intro: trans [OF runs_delete])
  then show ?thesis using RemoveAll by (simp add: keeps_runsD)
next
  case Clear
  have "runs (snd (delete_where (\<lambda>r. status r = Succeeded \<or> status r = Failed) q')) = runs q'" for q'
    by (rule runs_delete) (auto simp: running_def)
  then have "keeps (\<lambda>q'. runs q' = runs q) (clear flt)"
    unfolding clear_def by (intro keeps_bnd keeps_sql) auto
  then show ?thesis using Clear by (simp add: keeps_runsD)
qed (use c in \<open>simp_all add: runs_reorder [OF wf] runs_retry [OF wf]\<close>)

fun lq_execs :: "(faults \<times> lq_call) list \<Rightarrow> localQueue \<Rightarrow> localQueue" where
  "lq_execs [] q = q"
| "lq_execs ((flt, c) # cs) q = lq_execs cs (lq_exec flt c q)"

lemma lq_execs_wf: "wf_queue q \<Longrightarrow> wf_queue (lq_execs cs q)"
  by (induction cs q rule: lq_execs.induct) (simp_all add: lq_exec_wf)

lemma lq_execs_runs:
  "wf_queue q \<Longrightarrow> list_all (\<lambda>(flt, c). client_call c) cs \<Longrightarrow> runs (lq_execs cs q) = runs q"
  by (induction cs q rule: lq_execs.induct) (simp_all add: client_call_runs lq_exec_wf)

lemma ids_Running_runs: "ids Running q = sequence ` set (runs q)"
  by (auto simp: ids_def runs_def running_def image_image)

section \<open>Reports on a running job\<close>

lemma ids_bounds: "wf_queue q \<Longrightarrow> n \<in> ids st q \<Longrightarrow> 1 \<le> n \<and> n \<le> max_int64"
  using wf_sequence_range by (auto simp: ids_def)

lemma updateRunning_ok:
  assumes wf: "wf_queue q" and n: "n \<in> ids Running q"
  shows "updateRunning no_faults (local_id n) f q =
    (Inr (), snd (update_where (\<lambda>r. sequence r = n \<and> running r) f q))"
proof -
  have "filter (\<lambda>r. sequence r = n \<and> running r) (jobs q) \<noteq> []"
    using n by (auto simp: ids_def filter_empty_conv running_def)
  then have "fst (update_where (\<lambda>r. sequence r = n \<and> running r) f q) \<noteq> 0"
    by (simp add: update_where_def)
  moreover have "localSequence (local_id n) = Inr n"
    using ids_bounds [OF wf n] by (simp add: localSequence_iff)
  ultimately show ?thesis
    by (simp add: updateRunning_def bnd_def)
qed

lemma updateRunning_not_running:
  assumes "localSequence jid = Inr n" "n \<notin> ids Running q"
  shows "updateRunning no_faults jid f q = (Inl (NotRunning jid), q)"
proof -
  have none: "\<not> (sequence x = n \<and> running x)" if "x \<in> set (jobs q)" for x
    using assms(2) that by (auto simp: ids_def running_def)
  have "snd (update_where (\<lambda>r. sequence r = n \<and> running r) f q) = q"
    using none by (rule update_where_none)
  moreover have "fst (update_where (\<lambda>r. sequence r = n \<and> running r) f q) = 0"
    using none by (simp add: update_where_def filter_empty_conv)
  ultimately have "update_where (\<lambda>r. sequence r = n \<and> running r) f q = (0, q)"
    by (simp add: prod_eq_iff)
  with assms(1) show ?thesis
    by (simp add: updateRunning_def bnd_def)
qed

section \<open>Claiming\<close>

lemma next_queued_waiting:
  "next_queued q = (case queue_rows q of [] \<Rightarrow> None | r # _ \<Rightarrow> Some r)"
  by (simp add: next_queued_def queue_rows_def)

lemma claim_empty: "waiting q = [] \<Longrightarrow> claim no_faults now q = (Inr None, q)"
  by (simp add: claim_def bnd_def claim_row_def next_queued_waiting waiting_def)

lemma claim_some:
  assumes wf: "wf_queue q" and r: "next_queued q = Some r"
  shows "claim no_faults now q = (Inr (Some (job_of (start_row q now r))), snd (claim_row now q))"
proof -
  have "unmarshal_strings (command (start_row q now r)) \<noteq> None"
    using wf_command [OF wf] next_queued_Some [OF r] by simp
  from scan_wf_row [OF this] show ?thesis
    by (simp add: claim_def bnd_def claim_row_def r)
qed

lemma claim_head:
  assumes wf: "wf_queue q" and w: "waiting q = n # ns"
  shows "\<exists>j q'. claim no_faults now q = (Inr (Some j), q') \<and> ID j = local_id n \<and>
    Status j = ''running'' \<and> waiting q' = ns \<and> ids Running q' = insert n (ids Running q)"
proof -
  from w obtain r where r: "next_queued q = Some r" "sequence r = n"
    by (auto simp: next_queued_waiting waiting_def split: list.splits)
  have "unmarshal_strings (command (start_row q now r)) \<noteq> None"
    using wf_command [OF wf] next_queued_Some [OF r(1)] by simp
  then have "ID (job_of (start_row q now r)) = local_id n"
      "Status (job_of (start_row q now r)) = ''running''"
    using r(2) by (auto simp: job_of_simps)
  moreover have "waiting (snd (claim_row now q)) = ns"
    using claim_waiting [OF wf r(1), of now] w by simp
  moreover have "ids Running (snd (claim_row now q)) = insert n (ids Running q)"
    using abs_claim_row [OF wf r(1), of now] r(2) by (simp add: abs_queue_def)
  ultimately show ?thesis
    using claim_some [OF wf r(1), of now] by blast
qed

section \<open>Submitting\<close>

lemma submit_ok:
  assumes wf: "wf_queue q" and c: "check_command argv = Inr ()" and l: "last_sequence q < max_int64"
  shows "submit no_faults now argv q =
    (let r = fresh_row q (marshal_strings argv) now in (Inr (job_of r), append_row r q))"
proof -
  have "unmarshal_strings (command (fresh_row q (marshal_strings argv) now)) \<noteq> None"
    by (simp add: unmarshal_marshal)
  from scan_wf_row [OF this] show ?thesis
    using l by (simp add: submit_def bnd_def c insert_row_wf [OF wf] Let_def)
qed

lemma append_fresh_wf:
  assumes "wf_queue q" "last_sequence q < max_int64"
  shows "wf_queue (append_row (fresh_row q (marshal_strings argv) now) q)"
  using insert_row_keeps_wf [OF assms(1), of argv now] assms(2)
  by (simp add: insert_row_wf [OF assms(1)])

lemma get_job_row:
  assumes wf: "wf_queue q" and r: "r \<in> set (jobs q)"
  shows "get_job no_faults (local_id (sequence r)) q = (Inr (job_of r), q)"
  using scan_wf_row [OF wf_command [OF wf r]]
  by (simp add: get_job_def bnd_def localSequence_local_id [OF wf r] row_of_eq [OF wf r] scan_row_def)

lemma submit_appends:
  assumes wf: "wf_queue q" and c: "check_command argv = Inr ()" and l: "last_sequence q < max_int64"
  shows "\<exists>r q'. submit no_faults now argv q = (Inr (job_of r), q') \<and> wf_queue q' \<and> r \<in> set (jobs q') \<and>
    sequence r = last_sequence q + 1 \<and>
    ID (job_of r) = local_id (last_sequence q + 1) \<and> Status (job_of r) = ''queued'' \<and>
    Command (job_of r) = map coerce_utf8 argv \<and> waiting q' = waiting q @ [last_sequence q + 1]"
proof -
  let ?r = "fresh_row q (marshal_strings argv) now"
  let ?q = "append_row ?r q"
  have wf': "wf_queue ?q" by (rule append_fresh_wf [OF wf l])
  have "unmarshal_strings (command ?r) = Some (map coerce_utf8 argv)"
    by (simp add: unmarshal_marshal)
  from job_of_simps [OF this]
  have "ID (job_of ?r) = local_id (last_sequence q + 1)" "Status (job_of ?r) = ''queued''"
      "Command (job_of ?r) = map coerce_utf8 argv"
    by simp_all
  moreover have "waiting ?q = waiting q @ [last_sequence q + 1]"
    using queue_rows_append_row [OF wf wf'] next_position_fresh by (simp add: waiting_def)
  moreover have "submit no_faults now argv q = (Inr (job_of ?r), ?q)"
    using submit_ok [OF wf c l, of now] by (simp add: Let_def)
  ultimately show ?thesis using wf' by (intro exI [of _ ?r] exI [of _ ?q]) simp
qed

section \<open>Properties\<close>

text \<open>A concrete queue for the instances: two submitted jobs, the first of them claimed.\<close>

definition two_waiting :: localQueue where
  "two_waiting = \<lparr>jobs = [new_row 1 (marshal_strings [''ls'']) 5 1, new_row 2 (marshal_strings [''pwd'']) 6 2],
     last_sequence = 2, workerID = ''w'', lq_hostname = ''h''\<rparr>"

definition one_running :: localQueue where
  "one_running = snd (claim_row 7 two_waiting)"

lemmas example_simps = two_waiting_def one_running_def new_row_def queued_def running_def
  waiting_def queue_rows_def position_order_def finished_def claim_row_def next_queued_def
  update_where_def start_row_def

lemma two_waiting_wf: "wf_queue two_waiting"
  by (simp add: two_waiting_def wf_queue_def new_row_def wf_row_def row_shape_def
      positions_distinct_def max_int64_def unmarshal_marshal)

lemma one_running_wf: "wf_queue one_running"
  unfolding one_running_def by (rule claim_row_keeps_wf [OF two_waiting_wf])

lemma ids_code: "ids st q = set (map sequence (filter (\<lambda>r. status r = st) (jobs q)))"
  by (auto simp: ids_def)

lemma example_waiting [simp]: "waiting two_waiting = [1, 2]" "waiting one_running = [2]"
  by (simp_all add: example_simps)

lemma example_running [simp]: "ids Running one_running = {1}" "ids Running two_waiting = {}"
  by (simp_all add: ids_code example_simps)

definition one_failed :: localQueue where
  "one_failed = two_waiting\<lparr>jobs :=
     [(new_row 1 (marshal_strings [''ls'']) 5 1)\<lparr>status := Failed, started_at := Some 7,
        finished_at := Some 9, exit_code := Some 1\<rparr>,
      new_row 2 (marshal_strings [''pwd'']) 6 2]\<rparr>"

lemma one_failed_wf: "wf_queue one_failed"
  by (simp add: one_failed_def two_waiting_def wf_queue_def new_row_def wf_row_def row_shape_def
      positions_distinct_def max_int64_def unmarshal_marshal queued_def)

text \<open>C7. Whatever sequence of operations the worker and its socket perform, and whichever
  driver calls fail, the table stays well formed: sequences strictly increasing and never
  above the AUTOINCREMENT counter, every row's columns those of its status (a queued row has
  no start time, exit code or cancellation mark; only finished rows have a finish time), every
  command decodable, and no two queued rows at the same position.\<close>

theorem lq_invariant:
  assumes "lq_reaches (empty_queue\<lparr>workerID := w, lq_hostname := h\<rparr>) q"
  shows "wf_queue q"
proof (rule lq_reaches_wf [OF assms])
  show "wf_queue (empty_queue\<lparr>workerID := w, lq_hostname := h\<rparr>)"
    by (simp add: wf_queue_def empty_queue_def positions_distinct_def max_int64_def)
qed

theorem lq_invariant_witness:
  "wf_queue (lq_exec no_faults (Submit 5 [''ls'']) (empty_queue\<lparr>workerID := ''w'', lq_hostname := ''h''\<rparr>))"
  by (rule lq_invariant [where w = "''w''" and h = "''h''"]) (intro lq_reaches_step lq_reaches_refl)

text \<open>C1. Every operation of the queue, with any driver failures, is a step of the abstract
  queue or leaves it unchanged: jobs wait in one order, are claimed from its head, leave the
  running set only by their own report or the recovery at start-up, and come back only from
  the failed set.\<close>

theorem lq_refines:
  assumes "wf_queue q"
  shows "abs_queue (lq_exec flt c q) = abs_queue q \<or>
    spec_step (abs_queue q) (abs_queue (lq_exec flt c q))"
  using lq_exec_simulated [OF assms] by (simp add: simulated_def)

theorem lq_refines_witness:
  "abs_queue (lq_exec no_faults (Claim 7) two_waiting) = abs_queue two_waiting \<or>
    spec_step (abs_queue two_waiting) (abs_queue (lq_exec no_faults (Claim 7) two_waiting))"
  by (rule lq_refines [OF two_waiting_wf])

text \<open>C20. \<open>claim\<close> is first come, first served: with nothing waiting it returns no job and
  changes nothing; otherwise it returns the first waiting job, now running, and exactly that
  job leaves the waiting list and joins the running ones.\<close>

theorem claim_takes_first:
  assumes "wf_queue q"
  shows "case waiting q of
      [] \<Rightarrow> claim no_faults now q = (Inr None, q)
    | n # ns \<Rightarrow> (\<exists>j q'. claim no_faults now q = (Inr (Some j), q') \<and> ID j = local_id n \<and>
        Status j = ''running'' \<and> waiting q' = ns \<and> ids Running q' = insert n (ids Running q))"
  using claim_empty [of q now] claim_head [OF assms, of _ _ now] by (simp split: list.split)

theorem claim_takes_first_witness:
  "waiting two_waiting = [1, 2] \<and>
    (\<exists>j q'. claim no_faults 7 two_waiting = (Inr (Some j), q') \<and> ID j = ''local-1'' \<and>
      Status j = ''running'' \<and> waiting q' = [2] \<and> ids Running q' = insert 1 (ids Running two_waiting))"
proof -
  have "local_id 1 = ''local-1''" by code_simp
  then show ?thesis
    using claim_takes_first [OF two_waiting_wf, of 7] by simp
qed

text \<open>C21. A job that is running can always be finished: after any sequence of socket
  requests (submissions, cancellations, reorderings, removals, retries, clears), with any
  driver failures, the rows of the running jobs are what they were but for the cancellation
  mark, and the worker's \<open>Finish\<close> finds its job and moves it out of the running ones to the
  succeeded or the failed, as its result says.\<close>

theorem requests_never_touch_running:
  assumes wf: "wf_queue q" and cs: "list_all (\<lambda>(flt, c). client_call c) cs"
    and n: "n \<in> ids Running q"
  shows "runs (lq_execs cs q) = runs q \<and>
    (\<exists>q'. Finish no_faults now (local_id n) res (lq_execs cs q) = (Inr (), q') \<and>
      ids Running q' = ids Running q - {n} \<and>
      n \<in> ids (if result_ok res then Succeeded else Failed) q')"
proof -
  let ?q = "lq_execs cs q"
  have runs: "runs ?q = runs q" by (rule lq_execs_runs [OF wf cs])
  then have same: "ids Running ?q = ids Running q" by (simp add: ids_Running_runs)
  have wf': "wf_queue ?q" by (rule lq_execs_wf [OF wf])
  have n': "n \<in> ids Running ?q" using n same by simp
  then obtain r where r: "r \<in> set (jobs ?q)" "running r" "sequence r = n"
    by (auto simp: ids_def running_def)
  from updateRunning_ok [OF wf' n']
  have fin: "Finish no_faults now (local_id n) res ?q = (Inr (),
      snd (update_where (\<lambda>x. sequence x = n \<and> running x) (finish_row now res) ?q))"
    by (simp add: Finish_def)
  moreover have "ids Running q' = ids Running q - {n} \<and> n \<in> ids (if result_ok res then Succeeded else Failed) q'"
    if "q' = snd (update_where (\<lambda>x. sequence x = n \<and> running x) (finish_row now res) ?q)" for q'
    using abs_finish_row [OF wf' r(1,2), of now res] same r(3) that
    by (cases "result_ok res") (simp_all add: abs_queue_def)
  ultimately show ?thesis using runs by blast
qed

theorem requests_never_touch_running_witness:
  "\<exists>q'. Finish no_faults 9 (local_id 1) (error_result ''boom'')
      (lq_execs [(no_faults, RemoveAll), (no_faults, Cancel (local_id 1))] one_running) = (Inr (), q') \<and>
      1 \<in> ids Failed q'"
  using requests_never_touch_running [OF one_running_wf,
      of "[(no_faults, RemoveAll), (no_faults, Cancel (local_id 1))]" 1 9 "error_result ''boom''"]
  by (auto simp: error_result_def result_ok_def)

text \<open>C31. \<open>submit\<close> of an acceptable command appends a job: the identifier is one no job has
  ever had, the command comes back as it was sent (with ill-formed UTF-8 replaced, as Go's
  JSON encoder does), the job is the last one to be claimed, and \<open>get\<close> of its identifier
  returns it.\<close>

theorem submit_then_get:
  assumes wf: "wf_queue q" and c: "check_command argv = Inr ()" and l: "last_sequence q < max_int64"
  shows "\<exists>j q'. submit no_faults now argv q = (Inr j, q') \<and>
    ID j = local_id (last_sequence q + 1) \<and> Status j = ''queued'' \<and>
    Command j = map coerce_utf8 argv \<and> waiting q' = waiting q @ [last_sequence q + 1] \<and>
    get_job no_faults (ID j) q' = (Inr j, q')"
proof -
  from submit_appends [OF assms, of now] obtain r q' where r:
    "submit no_faults now argv q = (Inr (job_of r), q')" "wf_queue q'" "r \<in> set (jobs q')"
    "sequence r = last_sequence q + 1" "ID (job_of r) = local_id (last_sequence q + 1)"
    "Status (job_of r) = ''queued''" "Command (job_of r) = map coerce_utf8 argv"
    "waiting q' = waiting q @ [last_sequence q + 1]" by blast
  from get_job_row [OF r(2,3)] r(4,5) have "get_job no_faults (ID (job_of r)) q' = (Inr (job_of r), q')"
    by simp
  with r show ?thesis by blast
qed

theorem submit_then_get_witness:
  "\<exists>j q'. submit no_faults 8 [''echo'', ''a b''] two_waiting = (Inr j, q') \<and>
    Command j = [''echo'', ''a b''] \<and> waiting q' = [1, 2, 3] \<and>
    get_job no_faults (ID j) q' = (Inr j, q')"
proof -
  have "check_command [''echo'', ''a b''] = Inr ()"
  proof -
    have "trim_space ''echo'' \<noteq> []" "\<not> contains_nul ''echo''" "\<not> contains_nul ''a b''"
      by code_simp+
    then show ?thesis by (simp add: check_command_def)
  qed
  moreover have "last_sequence two_waiting = 2" "2 < max_int64" by (simp_all add: two_waiting_def max_int64_def)
  moreover have "map coerce_utf8 [''echo'', ''a b''] = [''echo'', ''a b'']" by simp
  ultimately obtain j q' where "submit no_faults 8 [''echo'', ''a b''] two_waiting = (Inr j, q')"
      "Command j = [''echo'', ''a b'']" "waiting q' = [1, 2] @ [2 + 1]"
      "get_job no_faults (ID j) q' = (Inr j, q')"
    using submit_then_get [OF two_waiting_wf, of "[''echo'', ''a b'']" 8]
    unfolding example_waiting by metis
  moreover have "[1, 2] @ [2 + 1] = [1, 2, 3 :: int]" by simp
  ultimately show ?thesis by metis
qed

text \<open>C33. Identifiers are never reused: whatever operations have been performed since, a row
  whose sequence had been given out before names the same job, with the same command and
  creation time, even after removals, clears and retries.\<close>

theorem identifiers_name_one_job:
  assumes "lq_reaches q q'" "r \<in> set (jobs q')" "sequence r \<le> last_sequence q"
  shows "\<exists>s \<in> set (jobs q). sequence s = sequence r \<and> command s = command r \<and>
    created_at s = created_at r"
  using lq_reaches_extends [OF assms(1)] assms(2,3)
  by (auto simp: extends_def same_job_def) (metis linorder_not_less)

theorem identifiers_name_one_job_witness:
  "\<exists>s \<in> set (jobs two_waiting). sequence s = 1 \<and> command s = marshal_strings [''ls''] \<and> created_at s = 5"
proof -
  have "lq_reaches two_waiting (lq_exec no_faults (Claim 7) two_waiting)"
    by (intro lq_reaches_step lq_reaches_refl)
  moreover have "lq_exec no_faults (Claim 7) two_waiting = one_running"
    by (simp add: claim_def bnd_def one_running_def split: prod.splits option.splits sum.splits)
  moreover have "jobs one_running = [start_row two_waiting 7 (new_row 1 (marshal_strings [''ls'']) 5 1),
      new_row 2 (marshal_strings [''pwd'']) 6 2]"
    by (simp add: example_simps)
  ultimately show ?thesis
    using identifiers_name_one_job [of two_waiting one_running "hd (jobs one_running)"]
    by (simp add: start_row_def new_row_def two_waiting_def)
qed

text \<open>C35. The list shows the running jobs, then the waiting ones in the order in which they
  will be claimed, then the finished ones; a page of it is the corresponding slice. No row is
  dropped or repeated.\<close>

theorem list_shows_claim_order:
  assumes wf: "wf_queue q"
  shows "\<exists>js. list_jobs no_faults l off q = (Inr js, q) \<and>
    map ID js = map local_id (sql_limit l off
      (map sequence (position_order (filter running (jobs q))) @ waiting q @
       map sequence (position_order (filter finished (jobs q))))) \<and>
    mset (listed q) = mset (map sequence (jobs q))"
proof -
  have "mset (listed q) = mset (map sequence (jobs q))"
    unfolding listed_eq [OF wf] by (simp add: list_order_def)
  then show ?thesis
    using list_jobs_eq [OF wf] list_jobs_ids [OF wf] unfolding listed_def by blast
qed

theorem list_shows_claim_order_witness:
  "\<exists>js. list_jobs no_faults 50 0 one_running = (Inr js, one_running) \<and>
    map ID js = [local_id 1, local_id 2]"
proof -
  have "map local_id (sql_limit 50 0
      (map sequence (position_order (filter running (jobs one_running))) @ waiting one_running @
       map sequence (position_order (filter finished (jobs one_running))))) = [local_id 1, local_id 2]"
    by (simp add: sql_limit_def) (simp add: example_simps)
  then show ?thesis
    using list_shows_claim_order [OF one_running_wf, of 50 0] by auto
qed

lemma waiting_row:
  assumes "wf_queue q" "k \<in> set (waiting q)"
  obtains r where "row_of k (jobs q) = Some r" "queued r" "r \<in> set (jobs q)" "sequence r = k"
    "localSequence (local_id k) = Inr k"
  using assms row_of_eq localSequence_local_id by (auto simp: set_waiting)

lemma reorder_first_ok:
  assumes wf: "wf_queue q" and n: "n \<in> set (waiting q)"
  shows "\<exists>q'. reorder no_faults (local_id n) [] q = (Inr (), q') \<and>
    abs_queue q' = (abs_queue q)\<lparr>s_waiting := n # remove1 n (waiting q)\<rparr>"
proof -
  obtain r where r: "row_of n (jobs q) = Some r" "queued r" "r \<in> set (jobs q)"
      "sequence r = n" "localSequence (local_id n) = Inr n" by (rule waiting_row [OF wf n])
  then have "filter queued (jobs q) \<noteq> []" by (auto simp: filter_empty_conv)
  then obtain p where p: "sql_min (map queue_position (filter queued (jobs q))) = Some p"
    using sql_min_Some [of "map queue_position (filter queued (jobs q))"] by auto
  have "reorder no_faults (local_id n) [] q = (Inr (), place_first n p q)"
    using r p by (simp add: reorder_first_Inr)
  then show ?thesis using abs_place_first [OF wf r(1,2) p] by blast
qed

lemma reorder_swap_ok:
  assumes wf: "wf_queue q" and n: "n \<in> set (waiting q)" and m: "m \<in> set (waiting q)"
  shows "\<exists>q'. reorder no_faults (local_id n) (local_id m) q = (Inr (), q') \<and>
    abs_queue q' = (abs_queue q)\<lparr>s_waiting := swap_in n m (waiting q)\<rparr>"
proof -
  obtain r where r: "row_of n (jobs q) = Some r" "queued r" "localSequence (local_id n) = Inr n"
    by (rule waiting_row [OF wf n])
  obtain s where s: "row_of m (jobs q) = Some s" "queued s" "localSequence (local_id m) = Inr m"
    by (rule waiting_row [OF wf m])
  have "local_id m \<noteq> []" by (simp add: local_id_def)
  then have "reorder no_faults (local_id n) (local_id m) q =
      (Inr (), exchange n (queue_position r) m (queue_position s) q)"
    using r s by (simp add: reorder_swap_Inr)
  then show ?thesis using abs_exchange [OF wf r(1,2) s(1,2)] by blast
qed

text \<open>Reordering does what it says and nothing else. \<open>reorder id ""\<close> of a waiting job moves
  it to the front; \<open>reorder id other\<close> of two waiting jobs exchanges their places; the other
  waiting jobs keep their order, and the other sets stay as they are.\<close>

theorem reorder_moves:
  assumes wf: "wf_queue q" and n: "n \<in> set (waiting q)"
  shows "(\<exists>q'. reorder no_faults (local_id n) [] q = (Inr (), q') \<and>
      abs_queue q' = (abs_queue q)\<lparr>s_waiting := n # remove1 n (waiting q)\<rparr>) \<and>
    (\<forall>m \<in> set (waiting q). \<exists>q'. reorder no_faults (local_id n) (local_id m) q = (Inr (), q') \<and>
      abs_queue q' = (abs_queue q)\<lparr>s_waiting := swap_in n m (waiting q)\<rparr>)"
  using reorder_first_ok [OF wf n] reorder_swap_ok [OF wf n] by blast

theorem reorder_moves_witness:
  "\<exists>q'. reorder no_faults (local_id 2) [] two_waiting = (Inr (), q') \<and>
    abs_queue q' = (abs_queue two_waiting)\<lparr>s_waiting := [2, 1]\<rparr>"
  using reorder_moves [OF two_waiting_wf, of 2] by simp

lemma removeAll_count_fails:
  assumes "flt 0 = None" "flt (Suc 0) = None" "flt 2 = None" "flt 3 = Some e"
  shows "fst (removeAll flt q) = Inl (DBError e)"
  using assms by (simp add: removeAll_def in_tx_def bnd_def sql_def delete_where_def)

lemma removeAll_error_unchanged: "removeAll flt q = (Inl e, q') \<Longrightarrow> q' = q"
  unfolding removeAll_def by (rule in_tx_error_unchanged)

text \<open>The transactions are atomic: when \<open>reorder\<close>, \<open>retry\<close> or \<open>removeAll\<close> reports an
  error, for whatever reason and at whichever of its statements, the queue is what it was.\<close>

theorem failed_transactions_change_nothing:
  "(\<forall>e q'. reorder flt jid other q = (Inl e, q') \<longrightarrow> q' = q) \<and>
   (\<forall>e q'. retry flt jid q = (Inl e, q') \<longrightarrow> q' = q) \<and>
   (\<forall>e q'. removeAll flt q = (Inl e, q') \<longrightarrow> q' = q)"
  by (intro conjI allI impI)
    (erule reorder_error_unchanged retry_error_unchanged removeAll_error_unchanged)+

theorem failed_transactions_change_nothing_witness:
  "removeAll (\<lambda>i. if i = 3 then Some ''disk I/O error'' else None) two_waiting =
     (Inl (DBError ''disk I/O error''), two_waiting)"
proof -
  let ?flt = "\<lambda>i. if i = 3 then Some ''disk I/O error'' else None"
  have "fst (removeAll ?flt two_waiting) = Inl (DBError ''disk I/O error'')"
    by (rule removeAll_count_fails) simp_all
  then have "removeAll ?flt two_waiting =
      (Inl (DBError ''disk I/O error''), snd (removeAll ?flt two_waiting))"
    by (metis prod.collapse)
  moreover from this failed_transactions_change_nothing [where flt = ?flt and q = two_waiting]
  have "snd (removeAll ?flt two_waiting) = two_waiting" by blast
  ultimately show ?thesis by metis
qed

text \<open>\<open>retry ""\<close> requeues every failed job and only those, behind all waiting ones, in
  their previous order, and returns their number.\<close>

theorem retry_all_requeues_failed:
  assumes wf: "wf_queue q"
  defines "ns \<equiv> map sequence (position_order (filter (\<lambda>r. status r = Failed) (jobs q)))"
  shows "\<exists>q'. retry no_faults [] q = (Inr (length ns), q') \<and> wf_queue q' \<and>
    abs_queue q' = (abs_queue q)\<lparr>s_waiting := waiting q @ ns, s_failed := {}\<rparr>"
proof -
  have ns: "retry_rows None (jobs q) = ns" by (simp add: retry_rows_def ns_def)
  have "retry no_faults [] q = (Inr (length ns), fold requeue ns q)"
    by (simp add: retry_eq_Inr retry_target_def ns)
  moreover have "set ns = ids Failed q" by (auto simp: ns_def ids_def)
  ultimately show ?thesis
    using requeue_fold [OF wf retry_rows_failed [OF wf, of None]] unfolding ns by simp
qed

theorem retry_all_requeues_failed_witness:
  "\<exists>q'. retry no_faults [] one_failed = (Inr 1, q') \<and> waiting q' = [2, 1]"
proof -
  have "map sequence (position_order (filter (\<lambda>r. status r = Failed) (jobs one_failed))) = [1]"
    "waiting one_failed = [2]"
    by (simp_all add: one_failed_def example_simps)
  with retry_all_requeues_failed [OF one_failed_wf] obtain q' where
    "retry no_faults [] one_failed = (Inr 1, q')"
    "abs_queue q' = (abs_queue one_failed)\<lparr>s_waiting := [2, 1], s_failed := {}\<rparr>"
    by (simp only: length_Cons list.size append.simps) (simp only: One_nat_def add_0, blast)
  moreover from this(2) have "waiting q' = [2, 1]"
    unfolding abs_queue_def by simp
  ultimately show ?thesis by blast
qed

text \<open>\<open>removeAll\<close> removes every row that is not running and keeps every row that is, and
  the two counts it returns are those: they add up to the number of jobs before.\<close>

theorem removeAll_counts:
  "\<exists>q'. removeAll no_faults q =
      (Inr \<lparr>Removed = length (jobs q) - length (filter running (jobs q)),
            KeptRunning = length (filter running (jobs q))\<rparr>, q') \<and>
    jobs q' = filter running (jobs q) \<and> last_sequence q' = last_sequence q"
proof -
  have "length (filter (\<lambda>r. \<not> running r) rows) = length rows - length (filter running rows)" for rows
    using sum_length_filter_compl [of running rows] by linarith
  then show ?thesis
    by (simp add: removeAll_def in_tx_def bnd_def delete_where_def)
qed

text \<open>\<open>localSequence\<close> accepts exactly the canonical identifiers \<open>local-n\<close> of the 64-bit
  positive rowids, and returns \<open>n\<close>: no sign, no leading zero, no overflow, no trailing text.\<close>

theorem localSequence_canonical:
  "localSequence jid = Inr n \<longleftrightarrow> 1 \<le> n \<and> n \<le> max_int64 \<and> jid = local_id n"
  by (rule localSequence_iff)

end
