(* ===== verification/LocalBatch.thy ===== *)
theory LocalBatch
  imports LocalQueueProps
begin

text \<open>
  Batches of queue operations, worker/local_batch.go: the validated and deduplicated target
  list, the loop that runs one transaction per target, and the three actions. The loop is a
  client of the action's contract, stated as a locale: \<open>batch_op\<close> for any action, and
  \<open>batch_exact\<close> for one whose effect on a list of targets is known. Both are interpreted on
  the queue's own \<open>reorder\<close>, \<open>retry\<close> and \<open>remove\<close>.
\<close>

section \<open>The code\<close>

record 'e batchFailure =
  failure_id :: string
  failure_error :: 'e

record 'e batchResult =
  succeeded :: "string list"
  failed :: "'e batchFailure list"

definition no_result :: "'e batchResult" where
  "no_result = \<lparr>succeeded = [], failed = []\<rparr>"

text \<open>The validation loop: \<open>seen\<close> is the Go map of the identifiers met, \<open>uniq\<close> the slice.\<close>

fun unique_ids :: "string list \<Rightarrow> string set \<Rightarrow> string list \<Rightarrow> lq_error + string list" where
  "unique_ids [] seen uniq = Inr uniq"
| "unique_ids (raw # jids) seen uniq =
     (let jid = trim_space raw in
      if jid = [] \<or> 4096 < length jid then Inl BadBatchID
      else if jid \<in> seen then unique_ids jids seen uniq
      else unique_ids jids (insert jid seen) (uniq @ [jid]))"

text \<open>
  The loop over the targets. \<open>act i jid\<close> is the action on the \<open>i\<close>-th target; its error is
  recorded beside the target and does not end the loop.
\<close>

fun run_batch :: "(nat \<Rightarrow> string \<Rightarrow> ('s, 'e, unit) op) \<Rightarrow> nat \<Rightarrow> string list \<Rightarrow> 'e batchResult \<Rightarrow>
    's \<Rightarrow> 'e batchResult \<times> 's" where
  "run_batch act i [] acc s = (acc, s)"
| "run_batch act i (jid # jids) acc s = (case act i jid s of
     (Inl e, s') \<Rightarrow> run_batch act (Suc i) jids
        (acc\<lparr>failed := failed acc @ [\<lparr>failure_id = jid, failure_error = e\<rparr>]\<rparr>) s'
   | (Inr _, s') \<Rightarrow> run_batch act (Suc i) jids (acc\<lparr>succeeded := succeeded acc @ [jid]\<rparr>) s')"

text \<open>The \<open>switch\<close>: \<open>flts i\<close> are the driver failures of the \<open>i\<close>-th target's transaction.\<close>

definition batch_action :: "string \<Rightarrow> (nat \<Rightarrow> faults) \<Rightarrow> (nat \<Rightarrow> string \<Rightarrow> unit lq_op) option" where
  "batch_action action flts =
     (if action = ''urgent'' then Some (\<lambda>i jid. reorder (flts i) jid [])
      else if action = ''retry'' then Some (\<lambda>i jid. bnd (retry (flts i) jid) (\<lambda>_. ret ()))
      else if action = ''remove'' then Some (\<lambda>i jid. remove (flts i) jid)
      else None)"

definition batchJobs ::
  "(nat \<Rightarrow> faults) \<Rightarrow> string list \<Rightarrow> string \<Rightarrow> lq_error batchResult lq_op" where
  "batchJobs flts jids action = (\<lambda>q.
     if jids = [] \<or> 100 < length jids then (Inl BatchSize, q)
     else case unique_ids jids {} [] of
       Inl e \<Rightarrow> (Inl e, q)
     | Inr uniq \<Rightarrow>
        (let urgent = (action = ''urgent'');
             targets = (if urgent then rev uniq else uniq)
         in case batch_action action flts of
              None \<Rightarrow> (Inl (UnknownBatchAction action), q)
            | Some act \<Rightarrow>
               (case run_batch act 0 targets no_result q of (res, q') \<Rightarrow>
                 (Inr (if urgent then \<lparr>succeeded = rev (succeeded res), failed = rev (failed res)\<rparr>
                       else res), q'))))"

section \<open>The target list\<close>

text \<open>The first occurrences of a list's elements, in order.\<close>

definition firsts :: "'a list \<Rightarrow> 'a list" where
  "firsts xs = rev (remdups (rev xs))"

lemma remdups_snoc: "remdups (xs @ [x]) = filter (\<lambda>y. y \<noteq> x) (remdups xs) @ [x]"
  by (induction xs) auto

lemma firsts_Nil [simp]: "firsts [] = []"
  by (simp add: firsts_def)

lemma firsts_Cons [simp]: "firsts (x # xs) = x # filter (\<lambda>y. y \<noteq> x) (firsts xs)"
  by (simp add: firsts_def remdups_snoc rev_filter)

lemma set_firsts [simp]: "set (firsts xs) = set xs"
  by (simp add: firsts_def)

lemma distinct_firsts [simp]: "distinct (firsts xs)"
  by (simp add: firsts_def)

definition batch_id_ok :: "string \<Rightarrow> bool" where
  "batch_id_ok raw \<longleftrightarrow> trim_space raw \<noteq> [] \<and> length (trim_space raw) \<le> 4096"

lemma unique_ids_acc:
  assumes "seen = set uniq"
  shows "unique_ids jids seen uniq = (if list_all batch_id_ok jids
    then Inr (uniq @ filter (\<lambda>x. x \<notin> set uniq) (firsts (map trim_space jids))) else Inl BadBatchID)"
  using assms
proof (induction jids arbitrary: seen uniq)
  case (Cons raw jids)
  show ?case
  proof (cases "trim_space raw \<in> seen")
    case True
    then show ?thesis
      using Cons.IH [OF Cons.prems] Cons.prems
      by (auto simp: Let_def batch_id_ok_def intro: filter_cong)
  next
    case False
    have "filter (\<lambda>x. x \<notin> set (uniq @ [trim_space raw])) xs =
        filter (\<lambda>x. x \<notin> set uniq) (filter (\<lambda>x. x \<noteq> trim_space raw) xs)" for xs
      by (auto intro: filter_cong)
    then show ?thesis
      using Cons.IH [of "insert (trim_space raw) seen" "uniq @ [trim_space raw]"] Cons.prems False
      by (auto simp: Let_def batch_id_ok_def)
  qed
qed simp

lemma unique_ids_eq:
  "unique_ids jids {} [] = (if list_all batch_id_ok jids
     then Inr (firsts (map trim_space jids)) else Inl BadBatchID)"
  by (simp add: unique_ids_acc)

section \<open>The loop, over any action\<close>

text \<open>Every target is reported once, on one side, in the order of the run.\<close>

lemma run_batch_reports:
  assumes "run_batch act i jids acc s = (res, s')"
  shows "\<exists>ok bad. succeeded res = succeeded acc @ ok \<and> map failure_id (failed res) = map failure_id (failed acc) @ bad \<and>
    mset ok + mset bad = mset jids"
  using assms
proof (induction jids arbitrary: i acc s)
  case (Cons jid jids)
  obtain r t where act: "act i jid s = (r, t)" by fastforce
  show ?case
  proof (cases r)
    case (Inl e)
    with Cons.prems act have "run_batch act (Suc i) jids
        (acc\<lparr>failed := failed acc @ [\<lparr>failure_id = jid, failure_error = e\<rparr>]\<rparr>) t = (res, s')"
      by simp
    from Cons.IH [OF this] obtain ok bad where "succeeded res = succeeded acc @ ok"
      "map failure_id (failed res) = map failure_id (failed acc) @ jid # bad"
      "mset ok + mset bad = mset jids" by auto
    then show ?thesis by (intro exI [of _ ok] exI [of _ "jid # bad"]) simp
  next
    case (Inr u)
    with Cons.prems act have
      "run_batch act (Suc i) jids (acc\<lparr>succeeded := succeeded acc @ [jid]\<rparr>) t = (res, s')"
      by simp
    from Cons.IH [OF this] obtain ok bad where "succeeded res = succeeded acc @ jid # ok"
      "map failure_id (failed res) = map failure_id (failed acc) @ bad"
      "mset ok + mset bad = mset jids" by auto
    then show ?thesis by (intro exI [of _ "jid # ok"] exI [of _ bad]) simp
  qed
qed auto

locale batch_op =
  fixes act :: "nat \<Rightarrow> string \<Rightarrow> ('s, 'e, unit) op" and good :: "'s \<Rightarrow> bool"
  assumes keeps_good: "good s \<Longrightarrow> good (snd (act i jid s))"
begin

lemma run_keeps_good: "good s \<Longrightarrow> good (snd (run_batch act i jids acc s))"
proof (induction jids arbitrary: i acc s)
  case (Cons jid jids)
  from keeps_good [OF Cons.prems, of i jid] Cons.IH show ?case
    by (cases "act i jid s") (auto split: sum.split)
qed simp

end

text \<open>
  An action whose effect is known: which targets it accepts, and what it does to the list of
  jobs waiting. It refuses the others without effect, and what it does to one target does
  not change whether it accepts another.
\<close>

locale batch_exact = batch_op act good
  for act :: "nat \<Rightarrow> string \<Rightarrow> ('s, 'e, unit) op" and good :: "'s \<Rightarrow> bool" +
  fixes accept :: "'s \<Rightarrow> string \<Rightarrow> bool" and line :: "'s \<Rightarrow> string list"
    and place :: "string \<Rightarrow> string list \<Rightarrow> string list"
  assumes accepts: "good s \<Longrightarrow> jid \<noteq> [] \<Longrightarrow> accept s jid \<Longrightarrow>
      \<exists>s'. act i jid s = (Inr (), s') \<and> line s' = place jid (line s) \<and>
        (\<forall>other. other \<noteq> jid \<longrightarrow> accept s' other = accept s other)"
    and refuses: "good s \<Longrightarrow> jid \<noteq> [] \<Longrightarrow> \<not> accept s jid \<Longrightarrow> \<exists>e. act i jid s = (Inl e, s)"
begin

lemma run_exact:
  assumes "good s" "distinct jids" "[] \<notin> set jids"
  shows "\<exists>res s'. run_batch act i jids acc s = (res, s') \<and>
    succeeded res = succeeded acc @ filter (accept s) jids \<and>
    map failure_id (failed res) = map failure_id (failed acc) @ filter (\<lambda>x. \<not> accept s x) jids \<and>
    line s' = fold place (filter (accept s) jids) (line s)"
  using assms
proof (induction jids arbitrary: i acc s)
  case (Cons jid jids)
  show ?case
  proof (cases "accept s jid")
    case True
    from accepts [OF Cons.prems(1) _ True, of i] Cons.prems(3) obtain t where t: "act i jid s = (Inr (), t)"
      "line t = place jid (line s)" "\<And>x. x \<noteq> jid \<Longrightarrow> accept t x = accept s x" by auto
    have "good t" using keeps_good [OF Cons.prems(1), of i jid] t(1) by simp
    moreover have "\<And>x. x \<in> set jids \<Longrightarrow> accept t x = accept s x"
      using Cons.prems(2) t(3) by (metis distinct.simps(2))
    then have "filter (accept t) jids = filter (accept s) jids"
        "filter (\<lambda>x. \<not> accept t x) jids = filter (\<lambda>x. \<not> accept s x) jids"
      by (simp_all cong: filter_cong)
    ultimately show ?thesis
      using Cons.IH [of t "Suc i" "acc\<lparr>succeeded := succeeded acc @ [jid]\<rparr>"] Cons.prems(2,3) True t(1,2)
      by auto
  next
    case False
    from refuses [OF Cons.prems(1) _ False, of i] Cons.prems(3)
    obtain e where e: "act i jid s = (Inl e, s)" by auto
    then show ?thesis
      using Cons.IH [of s "Suc i" "acc\<lparr>failed := failed acc @ [\<lparr>failure_id = jid, failure_error = e\<rparr>]\<rparr>"]
        Cons.prems False by auto
  qed
qed simp

end

section \<open>The three actions meet the contracts\<close>

interpretation any_urgent: batch_op "\<lambda>i jid. reorder (flts i) jid []" wf_queue for flts
  by unfold_locales (rule keepsD [OF reorder_wf])

interpretation any_retry: batch_op "\<lambda>i jid. bnd (retry (flts i) jid) (\<lambda>_. ret ())" wf_queue for flts
  by unfold_locales (rule keepsD [OF keeps_bnd [OF retry_wf]], auto)

interpretation any_remove: batch_op "\<lambda>i jid. remove (flts i) jid" wf_queue for flts
  by unfold_locales (rule keepsD [OF remove_wf])

text \<open>Identifiers as the callers write them.\<close>

definition waiting_ids :: "localQueue \<Rightarrow> string list" where
  "waiting_ids q = map local_id (waiting q)"

definition named :: "(status \<Rightarrow> bool) \<Rightarrow> localQueue \<Rightarrow> string \<Rightarrow> bool" where
  "named p q jid \<longleftrightarrow> (\<exists>r \<in> set (jobs q). p (status r) \<and> jid = local_id (sequence r))"

lemma map_remove1_inj:
  "inj_on f (insert x (set xs)) \<Longrightarrow> map f (remove1 x xs) = remove1 (f x) (map f xs)"
  by (induction xs) (auto simp: inj_on_def)

lemma local_id_inj_on: "wf_queue q \<Longrightarrow> inj_on local_id (sequence ` set (jobs q))"
proof (rule inj_onI)
  fix m n assume wf: "wf_queue q" and m: "m \<in> sequence ` set (jobs q)" and n: "n \<in> sequence ` set (jobs q)"
    and eq: "local_id m = local_id n"
  have "0 \<le> m" "0 \<le> n" using m n wf_sequence_range [OF wf] by fastforce+
  with eq show "m = n" by (simp add: local_id_inj)
qed

lemma waiting_ids_remove1:
  assumes "wf_queue q" "r \<in> set (jobs q)"
  shows "map local_id (remove1 (sequence r) (waiting q)) = remove1 (local_id (sequence r)) (waiting_ids q)"
  unfolding waiting_ids_def
  using assms(2) by (intro map_remove1_inj inj_on_subset [OF local_id_inj_on [OF assms(1)]])
    (auto simp: set_waiting)

lemma named_ids: "named p q jid \<longleftrightarrow> (\<exists>st. p st \<and> jid \<in> local_id ` ids st q)"
  by (auto simp: named_def ids_def)

lemma waiting_ids_named: "jid \<in> set (waiting_ids q) \<longleftrightarrow> named (\<lambda>st. st = Queued) q jid"
  by (auto simp: waiting_ids_def set_waiting named_def queued_def)

lemma local_id_nonempty [simp]: "local_id n \<noteq> []"
  by (simp add: local_id_def)

lemma urgent_ok:
  assumes wf: "wf_queue q" and jid: "jid \<in> set (waiting_ids q)"
  shows "\<exists>q'. reorder no_faults jid [] q = (Inr (), q') \<and> waiting_ids q' = jid # remove1 jid (waiting_ids q)"
proof -
  from jid obtain r where r: "r \<in> set (jobs q)" "queued r" "jid = local_id (sequence r)"
    by (auto simp: waiting_ids_def set_waiting)
  from reorder_first_ok [OF wf, of "sequence r"] r(1,2) obtain q' where
    q': "reorder no_faults (local_id (sequence r)) [] q = (Inr (), q')"
      "abs_queue q' = (abs_queue q)\<lparr>s_waiting := sequence r # remove1 (sequence r) (waiting q)\<rparr>"
    by (auto simp: set_waiting)
  then have "waiting q' = sequence r # remove1 (sequence r) (waiting q)"
    by (simp add: abs_queue_def)
  then show ?thesis
    using q'(1) waiting_ids_remove1 [OF wf r(1)] r(3) by (auto simp: waiting_ids_def [of q'])
qed

lemma error_of_not_ok: "(\<And>s'. m s \<noteq> (Inr (), s')) \<Longrightarrow> \<exists>e s'. m s = (Inl e, s')"
  by (cases "m s"; cases "fst (m s)") auto

lemma urgent_refused:
  assumes "jid \<notin> set (waiting_ids q)"
  shows "\<exists>e. reorder no_faults jid [] q = (Inl e, q)"
proof -
  have "reorder no_faults jid [] q \<noteq> (Inr (), q')" for q'
  proof
    assume "reorder no_faults jid [] q = (Inr (), q')"
    then obtain n r where "localSequence jid = Inr n" "row_of n (jobs q) = Some r" "queued r"
      by (auto simp: reorder_first_Inr)
    then have "jid \<in> set (waiting_ids q)"
      using row_of_Some [of n "jobs q" r] by (auto simp: localSequence_iff waiting_ids_def set_waiting)
    with assms show False by simp
  qed
  then obtain e q' where "reorder no_faults jid [] q = (Inl e, q')"
    using error_of_not_ok [of "reorder no_faults jid []" q] by blast
  then show ?thesis using reorder_error_unchanged by blast
qed

interpretation exact_urgent: batch_exact "\<lambda>i jid. reorder no_faults jid []" wf_queue
  "\<lambda>q jid. jid \<in> set (waiting_ids q)" waiting_ids "\<lambda>jid xs. jid # remove1 jid xs"
proof unfold_locales
  fix q jid i
  assume wf: "wf_queue q" and jid: "jid \<in> set (waiting_ids q)"
  from urgent_ok [OF this] obtain q' where
    q': "reorder no_faults jid [] q = (Inr (), q')" "waiting_ids q' = jid # remove1 jid (waiting_ids q)" by blast
  moreover have "distinct (waiting_ids q)"
    using distinct_waiting [OF wf] local_id_inj_on [OF wf]
    by (auto simp: waiting_ids_def distinct_map set_waiting intro: inj_on_subset)
  ultimately show "\<exists>q'. reorder no_faults jid [] q = (Inr (), q') \<and>
      waiting_ids q' = jid # remove1 jid (waiting_ids q) \<and>
      (\<forall>other. other \<noteq> jid \<longrightarrow> (other \<in> set (waiting_ids q')) = (other \<in> set (waiting_ids q)))"
    by auto
qed (simp_all add: urgent_refused keepsD [OF reorder_wf])

text \<open>\<open>retry\<close> of one identifier.\<close>

lemma retry_target_one:
  "jid \<noteq> [] \<Longrightarrow> retry_target no_faults jid q = (case localSequence jid of Inl e \<Rightarrow> (Inl e, q)
    | Inr n \<Rightarrow> (case row_of n (jobs q) of None \<Rightarrow> (Inl NoRows, q)
      | Some r \<Rightarrow> if status r \<noteq> Failed then (Inl OnlyFailedRetried, q) else (Inr (Some n), q)))"
  by (simp add: retry_target_def bnd_def split: sum.splits option.splits)

lemma distinct_singleton_set: "distinct xs \<Longrightarrow> set xs = {a} \<Longrightarrow> xs = [a]"
  by (cases xs; cases "tl xs") auto

lemma retry_rows_one:
  assumes wf: "wf_queue q" and r: "r \<in> set (jobs q)" "status r = Failed"
  shows "retry_rows (Some (sequence r)) (jobs q) = [sequence r]"
proof (rule distinct_singleton_set)
  show "distinct (retry_rows (Some (sequence r)) (jobs q))" by (rule retry_rows_failed(1) [OF wf])
  show "set (retry_rows (Some (sequence r)) (jobs q)) = {sequence r}"
    using r by (auto simp: retry_rows_def)
qed

lemma retry_one_ok:
  assumes wf: "wf_queue q" and r: "r \<in> set (jobs q)" "status r = Failed"
  shows "retry no_faults (local_id (sequence r)) q = (Inr 1, requeue (sequence r) q) \<and>
    abs_queue (requeue (sequence r) q) = (abs_queue q)\<lparr>s_waiting := waiting q @ [sequence r],
      s_failed := ids Failed q - {sequence r}\<rparr>"
proof
  have "retry_target no_faults (local_id (sequence r)) q = (Inr (Some (sequence r)), q)"
    using r by (simp add: retry_target_one localSequence_local_id [OF wf] row_of_eq [OF wf])
  then show "retry no_faults (local_id (sequence r)) q = (Inr 1, requeue (sequence r) q)"
    by (simp add: retry_eq_Inr retry_rows_one [OF wf r])
  have "sequence r \<in> ids Failed q" using r by (auto simp: ids_def)
  with requeue_fold [OF wf, of "[sequence r]"]
  show "abs_queue (requeue (sequence r) q) = (abs_queue q)\<lparr>s_waiting := waiting q @ [sequence r],
      s_failed := ids Failed q - {sequence r}\<rparr>" by simp
qed

lemma retry_one_refused:
  assumes "jid \<noteq> []" "\<not> named (\<lambda>st. st = Failed) q jid"
  shows "\<exists>e. retry no_faults jid q = (Inl e, q)"
proof -
  have "\<exists>e. retry_target no_faults jid q = (Inl e, q)"
  proof (cases "localSequence jid")
    case (Inr n)
    then have jid: "jid = local_id n" by (simp add: localSequence_iff)
    show ?thesis
    proof (cases "row_of n (jobs q)")
      case (Some r)
      with assms(2) jid row_of_Some [OF Some] have "status r \<noteq> Failed" by (auto simp: named_def)
      then show ?thesis using assms(1) Inr Some by (simp add: retry_target_one)
    qed (use assms(1) Inr in \<open>simp add: retry_target_one\<close>)
  qed (use assms(1) in \<open>simp add: retry_target_one\<close>)
  then show ?thesis by (auto simp: retry_def in_tx_def bnd_def)
qed

lemma named_row:
  assumes "named p q jid"
  obtains r where "r \<in> set (jobs q)" "p (status r)" "jid = local_id (sequence r)"
  using assms by (auto simp: named_def)

lemma named_ids_change:
  assumes wf: "wf_queue q" and r: "r \<in> set (jobs q)"
    and same: "\<And>st. p st \<Longrightarrow> ids st q' - {sequence r} = ids st q - {sequence r}"
    and jid: "jid \<noteq> local_id (sequence r)"
  shows "named p q' jid \<longleftrightarrow> named p q jid"
proof -
  have "jid \<in> local_id ` ids st q' \<longleftrightarrow> jid \<in> local_id ` ids st q" if "p st" for st
    using same [OF that] jid by blast
  then show ?thesis unfolding named_ids by blast
qed

interpretation exact_retry: batch_exact "\<lambda>i jid. bnd (retry no_faults jid) (\<lambda>_. ret ())" wf_queue
  "named (\<lambda>st. st = Failed)" waiting_ids "\<lambda>jid xs. xs @ [jid]"
proof unfold_locales
  fix q jid i
  assume wf: "wf_queue q" and "jid \<noteq> []" and "named (\<lambda>st. st = Failed) q jid"
  then obtain r where r: "r \<in> set (jobs q)" "status r = Failed" "jid = local_id (sequence r)"
    by (auto elim: named_row)
  let ?q = "requeue (sequence r) q"
  note ok = retry_one_ok [OF wf r(1,2)]
  then have w: "waiting_ids ?q = waiting_ids q @ [jid]" and f: "ids Failed ?q = ids Failed q - {sequence r}"
    by (simp_all add: abs_queue_def waiting_ids_def r(3))
  have "named (\<lambda>st. st = Failed) ?q other = named (\<lambda>st. st = Failed) q other" if "other \<noteq> jid" for other
    using that f r(3) by (intro named_ids_change [OF wf r(1)]) auto
  then show "\<exists>s'. bnd (retry no_faults jid) (\<lambda>_. ret ()) q = (Inr (), s') \<and>
      waiting_ids s' = waiting_ids q @ [jid] \<and>
      (\<forall>other. other \<noteq> jid \<longrightarrow> named (\<lambda>st. st = Failed) s' other = named (\<lambda>st. st = Failed) q other)"
    using ok w r(3) by (intro exI [of _ ?q]) simp
next
  fix q jid i
  assume "jid \<noteq> []" "\<not> named (\<lambda>st. st = Failed) q jid"
  then show "\<exists>e. bnd (retry no_faults jid) (\<lambda>_. ret ()) q = (Inl e, q)"
    using retry_one_refused by fastforce
qed

text \<open>\<open>remove\<close> of one identifier.\<close>

lemma remove_ok:
  assumes wf: "wf_queue q" and r: "r \<in> set (jobs q)" "\<not> running r"
  shows "remove no_faults (local_id (sequence r)) q = (Inr (), remove_row (sequence r) q)"
proof -
  have "filter (\<lambda>x. sequence x = sequence r \<and> \<not> running x) (jobs q) \<noteq> []"
    using r by (auto simp: filter_empty_conv)
  then show ?thesis
    by (simp add: remove_def bnd_def localSequence_local_id [OF wf r(1)] remove_row_def delete_where_def)
qed

lemma remove_refused:
  assumes "\<not> named (\<lambda>st. st \<noteq> Running) q jid"
  shows "\<exists>e. remove no_faults jid q = (Inl e, q)"
proof (cases "localSequence jid")
  case (Inr n)
  then have jid: "jid = local_id n" by (simp add: localSequence_iff)
  have none: "\<not> (sequence r = n \<and> \<not> running r)" if "r \<in> set (jobs q)" for r
    using assms that jid by (auto simp: named_def running_def)
  then have "snd (delete_where (\<lambda>r. sequence r = n \<and> \<not> running r) q) = q"
      "fst (delete_where (\<lambda>r. sequence r = n \<and> \<not> running r) q) = 0"
    by (auto simp: delete_where_none) (simp add: delete_where_def filter_empty_conv)
  with Inr show ?thesis by (simp add: remove_def bnd_def)
qed (simp add: remove_def)

interpretation exact_remove: batch_exact "\<lambda>i jid. remove no_faults jid" wf_queue
  "named (\<lambda>st. st \<noteq> Running)" waiting_ids remove1
proof unfold_locales
  fix q jid i
  assume wf: "wf_queue q" and "jid \<noteq> []" and "named (\<lambda>st. st \<noteq> Running) q jid"
  then obtain r where r: "r \<in> set (jobs q)" "\<not> running r" "jid = local_id (sequence r)"
    by (auto elim: named_row simp: running_def)
  let ?q = "remove_row (sequence r) q"
  have "sequence r \<notin> ids Running q"
    using r(1,2) wf_sequence_inj [OF wf r(1)] by (auto simp: ids_def running_def)
  note abs = abs_remove_row [OF wf this]
  then have w: "waiting_ids ?q = remove1 jid (waiting_ids q)"
    using waiting_ids_remove1 [OF wf r(1)] by (simp add: abs_queue_def waiting_ids_def [of ?q] r(3))
  have "ids st ?q - {sequence r} = ids st q - {sequence r}" for st
    by (auto simp: remove_row_def ids_delete) (auto simp: ids_def)
  then have "named (\<lambda>st. st \<noteq> Running) ?q other = named (\<lambda>st. st \<noteq> Running) q other"
    if "other \<noteq> jid" for other
    using that r(3) by (intro named_ids_change [OF wf r(1)]) simp_all
  then show "\<exists>s'. remove no_faults jid q = (Inr (), s') \<and> waiting_ids s' = remove1 jid (waiting_ids q) \<and>
      (\<forall>other. other \<noteq> jid \<longrightarrow>
        named (\<lambda>st. st \<noteq> Running) s' other = named (\<lambda>st. st \<noteq> Running) q other)"
    using remove_ok [OF wf r(1,2)] w r(3) by (intro exI [of _ ?q]) simp
qed (simp add: remove_refused)

section \<open>Properties\<close>

lemma fold_front:
  assumes "distinct ok" "distinct xs"
  shows "fold (\<lambda>jid ys. jid # remove1 jid ys) (rev ok) xs = ok @ filter (\<lambda>x. x \<notin> set ok) xs"
  using assms
proof (induction ok)
  case (Cons a ok)
  have "remove1 a (ok @ filter (\<lambda>x. x \<notin> set ok) xs) =
      ok @ filter (\<lambda>x. x \<noteq> a) (filter (\<lambda>x. x \<notin> set ok) xs)"
    using Cons.prems by (simp add: remove1_append distinct_remove1_removeAll removeAll_filter_not_eq eq_commute)
  then show ?case
    using Cons by (simp add: conj_commute)
qed simp

lemma fold_back: "fold (\<lambda>jid ys. ys @ [jid]) ok xs = xs @ ok"
  by (induction ok arbitrary: xs) simp_all

lemma fold_remove1: "distinct xs \<Longrightarrow> fold remove1 ok xs = filter (\<lambda>x. x \<notin> set ok) xs"
  by (induction ok arbitrary: xs)
    (auto simp: distinct_remove1_removeAll removeAll_filter_not_eq intro: filter_cong)

lemma distinct_waiting_ids: "wf_queue q \<Longrightarrow> distinct (waiting_ids q)"
  using distinct_waiting [of q] local_id_inj_on [of q]
  by (auto simp: waiting_ids_def distinct_map set_waiting intro: inj_on_subset)

definition batch_ok :: "string list \<Rightarrow> bool" where
  "batch_ok jids \<longleftrightarrow> jids \<noteq> [] \<and> length jids \<le> 100 \<and> list_all batch_id_ok jids"

lemma batch_targets_nonempty: "list_all batch_id_ok jids \<Longrightarrow> [] \<notin> set (firsts (map trim_space jids))"
  by (auto simp: list_all_iff batch_id_ok_def)

lemma batch_targets: "batch_ok jids \<Longrightarrow> unique_ids jids {} [] = Inr (firsts (map trim_space jids))"
  by (simp add: batch_ok_def unique_ids_eq)

text \<open>C16. \<open>jobd urgent a b c\<close> puts its jobs at the front of the queue in the order of the
  arguments: the waiting ones among them are reported as succeeded, in argument order, and
  become the head of the queue in that order; every other waiting job follows in its old
  order; the rest are reported as failed and change nothing. Repeated arguments count once.\<close>

theorem urgent_batch_keeps_argument_order:
  assumes wf: "wf_queue q" and ok: "batch_ok jids"
  defines "us \<equiv> firsts (map trim_space jids)"
  shows "\<exists>res q'. batchJobs (\<lambda>_. no_faults) jids ''urgent'' q = (Inr res, q') \<and>
    succeeded res = filter (\<lambda>x. x \<in> set (waiting_ids q)) us \<and>
    map failure_id (failed res) = filter (\<lambda>x. x \<notin> set (waiting_ids q)) us \<and>
    waiting_ids q' = succeeded res @ filter (\<lambda>x. x \<notin> set us) (waiting_ids q)"
proof -
  let ?act = "\<lambda>i jid. reorder no_faults jid []"
  have us: "distinct (rev us)" "[] \<notin> set (rev us)"
    using ok batch_targets_nonempty by (auto simp: us_def batch_ok_def)
  from exact_urgent.run_exact [OF wf us, of 0 no_result] obtain res q' where
    run: "run_batch ?act 0 (rev us) no_result q = (res, q')"
      "succeeded res = filter (\<lambda>x. x \<in> set (waiting_ids q)) (rev us)"
      "map failure_id (failed res) = filter (\<lambda>x. x \<notin> set (waiting_ids q)) (rev us)"
      "waiting_ids q' = fold (\<lambda>jid ys. jid # remove1 jid ys)
        (filter (\<lambda>x. x \<in> set (waiting_ids q)) (rev us)) (waiting_ids q)"
    by (auto simp: no_result_def)
  have "waiting_ids q' = filter (\<lambda>x. x \<in> set (waiting_ids q)) us @
      filter (\<lambda>x. x \<notin> set us) (waiting_ids q)"
    using run(4) fold_front [of "filter (\<lambda>x. x \<in> set (waiting_ids q)) us"] us(1)
      distinct_waiting_ids [OF wf]
    by (auto simp: rev_filter intro: filter_cong)
  then show ?thesis
    using run ok batch_targets [OF ok]
    by (simp add: batchJobs_def batch_ok_def batch_action_def us_def [symmetric] rev_filter
        rev_map [symmetric])
qed

theorem urgent_batch_keeps_argument_order_witness:
  "\<exists>res q'. batchJobs (\<lambda>_. no_faults) [local_id 2, local_id 9, local_id 2] ''urgent'' two_waiting = (Inr res, q') \<and>
    succeeded res = [local_id 2] \<and> waiting_ids q' = [local_id 2, local_id 1]"
proof -
  have ids: "local_id 2 = ''local-2''" "local_id 9 = ''local-9''" "local_id 1 = ''local-1''"
    by code_simp+
  have trim: "trim_space ''local-2'' = ''local-2''" "trim_space ''local-9'' = ''local-9''"
    by code_simp+
  have "batch_ok [local_id 2, local_id 9, local_id 2]"
    by (simp add: batch_ok_def batch_id_ok_def ids trim)
  from urgent_batch_keeps_argument_order [OF two_waiting_wf this] show ?thesis
    by (auto simp: waiting_ids_def ids trim)
qed



text \<open>C36. Whatever the driver does, a batch that is accepted reports each distinct target
  exactly once and leaves a well-formed queue; one that is refused (no targets, more than
  100, an empty or overlong identifier, an unknown action) changes nothing.\<close>

theorem batches_report_every_target:
  assumes wf: "wf_queue q"
  shows "case batchJobs flts jids action q of
      (Inl e, q') \<Rightarrow> q' = q
    | (Inr res, q') \<Rightarrow> wf_queue q' \<and> batch_ok jids \<and>
        mset (succeeded res) + mset (map failure_id (failed res)) = mset (firsts (map trim_space jids))"
proof (cases "batch_ok jids \<and> batch_action action flts \<noteq> None")
  case False
  then show ?thesis
    by (auto simp: batchJobs_def batch_ok_def unique_ids_eq)
next
  case True
  then obtain act where act: "batch_action action flts = Some act" and ok: "batch_ok jids" by auto
  have keep: "wf_queue (snd (run_batch act 0 us no_result q))" for us
    using act any_urgent.run_keeps_good [OF wf] any_retry.run_keeps_good [OF wf]
      any_remove.run_keeps_good [OF wf]
    by (auto simp: batch_action_def split: if_splits)
  let ?us = "firsts (map trim_space jids)"
  obtain res q' where run: "run_batch act 0 (if action = ''urgent'' then rev ?us else ?us) no_result q = (res, q')"
    by fastforce
  from run_batch_reports [OF this]
  have "mset (succeeded res) + mset (map failure_id (failed res)) = mset ?us"
    by (auto simp: no_result_def split: if_splits)
  then show ?thesis
    using run keep [of "if action = ''urgent'' then rev ?us else ?us"] act ok batch_targets [OF ok]
    by (auto simp: batchJobs_def batch_ok_def Let_def rev_map [symmetric])
qed

theorem batches_report_every_target_witness:
  "case batchJobs (\<lambda>_. no_faults) [local_id 1] ''pause'' two_waiting of
      (Inl e, q') \<Rightarrow> q' = two_waiting
    | (Inr res, q') \<Rightarrow> wf_queue q' \<and> batch_ok [local_id 1] \<and>
        mset (succeeded res) + mset (map failure_id (failed res)) = mset (firsts (map trim_space [local_id 1]))"
  by (rule batches_report_every_target [OF two_waiting_wf])

end
