(* ===== verification/LocalSocket.thy ===== *)
theory LocalSocket
  imports LocalBatch
begin

text \<open>
  The control socket of the worker, worker/local_socket.go: the routes, the wrapper that
  every handler runs in, and the handlers. A request comes with its method, the segments of
  its path and its query already split (net/http does that), and with the JSON values of its
  body, in order, ending well or at the first syntax or read error. Replies are a status and
  either the value that is encoded or the error whose text is sent.

  The callback \<open>q.cancel\<close> acts on a state \<open>'c\<close> of the worker's (worker/active_job.go); it is
  an argument here.
\<close>

section \<open>Request bodies\<close>

datatype json = JNull | JBool bool | JNumber string | JString string | JArray "json list" |
  JObject "(string \<times> json) list"

text \<open>The values of the body, and whether they end at EOF (as opposed to an error).\<close>

record body =
  body_values :: "json list"
  clean_end :: bool

text \<open>
  \<open>Decode\<close> into the fields of a request struct. A member's name matches a field's up to
  Unicode case folding, which for these ASCII names is: capital letters, the long s (383) and
  the Kelvin sign (8490). \<open>DisallowUnknownFields\<close> refuses the other names.
\<close>

definition fold_rune :: "rune \<Rightarrow> rune" where
  "fold_rune r = (if 65 \<le> r \<and> r \<le> 90 then r + 32
     else if r = 383 then 115 else if r = 8490 then 107 else r)"

definition same_name :: "string \<Rightarrow> string \<Rightarrow> bool" where
  "same_name a b \<longleftrightarrow> map fold_rune (runes a) = map fold_rune (runes b)"

text \<open>A \<open>string\<close> field: \<open>null\<close> leaves it as it is.\<close>

definition decode_string :: "string \<Rightarrow> json \<Rightarrow> string option" where
  "decode_string old v = (case v of JString s \<Rightarrow> Some s | JNull \<Rightarrow> Some old | _ \<Rightarrow> None)"

text \<open>
  A \<open>[]string\<close> field over the backing array an earlier member of the same name left: element
  \<open>i\<close> is decoded into the slot \<open>i\<close>, so that \<open>null\<close> keeps what the slot holds.
\<close>

fun decode_elements :: "string list \<Rightarrow> json list \<Rightarrow> string list option" where
  "decode_elements backing [] = Some []"
| "decode_elements backing (v # vs) =
     (case (decode_string (case backing of [] \<Rightarrow> [] | b # _ \<Rightarrow> b) v, decode_elements (tl backing) vs) of
       (Some s, Some ss) \<Rightarrow> Some (s # ss) | _ \<Rightarrow> None)"

text \<open>The slice and its backing array; an empty array and \<open>null\<close> replace both.\<close>

definition decode_strings :: "string list \<times> string list \<Rightarrow> json \<Rightarrow> (string list \<times> string list) option" where
  "decode_strings old v = (case v of
     JNull \<Rightarrow> Some ([], [])
   | JArray [] \<Rightarrow> Some ([], [])
   | JArray vs \<Rightarrow> (case decode_elements (snd old) vs of
       None \<Rightarrow> None | Some ss \<Rightarrow> Some (ss, ss @ drop (length ss) (snd old)))
   | _ \<Rightarrow> None)"

text \<open>\<open>struct { Command []string }\<close> or \<open>struct { IDs []string }\<close>, whose one field is \<open>name\<close>.\<close>

fun decode_list_members :: "string \<Rightarrow> string list \<times> string list \<Rightarrow> (string \<times> json) list \<Rightarrow> string list option" where
  "decode_list_members name old [] = Some (fst old)"
| "decode_list_members name old ((k, v) # ms) =
     (if same_name k name then
        (case decode_strings old v of None \<Rightarrow> None | Some new \<Rightarrow> decode_list_members name new ms)
      else None)"

text \<open>\<open>struct { First, Second string }\<close>.\<close>

fun decode_swap_members :: "string \<Rightarrow> string \<Rightarrow> (string \<times> json) list \<Rightarrow> (string \<times> string) option" where
  "decode_swap_members a b [] = Some (a, b)"
| "decode_swap_members a b ((k, v) # ms) =
     (if same_name k ''first'' then
        (case decode_string a v of None \<Rightarrow> None | Some a' \<Rightarrow> decode_swap_members a' b ms)
      else if same_name k ''second'' then
        (case decode_string b v of None \<Rightarrow> None | Some b' \<Rightarrow> decode_swap_members a b' ms)
      else None)"

text \<open>
  \<open>decodeLocalBody\<close>: one value, then the end of the body. The first \<open>null\<close> is a value that
  sets nothing.
\<close>

definition decodeLocalBody :: "((string \<times> json) list \<Rightarrow> 'a option) \<Rightarrow> body \<Rightarrow> lq_error + 'a" where
  "decodeLocalBody assign b = (case body_values b of
     [] \<Rightarrow> Inl BadBody
   | v # rest \<Rightarrow>
      (case (case v of JNull \<Rightarrow> assign [] | JObject ms \<Rightarrow> assign ms | _ \<Rightarrow> None) of
         None \<Rightarrow> Inl BadBody
       | Some x \<Rightarrow> if rest = [] \<and> clean_end b then Inr x else Inl BadBody))"

definition decode_list :: "string \<Rightarrow> body \<Rightarrow> lq_error + string list" where
  "decode_list name = decodeLocalBody (decode_list_members name ([], []))"

definition decode_swap :: "body \<Rightarrow> lq_error + (string \<times> string)" where
  "decode_swap = decodeLocalBody (decode_swap_members [] [])"

section \<open>Routes\<close>

datatype route = RHealth | RSubmit | RList | RLatest | RGet string | RRemove string | RCancel string |
  RUrgent string | RClear | RRemoveAll | RBatch string | RRetryAll | RRetry string | RSwap | RStop

text \<open>
  The patterns of \<open>routes\<close> and of \<open>openLocalSocket\<close>. \<open>ServeMux\<close> prefers a literal segment to a
  wildcard, lets GET patterns serve HEAD, and matches no empty wildcard; what no pattern
  matches (\<open>None\<close>) it answers itself.
\<close>

definition route :: "string \<Rightarrow> string list \<Rightarrow> route option" where
  "route verb path =
     (if verb = ''GET'' \<or> verb = ''HEAD'' then
        (case path of
           [a] \<Rightarrow> if a = ''health'' then Some RHealth else if a = ''jobs'' then Some RList else None
         | [a, b] \<Rightarrow> if a \<noteq> ''jobs'' \<or> b = [] then None
             else if b = ''latest'' then Some RLatest else Some (RGet b)
         | _ \<Rightarrow> None)
      else if verb = ''DELETE'' then
        (case path of [a, b] \<Rightarrow> if a = ''jobs'' \<and> b \<noteq> [] then Some (RRemove b) else None | _ \<Rightarrow> None)
      else if verb = ''POST'' then
        (case path of
           [a] \<Rightarrow> if a = ''jobs'' then Some RSubmit else None
         | [a, b] \<Rightarrow>
             if a = ''daemon'' then (if b = ''stop'' then Some RStop else None)
             else if a \<noteq> ''jobs'' then None
             else if b = ''clear'' then Some RClear
             else if b = ''remove-all'' then Some RRemoveAll
             else if b \<in> {''retry'', ''urgent'', ''remove''} then Some (RBatch b)
             else if b = ''retry-all'' then Some RRetryAll
             else if b = ''swap'' then Some RSwap else None
         | [a, b, c] \<Rightarrow>
             if a \<noteq> ''jobs'' \<or> b = [] then None
             else if c = ''cancel'' then Some (RCancel b)
             else if c = ''urgent'' then Some (RUrgent b)
             else if c = ''retry'' then Some (RRetry b) else None
         | _ \<Rightarrow> None)
      else None)"

section \<open>Handlers\<close>

record request =
  req_method :: string
  req_path :: "string list"
  req_query :: "(string \<times> string) list"
  req_body :: body
  req_time :: int
  req_faults :: "nat \<Rightarrow> faults"

datatype response = ROk | RStopping | RJob job | RJobs "job list" | RNothing | RRemoved removeAllResult |
  RRetried nat | RBatched "lq_error batchResult"

text \<open>\<open>r.URL.Query().Get(name)\<close>.\<close>

definition query_get :: "(string \<times> string) list \<Rightarrow> string \<Rightarrow> string" where
  "query_get query name = (case map_of query name of None \<Rightarrow> [] | Some v \<Rightarrow> v)"

text \<open>
  One iteration of the loop over \<open>limit\<close> and \<open>offset\<close>: \<open>strconv.Atoi\<close> of a value that is there.
  The order of the Go map does not matter, since both failures are the same error.
\<close>

definition page_value :: "(string \<times> string) list \<Rightarrow> string \<Rightarrow> int \<Rightarrow> int option" where
  "page_value query name dflt =
     (if query_get query name = [] then Some dflt else parse_int64 (query_get query name))"

definition page_of :: "(string \<times> string) list \<Rightarrow> lq_error + (int \<times> int)" where
  "page_of query = (case (page_value query ''limit'' 100, page_value query ''offset'' 0) of
     (Some l, Some off) \<Rightarrow> if l < 1 \<or> 100 < l \<or> off < 0 then Inl InvalidPagination else Inr (l, off)
   | _ \<Rightarrow> Inl InvalidPagination)"

text \<open>The queue beside the state of the callback.\<close>

type_synonym 'c served = "localQueue \<times> 'c"

definition on_queue :: "'a lq_op \<Rightarrow> ('a \<Rightarrow> response) \<Rightarrow> ('c served, lq_error, response) op" where
  "on_queue m f = (\<lambda>(q, c). case m q of
     (Inl e, q') \<Rightarrow> (Inl e, (q', c)) | (Inr v, q') \<Rightarrow> (Inr (f v), (q', c)))"

abbreviation nothing :: "unit \<Rightarrow> response" where
  "nothing \<equiv> \<lambda>_. RNothing"

definition handle :: "(string \<Rightarrow> 'c \<Rightarrow> 'c) option \<Rightarrow> request \<Rightarrow> route \<Rightarrow> ('c served, lq_error, response) op" where
  "handle cancel r rt = (let flt = req_faults r 0 in case rt of
     RHealth \<Rightarrow> ret ROk
   | RSubmit \<Rightarrow> bnd (lift_sum (decode_list ''command'' (req_body r))) (\<lambda>argv.
       on_queue (submit flt (req_time r) argv) RJob)
   | RList \<Rightarrow> bnd (lift_sum (page_of (req_query r))) (\<lambda>(l, off). on_queue (list_jobs flt l off) RJobs)
   | RLatest \<Rightarrow> on_queue (latest flt (query_get (req_query r) ''kind'')) RJob
   | RGet jid \<Rightarrow> on_queue (get_job flt jid) RJob
   | RRemove jid \<Rightarrow> on_queue (remove flt jid) nothing
   | RCancel jid \<Rightarrow> bnd (requestCancel flt cancel jid) (\<lambda>_. ret RNothing)
   | RUrgent jid \<Rightarrow> on_queue (reorder flt jid []) nothing
   | RClear \<Rightarrow> on_queue (clear flt) nothing
   | RRemoveAll \<Rightarrow> on_queue (removeAll flt) RRemoved
   | RBatch action \<Rightarrow> bnd (lift_sum (decode_list ''ids'' (req_body r))) (\<lambda>jids.
       on_queue (batchJobs (req_faults r) jids action) RBatched)
   | RRetryAll \<Rightarrow> on_queue (retry flt []) RRetried
   | RRetry jid \<Rightarrow> on_queue (retry flt jid) RRetried
   | RSwap \<Rightarrow> bnd (lift_sum (decode_swap (req_body r))) (\<lambda>(a, b).
       if a = [] \<or> b = [] then fail SwapNeedsTwo else on_queue (reorder flt a b) nothing)
   | RStop \<Rightarrow> ret RStopping)"

section \<open>The server\<close>

text \<open>
  The queue, the callback's state, and whether the worker's context has been cancelled.
\<close>

record 'c server =
  srv_queue :: localQueue
  srv_cancel :: 'c
  stopping :: bool

datatype reply = MuxAnswer | Reply nat "(lq_error + response) option"

definition status_of :: "lq_error \<Rightarrow> nat" where
  "status_of e = (if e = NoRows then 404 else 400)"

text \<open>\<open>POST /daemon/stop\<close> answers, and cancels the worker's context.\<close>

definition daemon_stop :: "'c server \<Rightarrow> reply \<times> 'c server" where
  [simp]: "daemon_stop s = (Reply 200 (Some (Inr RStopping)), s\<lparr>stopping := True\<rparr>)"

text \<open>
  \<open>register\<close>'s wrapper. A stopping worker answers 503 and touches nothing. \<open>POST /daemon/stop\<close>
  is not registered through it: it always answers, then cancels the context.
\<close>

definition serve :: "(string \<Rightarrow> 'c \<Rightarrow> 'c) option \<Rightarrow> request \<Rightarrow> 'c server \<Rightarrow> reply \<times> 'c server" where
  "serve cancel r s = (case route (req_method r) (req_path r) of
     None \<Rightarrow> (MuxAnswer, s)
   | Some RStop \<Rightarrow> daemon_stop s
   | Some rt \<Rightarrow>
      if stopping s then (Reply 503 None, s)
      else (case handle cancel r rt (srv_queue s, srv_cancel s) of (res, (q', c')) \<Rightarrow>
        (Reply (case res of Inl e \<Rightarrow> status_of e | Inr _ \<Rightarrow> 200) (Some res),
         s\<lparr>srv_queue := q', srv_cancel := c'\<rparr>)))"

section \<open>Every request is a sequence of client operations\<close>

lemma lq_execs_append: "lq_execs (cs @ ds) q = lq_execs ds (lq_execs cs q)"
  by (induction cs q rule: lq_execs.induct) simp_all

definition client_reaches :: "localQueue \<Rightarrow> localQueue \<Rightarrow> bool" where
  "client_reaches q q' \<longleftrightarrow> (\<exists>cs. list_all (\<lambda>(flt, c). client_call c) cs \<and> q' = lq_execs cs q)"

lemma client_reaches_refl [simp]: "client_reaches q q"
  by (auto simp: client_reaches_def intro: exI [of _ "[]"])

lemma client_reaches_trans:
  assumes "client_reaches p q" "client_reaches q r"
  shows "client_reaches p r"
proof -
  from assms obtain cs ds where "list_all (\<lambda>(flt, c). client_call c) cs" "q = lq_execs cs p"
    "list_all (\<lambda>(flt, c). client_call c) ds" "r = lq_execs ds q" by (auto simp: client_reaches_def)
  then show ?thesis
    unfolding client_reaches_def by (intro exI [of _ "cs @ ds"]) (simp add: lq_execs_append)
qed

lemma client_reaches_one: "client_call c \<Longrightarrow> client_reaches q (lq_exec flt c q)"
  unfolding client_reaches_def by (intro exI [of _ "[(flt, c)]"]) simp

lemma client_ops:
  "client_reaches q (snd (submit flt now argv q))" "client_reaches q (snd (list_jobs flt l off q))"
  "client_reaches q (snd (latest flt kind q))" "client_reaches q (snd (get_job flt jid q))"
  "client_reaches q (snd (remove flt jid q))" "client_reaches q (snd (reorder flt jid other q))"
  "client_reaches q (snd (clear flt q))" "client_reaches q (snd (removeAll flt q))"
  "client_reaches q (snd (retry flt jid q))"
  "client_reaches q (fst (snd (requestCancel flt cancel jid (q, c))))"
  using client_reaches_one [of "Submit now argv" q flt] client_reaches_one [of "Remove jid" q flt]
    client_reaches_one [of "Reorder jid other" q flt] client_reaches_one [of Clear q flt]
    client_reaches_one [of RemoveAll q flt] client_reaches_one [of "Retry jid" q flt]
    client_reaches_one [of "Cancel jid" q flt]
  by (simp_all add: requestCancel_fst)

lemma client_reaches_run_batch:
  "(\<And>i jid q. client_reaches q (snd (act i jid q))) \<Longrightarrow> client_reaches q (snd (run_batch act i jids acc q))"
proof (induction jids arbitrary: i acc q)
  case (Cons jid jids)
  have "client_reaches q (snd (act i jid q))" by (rule Cons.prems)
  moreover have "client_reaches (snd (act i jid q)) (snd (run_batch act (Suc i) jids acc' (snd (act i jid q))))" for acc'
    by (rule Cons.IH [OF Cons.prems])
  ultimately show ?case
    by (cases "act i jid q") (auto split: sum.split intro: client_reaches_trans)
qed simp

lemma client_reaches_batch: "client_reaches q (snd (batchJobs flts jids action q))"
proof -
  have act: "client_reaches q (snd (act i jid q))" if "batch_action action flts = Some act" for act i jid q
    using that client_ops(5,6,9)
    by (auto simp: batch_action_def snd_bnd_write split: if_splits)
  then have "client_reaches q (snd (run_batch act 0 us no_result q))"
    if "batch_action action flts = Some act" for act us
    using that by (intro client_reaches_run_batch) blast
  then show ?thesis
    by (auto simp: batchJobs_def Let_def split: sum.split option.split prod.split) (metis snd_conv)+
qed

lemma on_queue_fst: "fst (snd (on_queue m f (q, c))) = snd (m q)"
  by (simp add: on_queue_def split: prod.split sum.split)

lemma on_queue_cancel: "snd (snd (on_queue m f (q, c))) = c"
  by (simp add: on_queue_def split: prod.split sum.split)

lemma fst_snd_bnd_lift:
  "fst (snd (bnd (lift_sum v) k s)) = (case v of Inl e \<Rightarrow> fst s | Inr x \<Rightarrow> fst (snd (k x s)))"
  by (simp add: bnd_def split: sum.split)

lemma handle_client: "client_reaches q (fst (snd (handle cancel r rt (q, c))))"
proof (cases rt)
  case (RCancel jid)
  then show ?thesis
    using client_ops(10) by (simp add: handle_def Let_def snd_bnd_write)
next
  case RSwap
  then show ?thesis
    by (auto simp: handle_def Let_def fst_snd_bnd_lift on_queue_fst client_ops
        split: sum.split prod.split)
qed (auto simp: handle_def Let_def fst_snd_bnd_lift on_queue_fst client_ops client_reaches_batch
      split: sum.split prod.split)

lemma serve_client: "client_reaches (srv_queue s) (srv_queue (snd (serve cancel r s)))"
  using handle_client [of "srv_queue s" cancel r _ "srv_cancel s"]
  by (auto simp: serve_def split: option.split route.split prod.split) (metis fst_conv snd_conv)+

lemma client_reaches_runs:
  "wf_queue q \<Longrightarrow> client_reaches q q' \<Longrightarrow> wf_queue q' \<and> runs q' = runs q"
  by (auto simp: client_reaches_def lq_execs_runs lq_execs_wf)

fun serve_all :: "(string \<Rightarrow> 'c \<Rightarrow> 'c) option \<Rightarrow> request list \<Rightarrow> 'c server \<Rightarrow> 'c server" where
  "serve_all cancel [] s = s"
| "serve_all cancel (r # rs) s = serve_all cancel rs (snd (serve cancel r s))"

lemma serve_all_client: "client_reaches (srv_queue s) (srv_queue (serve_all cancel rs s))"
  by (induction cancel rs s rule: serve_all.induct)
    (auto intro: client_reaches_trans serve_client)

section \<open>Properties\<close>

text \<open>C22. No sequence of requests to the socket, however malformed and whatever fails below,
  can break the queue or touch a job that is running: the table stays well formed and the
  running rows stay as they are, but for the cancellation mark.\<close>

theorem socket_preserves_queue:
  assumes "wf_queue (srv_queue s)"
  shows "wf_queue (srv_queue (serve_all cancel rs s)) \<and>
    runs (srv_queue (serve_all cancel rs s)) = runs (srv_queue s)"
  by (rule client_reaches_runs [OF assms serve_all_client])

theorem socket_preserves_queue_witness:
  "runs (srv_queue (serve_all None
      [\<lparr>req_method = ''POST'', req_path = [''jobs'', ''remove-all''], req_query = [],
        req_body = \<lparr>body_values = [], clean_end = True\<rparr>, req_time = 9, req_faults = \<lambda>_. no_faults\<rparr>]
      \<lparr>srv_queue = one_running, srv_cancel = (), stopping = False\<rparr>)) = runs one_running"
  using socket_preserves_queue [of "\<lparr>srv_queue = one_running, srv_cancel = (), stopping = False\<rparr>"]
    one_running_wf by (simp del: serve_all.simps)

lemma serve_stopping:
  assumes "stopping t"
  shows "snd (serve cancel r t) = t"
    "fst (serve cancel r t) \<in> {MuxAnswer, Reply 503 None, Reply 200 (Some (Inr RStopping))}"
  using assms by (auto simp: serve_def split: option.split route.split)

lemma serve_all_stopping: "stopping t \<Longrightarrow> serve_all cancel rs t = t"
  by (induction cancel rs t rule: serve_all.induct) (simp_all add: serve_stopping)

text \<open>After \<open>POST /daemon/stop\<close> the socket changes nothing any more: every later request
  is answered by the mux, with 503, or (another stop) with 200, and the queue and the
  worker's cancellation state stay as they were when the stop was served.\<close>

theorem stopped_socket_is_inert:
  assumes "route (req_method r) (req_path r) = Some RStop"
  shows "let s' = snd (serve cancel r s) in
    fst (serve cancel r s) = Reply 200 (Some (Inr RStopping)) \<and>
    serve_all cancel rs s' = s' \<and> srv_queue s' = srv_queue s \<and>
    (\<forall>r'. fst (serve cancel r' s') \<in> {MuxAnswer, Reply 503 None, Reply 200 (Some (Inr RStopping))})"
proof -
  have "serve cancel r s = (Reply 200 (Some (Inr RStopping)), s\<lparr>stopping := True\<rparr>)"
    using assms by (simp add: serve_def)
  moreover have "stopping (s\<lparr>stopping := True\<rparr>)" by simp
  from serve_all_stopping [OF this] serve_stopping(2) [OF this]
  have "serve_all cancel rs (s\<lparr>stopping := True\<rparr>) = s\<lparr>stopping := True\<rparr>"
    "\<forall>r'. fst (serve cancel r' (s\<lparr>stopping := True\<rparr>)) \<in> {MuxAnswer, Reply 503 None, Reply 200 (Some (Inr RStopping))}"
    by blast+
  ultimately show ?thesis by simp
qed

theorem stopped_socket_is_inert_witness:
  "fst (serve (None :: (string \<Rightarrow> unit \<Rightarrow> unit) option)
      \<lparr>req_method = ''POST'', req_path = [''daemon'', ''stop''], req_query = [],
        req_body = \<lparr>body_values = [], clean_end = True\<rparr>, req_time = 9, req_faults = \<lambda>_. no_faults\<rparr>
      \<lparr>srv_queue = one_running, srv_cancel = (), stopping = False\<rparr>) = Reply 200 (Some (Inr RStopping))"
proof -
  let ?r = "\<lparr>req_method = ''POST'', req_path = [''daemon'', ''stop''], req_query = [],
        req_body = \<lparr>body_values = [], clean_end = True\<rparr>, req_time = 9, req_faults = \<lambda>_. no_faults\<rparr>"
  have "route (req_method ?r) (req_path ?r) = Some RStop" by (simp add: route_def)
  from stopped_socket_is_inert [OF this] show ?thesis unfolding Let_def by blast
qed

lemma decode_elements_strings: "decode_elements [] (map JString ss) = Some ss"
  by (induction ss) (simp_all add: decode_string_def)

lemma decode_list_members_unknown:
  "\<forall>k \<in> set (map fst extra). \<not> same_name k name \<Longrightarrow> extra \<noteq> [] \<Longrightarrow>
     decode_list_members name old extra = None"
  by (cases extra) auto

lemma same_name_refl [simp]: "same_name a a"
  by (simp add: same_name_def)

text \<open>\<open>POST /jobs\<close> with the body \<open>{"command": [...]}\<close> of an acceptable command is answered
  with 200 and the new job, which holds the command and waits last. Another member beside the
  command, a second value or trailing garbage after the object is refused with 400 and
  changes nothing.\<close>

theorem post_jobs_submits:
  assumes wf: "wf_queue (srv_queue s)" and live: "\<not> stopping s"
    and r: "req_method r = ''POST''" "req_path r = [''jobs'']" "req_faults r 0 = no_faults"
    and l: "last_sequence (srv_queue s) < max_int64" and c: "check_command argv = Inr ()"
    and body: "req_body r = \<lparr>body_values = JObject ((''command'', JArray (map JString argv)) # extra) # others,
      clean_end = ok\<rparr>"
  shows "(extra = [] \<and> others = [] \<and> ok \<longrightarrow>
      (\<exists>j s'. serve cancel r s = (Reply 200 (Some (Inr (RJob j))), s') \<and>
        Command j = map coerce_utf8 argv \<and>
        waiting (srv_queue s') = waiting (srv_queue s) @ [last_sequence (srv_queue s) + 1])) \<and>
    (extra \<noteq> [] \<and> (\<forall>k \<in> set (map fst extra). \<not> same_name k ''command'') \<or> others \<noteq> [] \<or> \<not> ok \<longrightarrow>
      serve cancel r s = (Reply 400 (Some (Inl BadBody)), s))"
proof -
  have rt: "route (req_method r) (req_path r) = Some RSubmit"
    by (simp add: route_def r)
  have argv: "argv \<noteq> []" using c by (auto simp: check_command_def)
  then obtain v vs where "map JString argv = v # vs" by (cases argv) auto
  then have first: "decode_strings ([], []) (JArray (map JString argv)) = Some (argv, argv)"
    using decode_elements_strings [of argv] by (simp add: decode_strings_def)
  have dec: "decode_list ''command'' (req_body r) =
      (case decode_list_members ''command'' (argv, argv) extra of None \<Rightarrow> Inl BadBody
       | Some x \<Rightarrow> if others = [] \<and> ok then Inr x else Inl BadBody)"
    by (simp add: body decode_list_def decodeLocalBody_def first split: option.split)
  from submit_appends [OF wf c l, of "req_time r"] obtain j q' where
    "submit no_faults (req_time r) argv (srv_queue s) = (Inr j, q')" "Command j = map coerce_utf8 argv"
    "waiting q' = waiting (srv_queue s) @ [last_sequence (srv_queue s) + 1]" by blast
  then show ?thesis
    using live dec decode_list_members_unknown [of extra "''command''" "(argv, argv)"]
    by (auto simp: serve_def rt handle_def Let_def bnd_def r(3) on_queue_def status_of_def
        split: option.splits)
qed

theorem post_jobs_submits_witness:
  "\<exists>j s'. serve (None :: (string \<Rightarrow> unit \<Rightarrow> unit) option)
      \<lparr>req_method = ''POST'', req_path = [''jobs''], req_query = [],
        req_body = \<lparr>body_values = [JObject [(''command'', JArray [JString ''ls''])]], clean_end = True\<rparr>,
        req_time = 9, req_faults = \<lambda>_. no_faults\<rparr>
      \<lparr>srv_queue = two_waiting, srv_cancel = (), stopping = False\<rparr> = (Reply 200 (Some (Inr (RJob j))), s') \<and>
    Command j = [''ls''] \<and> waiting (srv_queue s') = [1, 2, 3]"
proof -
  let ?r = "\<lparr>req_method = ''POST'', req_path = [''jobs''], req_query = [],
        req_body = \<lparr>body_values = [JObject [(''command'', JArray [JString ''ls''])]], clean_end = True\<rparr>,
        req_time = 9, req_faults = \<lambda>_. no_faults\<rparr>"
  let ?s = "\<lparr>srv_queue = two_waiting, srv_cancel = (), stopping = False\<rparr>"
  have "trim_space ''ls'' \<noteq> []" "\<not> contains_nul ''ls''" by code_simp+
  then have "check_command [''ls''] = Inr ()" by (simp add: check_command_def)
  moreover have "last_sequence two_waiting = 2" "2 < max_int64"
    by (simp_all add: two_waiting_def max_int64_def)
  ultimately show ?thesis
    using post_jobs_submits [of ?s ?r "[''ls'']" "[]" "[]" True None] two_waiting_wf
    by simp
qed

text \<open>A page of the list is at most 100 jobs, whatever the query: limits outside 1..100 and
  negative or malformed values are refused, and what is returned is the slice of the list
  that the query names.\<close>

theorem list_pages_are_bounded:
  assumes wf: "wf_queue (srv_queue s)" and live: "\<not> stopping s"
    and r: "req_method r = ''GET''" "req_path r = [''jobs'']" "req_faults r 0 = no_faults"
  shows "snd (serve cancel r s) = s \<and> (case fst (serve cancel r s) of
      Reply code (Some (Inr (RJobs js))) \<Rightarrow> code = 200 \<and> length js \<le> 100 \<and>
        (\<exists>l off. page_of (req_query r) = Inr (l, off) \<and> 1 \<le> l \<and> l \<le> 100 \<and> 0 \<le> off \<and>
          map ID js = map local_id (take (nat l) (drop (nat off) (listed (srv_queue s)))))
    | Reply code (Some (Inl e)) \<Rightarrow> code = 400 \<and> e = InvalidPagination
    | _ \<Rightarrow> False)"
proof (cases "page_of (req_query r)")
  case (Inl e)
  then have "e = InvalidPagination" by (auto simp: page_of_def split: option.splits if_splits)
  with Inl live show ?thesis
    by (simp add: serve_def route_def r handle_def Let_def status_of_def)
next
  case (Inr p)
  obtain l off where p: "p = (l, off)" by fastforce
  with Inr have range: "1 \<le> l" "l \<le> 100" "0 \<le> off"
    by (auto simp: page_of_def split: option.splits if_splits)
  let ?rows = "sql_limit l off (list_order (jobs (srv_queue s)))"
  have "length ?rows \<le> nat l" using range by (simp add: sql_limit_def)
  then have "length ?rows \<le> 100" using range by linarith
  moreover have "map ID (map job_of ?rows) = map local_id (take (nat l) (drop (nat off) (listed (srv_queue s))))"
    using list_jobs_ids [OF wf, of l off] range by (simp add: sql_limit_def)
  ultimately show ?thesis
    using Inr p range live list_jobs_eq [OF wf, of l off]
    by (simp add: serve_def route_def r handle_def Let_def on_queue_def)
qed

theorem list_pages_are_bounded_witness:
  "\<exists>js. fst (serve (None :: (string \<Rightarrow> unit \<Rightarrow> unit) option)
      \<lparr>req_method = ''GET'', req_path = [''jobs''], req_query = [(''limit'', ''1'')],
        req_body = \<lparr>body_values = [], clean_end = True\<rparr>, req_time = 9, req_faults = \<lambda>_. no_faults\<rparr>
      \<lparr>srv_queue = two_waiting, srv_cancel = (), stopping = False\<rparr>) = Reply 200 (Some (Inr (RJobs js))) \<and>
    length js \<le> 100"
proof -
  let ?r = "\<lparr>req_method = ''GET'', req_path = [''jobs''], req_query = [(''limit'', ''1'')],
        req_body = \<lparr>body_values = [], clean_end = True\<rparr>, req_time = 9, req_faults = \<lambda>_. no_faults\<rparr>"
  let ?s = "\<lparr>srv_queue = two_waiting, srv_cancel = (), stopping = False\<rparr>"
  have "parse_int64 ''1'' = Some 1" by code_simp
  then have "page_of (req_query ?r) = Inr (1, 0)"
    by (simp add: page_of_def page_value_def query_get_def)
  then have "\<exists>js. fst (serve (None :: (string \<Rightarrow> unit \<Rightarrow> unit) option) ?r ?s) = Reply 200 (Some (Inr (RJobs js)))"
    using list_jobs_eq [OF two_waiting_wf, of 1 0]
    by (simp add: serve_def route_def handle_def Let_def on_queue_def)
  then show ?thesis
    using list_pages_are_bounded [of ?s ?r "None :: (string \<Rightarrow> unit \<Rightarrow> unit) option"] two_waiting_wf
    by auto
qed

end
