(* ===== verification/WorkerLoop.thy ===== *)
theory WorkerLoop
  imports ControllerClient LocalSocket
begin

text \<open>
  The worker, worker/worker.go: the two backends over the worker's state (the local queue and
  the controller's client), one iteration of the loop of \<open>Run\<close>, its start, the recovery of a
  previous remote job and the heartbeat. Socket requests and the heartbeat run beside the
  loop: they appear as functions on the shared state at every point of an iteration where
  they can act.
\<close>

section \<open>The two backends\<close>

type_synonym wstate = "localQueue \<times> controllerClient"

definition on_local :: "'a lq_op \<Rightarrow> (wstate, lq_error, 'a) op" where
  "on_local m = (\<lambda>(q, c). case m q of (r, q') \<Rightarrow> (r, (q', c)))"

definition on_remote :: "(controllerClient, cc_error, 'a) op \<Rightarrow> (wstate, cc_error, 'a) op" where
  "on_remote m = (\<lambda>(q, c). case m c of (r, c') \<Rightarrow> (r, (q, c')))"

definition local_output :: "faults \<Rightarrow> string \<Rightarrow> string \<Rightarrow> (wstate, lq_error, unit) op" where
  "local_output flt jid path = on_local (Output flt jid path)"

definition local_finish :: "(nat \<Rightarrow> faults) \<Rightarrow> int \<Rightarrow> nat \<Rightarrow> string \<Rightarrow> result \<Rightarrow> (wstate, lq_error, unit) op" where
  "local_finish flts now i jid res = on_local (Finish (flts i) now jid res)"

definition remote_output :: "unit network \<Rightarrow> string \<Rightarrow> string \<Rightarrow> (wstate, cc_error, unit) op" where
  "remote_output net jid path = on_remote (client_output net jid path)"

definition remote_finish :: "(nat \<Rightarrow> unit network) \<Rightarrow> nat \<Rightarrow> string \<Rightarrow> result \<Rightarrow> (wstate, cc_error, unit) op" where
  "remote_finish nets i jid res = on_remote (client_finish nets i jid res)"

text \<open>\<open>errors.Is(err, errRemoteDisabled)\<close>.\<close>

definition is_disabled :: "cc_error \<Rightarrow> bool" where
  "is_disabled e = (case e of RemoteDisabled _ \<Rightarrow> True | _ \<Rightarrow> False)"

section \<open>One iteration of Run\<close>

datatype worker_error =
    RecoverFailed lq_error
  | RegisterFailed cc_error
  | ClaimFailed cc_error
  | LocalClaimFailed lq_error
  | LocalReportFailed string lq_error
  | RemoteReportFailed string cc_error
  | Done cause

datatype turn = Continue | Stop worker_error

text \<open>
  What one iteration meets: the others' actions before it and between the two claims, the
  network's answers to the remote claim, the driver's failures and the time of the local one,
  the surroundings of the job with the failures and answers of its two reports, and how the
  wait ends.
\<close>

record iteration =
  others_before :: "wstate shared \<Rightarrow> wstate shared"
  others_between :: "wstate shared \<Rightarrow> wstate shared"
  claim_net :: "claim_response network"
  claim_faults :: faults
  claim_time :: int
  job_env :: "wstate surroundings"
  output_faults :: faults
  finish_faults :: "nat \<Rightarrow> faults"
  finish_time :: int
  output_net :: "unit network"
  finish_nets :: "nat \<Rightarrow> unit network"
  wait_ends :: "cause option"

definition remote_claim :: "bool \<Rightarrow> claim_response network \<Rightarrow> wstate \<Rightarrow> (cc_error + job option) \<times> wstate" where
  "remote_claim has_client net = (\<lambda>(q, c).
     if has_client \<and> \<not> remoteDisabled c then
       (case net of (outage, rs, e) \<Rightarrow> (case Claim_remote outage (until rs e) c of
          Some (r, c') \<Rightarrow> (r, (q, c'))
        | None \<Rightarrow> (Inl (CtxError e), (q, c))))
     else (Inr None, (q, c)))"

definition run_remote_job :: "(cc_error \<Rightarrow> string) \<Rightarrow> int \<Rightarrow> nat \<Rightarrow> iteration \<Rightarrow> job \<Rightarrow>
    wstate shared \<Rightarrow> turn \<times> wstate shared" where
  "run_remote_job txt grace p it job s =
     (case runJob (remote_output (output_net it)) (remote_finish (finish_nets it)) is_disabled txt
         (\<lambda>w. snd (on_remote (disableRemote (RemoteJobFailed (ID job)) :: (controllerClient, cc_error, unit) op) w))
         grace p (job_env it) job s of
        (Inl e, s') \<Rightarrow> (Stop (RemoteReportFailed (ID job) e), s')
      | (Inr _, s') \<Rightarrow> (Continue, s'))"

definition run_local_job :: "(lq_error \<Rightarrow> string) \<Rightarrow> int \<Rightarrow> nat \<Rightarrow> iteration \<Rightarrow> job \<Rightarrow>
    wstate shared \<Rightarrow> turn \<times> wstate shared" where
  "run_local_job txt grace p it job s =
     (case runJob (local_output (output_faults it)) (local_finish (finish_faults it) (finish_time it))
         (\<lambda>_. False) txt (\<lambda>w. w) grace p (job_env it) job s of
        (Inl e, s') \<Rightarrow> (Stop (LocalReportFailed (ID job) e), s')
      | (Inr _, s') \<Rightarrow> (Continue, s'))"

definition wait_turn :: "iteration \<Rightarrow> turn" where
  "wait_turn it = (case wait_ends it of None \<Rightarrow> Continue | Some e \<Rightarrow> Stop (Done e))"

text \<open>The local half of an iteration: a local claim unless the worker is stopping.\<close>

definition local_turn :: "(lq_error \<Rightarrow> string) \<Rightarrow> int \<Rightarrow> nat \<Rightarrow> iteration \<Rightarrow> wstate shared \<Rightarrow>
    turn \<times> wstate shared" where
  "local_turn txt grace p it s =
     (if job_cause p s \<noteq> None then (wait_turn it, s)
      else case on_backend (on_local (claim (claim_faults it) (claim_time it))) s of
        (Inl e, s') \<Rightarrow> (Stop (LocalClaimFailed e), s')
      | (Inr None, s') \<Rightarrow> (wait_turn it, s')
      | (Inr (Some job), s') \<Rightarrow> run_local_job txt grace p it job s')"

text \<open>The body of the loop, with its condition; \<open>p\<close> is the context of \<open>Run\<close>.\<close>

definition run_turn :: "bool \<Rightarrow> (lq_error \<Rightarrow> string) \<Rightarrow> (cc_error \<Rightarrow> string) \<Rightarrow> int \<Rightarrow> nat \<Rightarrow> iteration \<Rightarrow>
    wstate shared \<Rightarrow> turn \<times> wstate shared" where
  "run_turn has_client txt rtxt grace p it s0 =
     (let s = others_before it s0 in
      case job_cause p s of
        Some e \<Rightarrow> (Stop (Done e), s)
      | None \<Rightarrow>
         (case remote_claim has_client (claim_net it) (fst s) of
            (Inl e, w) \<Rightarrow>
              if is_disabled e then local_turn txt grace p it (others_between it (w, snd s))
              else (Stop (ClaimFailed e), (w, snd s))
          | (Inr (Some job), w) \<Rightarrow> run_remote_job rtxt grace p it job (w, snd s)
          | (Inr None, w) \<Rightarrow> local_turn txt grace p it (others_between it (w, snd s))))"

fun run_loop :: "bool \<Rightarrow> (lq_error \<Rightarrow> string) \<Rightarrow> (cc_error \<Rightarrow> string) \<Rightarrow> int \<Rightarrow> nat \<Rightarrow> iteration list \<Rightarrow>
    wstate shared \<Rightarrow> turn \<times> wstate shared" where
  "run_loop has_client txt rtxt grace p [] s = (Continue, s)"
| "run_loop has_client txt rtxt grace p (it # its) s =
     (case run_turn has_client txt rtxt grace p it s of
        (Stop e, s') \<Rightarrow> (Stop e, s')
      | (Continue, s') \<Rightarrow> run_loop has_client txt rtxt grace p its s')"

section \<open>The start of Run and the heartbeat\<close>

text \<open>
  \<open>recoverPreviousJob\<close>: the outcome of a remote job that a previous worker did not report.
\<close>

definition recoverPreviousJob :: "(nat \<Rightarrow> unit network) \<Rightarrow> (wstate \<Rightarrow> bool) \<Rightarrow> workerRecord \<Rightarrow>
    (wstate, cc_error, unit) op" where
  "recoverPreviousJob nets ctx_done record = (case CurrentJobID record of
     None \<Rightarrow> ret ()
   | Some jid \<Rightarrow> reportResult (remote_finish nets) is_disabled ctx_done jid
       (error_result ''Worker restarted; previous outcome unknown''))"

text \<open>
  \<open>Run\<close> up to its loop: the recovery of the local queue, the registration (whose record is
  empty when remote work is disabled) and the recovery of a remote job. \<open>meanwhile\<close> is what
  others do between the steps.
\<close>

definition run_start :: "bool \<Rightarrow> faults \<Rightarrow> int \<Rightarrow> string \<Rightarrow> workerRecord network \<Rightarrow>
    (nat \<Rightarrow> unit network) \<Rightarrow> nat \<Rightarrow> (nat \<Rightarrow> wstate shared \<Rightarrow> wstate shared) \<Rightarrow> wstate shared \<Rightarrow>
    turn \<times> wstate shared" where
  "run_start has_client flt now host reg nets p meanwhile s =
     (case on_backend (on_local (recover flt now)) s of
        (Inl e, s1) \<Rightarrow> (Stop (RecoverFailed e), s1)
      | (Inr _, s1) \<Rightarrow>
         if \<not> has_client then (Continue, s1)
         else (case (meanwhile 0 s1, reg) of (((q, c), a), (outage, rs, e)) \<Rightarrow>
           (case Register outage host (until rs e) c of
              None \<Rightarrow> (Stop (RegisterFailed (CtxError e)), ((q, c), a))
            | Some (r, c1) \<Rightarrow>
               (case (case r of
                   Inl err \<Rightarrow> if is_disabled err then Inr \<lparr>CurrentJobID = None, CancelJobID = None\<rparr> else Inl err
                 | Inr None \<Rightarrow> Inr \<lparr>CurrentJobID = None, CancelJobID = None\<rparr>
                 | Inr (Some record) \<Rightarrow> Inr record) of
                  Inl err \<Rightarrow> (Stop (RegisterFailed err), ((q, c1), a))
                | Inr record \<Rightarrow>
                   (case on_backend (recoverPreviousJob nets (\<lambda>_. cause_of p (snd a) \<noteq> None) record)
                       (meanwhile 1 ((q, c1), a)) of
                      (Inl err, s2) \<Rightarrow> (Stop (RemoteReportFailed (coalesce (CurrentJobID record) []) err), s2)
                    | (Inr _, s2) \<Rightarrow> (Continue, s2))))))"

text \<open>
  One turn of \<open>heartbeatLoop\<close>: whether it goes on, and the state. A cancellation the
  controller asks for goes to the active job.
\<close>

definition heartbeat_turn :: "workerRecord network \<Rightarrow> cause option \<Rightarrow> cause option \<Rightarrow>
    wstate shared \<Rightarrow> bool \<times> wstate shared" where
  "heartbeat_turn net ctx waited = (\<lambda>((q, c), a).
     if ctx \<noteq> None \<or> remoteDisabled c then (False, ((q, c), a))
     else case net of (outage, rs, e) \<Rightarrow>
       (case Heartbeat outage (until rs e) c of
          None \<Rightarrow> (False, ((q, c), a))
        | Some (Inl err, c') \<Rightarrow> (\<not> is_disabled err \<and> waited = None, ((q, c'), a))
        | Some (Inr record, c') \<Rightarrow>
            (waited = None, ((q, c'), case record of
               None \<Rightarrow> a
             | Some r \<Rightarrow> (case CancelJobID r of None \<Rightarrow> a | Some jid \<Rightarrow> RequestCancellation jid a)))))"

section \<open>The backends keep the contract\<close>

lemma updateRunning_Inr:
  assumes "updateRunning flt jid f q = (Inr u, q')"
  obtains n where "localSequence jid = Inr n" "n \<in> ids Running q"
    "q' = snd (update_where (\<lambda>r. sequence r = n \<and> running r) f q)"
proof -
  from assms obtain n where n: "localSequence jid = Inr n"
    "fst (update_where (\<lambda>r. sequence r = n \<and> running r) f q) \<noteq> 0"
    "q' = snd (update_where (\<lambda>r. sequence r = n \<and> running r) f q)"
    by (auto simp: updateRunning_def bnd_eq_Inr sql_def split: option.splits prod.splits if_splits)
  then have "filter (\<lambda>r. sequence r = n \<and> running r) (jobs q) \<noteq> []"
    by (simp add: update_where_def)
  then have "n \<in> ids Running q"
    by (auto simp: ids_def filter_empty_conv running_def)
  with n that show ?thesis by blast
qed

definition local_settled :: "localQueue \<Rightarrow> string \<Rightarrow> bool \<Rightarrow> bool" where
  "local_settled q jid ok \<longleftrightarrow> (\<exists>n \<in> ids (if ok then Succeeded else Failed) q. jid = local_id n)"

definition local_running :: "localQueue \<Rightarrow> string \<Rightarrow> bool" where
  "local_running q jid \<longleftrightarrow> (\<exists>n \<in> ids Running q. jid = local_id n)"

lemma Finish_Inr:
  assumes wf: "wf_queue q" and fin: "Finish flt now jid res q = (Inr u, q')"
  shows "\<exists>n. jid = local_id n \<and> n \<in> ids Running q \<and> ids Running q' = ids Running q - {n} \<and>
    n \<in> ids (if result_ok res then Succeeded else Failed) q'"
proof -
  from fin obtain n where n: "localSequence jid = Inr n" "n \<in> ids Running q"
    "q' = snd (update_where (\<lambda>r. sequence r = n \<and> running r) (finish_row now res) q)"
    unfolding Finish_def by (rule updateRunning_Inr)
  then obtain r where r: "r \<in> set (jobs q)" "running r" "sequence r = n"
    by (auto simp: ids_def running_def)
  have "jid = local_id n" using n(1) by (simp add: localSequence_iff)
  moreover have "ids Running q' = ids Running q - {n} \<and>
      n \<in> ids (if result_ok res then Succeeded else Failed) q'"
    using abs_finish_row [OF wf r(1,2), of now res] r(3) n(3)
    by (cases "result_ok res") (simp_all add: abs_queue_def)
  ultimately show ?thesis using n(2) by blast
qed

lemma on_local_fst: "fst (snd (on_local m w)) = snd (m (fst w))"
  by (simp add: on_local_def split: prod.split)

lemma on_local_eq: "on_local m w = (r, w') \<longleftrightarrow> m (fst w) = (r, fst w') \<and> snd w' = snd w"
  by (auto simp: on_local_def split: prod.splits)

interpretation local_any: job_backend "local_output flt" "local_finish flts now"
  "\<lambda>w. wf_queue (fst w)" "\<lambda>w. local_settled (fst w)" for flt flts now
proof unfold_locales
  fix s jid i res s'
  assume "wf_queue (fst s)" "local_finish flts now i jid res s = (Inr (), s')"
  then show "local_settled (fst s') jid (result_ok res)"
    using Finish_Inr [of "fst s" "flts i" now jid res "()" "fst s'"]
    by (auto simp: local_finish_def on_local_eq local_settled_def)
qed (simp_all add: local_output_def local_finish_def on_local_fst keepsD [OF Output_wf] keepsD [OF Finish_wf])

interpretation local_sure: reliable_backend "local_output no_faults" "local_finish (\<lambda>_. no_faults) now"
  "\<lambda>w. wf_queue (fst w)" "\<lambda>w. local_settled (fst w)" "\<lambda>w. local_running (fst w)" for now
proof unfold_locales
  fix w :: wstate and jid path
  assume wf: "wf_queue (fst w)" and "local_running (fst w) jid"
  then obtain n where n: "n \<in> ids Running (fst w)" "jid = local_id n" by (auto simp: local_running_def)
  have "abs_queue (snd (Output no_faults jid path (fst w))) = abs_queue (fst w)"
    unfolding Output_def by (rule updateRunning_same_abs [OF wf keeps_row_output]) simp
  then have "ids Running (snd (Output no_faults jid path (fst w))) = ids Running (fst w)"
    by (simp add: abs_queue_def)
  moreover have "fst (Output no_faults jid path (fst w)) = Inr ()"
    using updateRunning_ok [OF wf n(1)] n(2) by (simp add: Output_def)
  ultimately show "\<exists>s'. local_output no_faults jid path w = (Inr (), s') \<and> local_running (fst s') jid"
    using n by (auto simp: local_output_def on_local_def local_running_def split: prod.split)
next
  fix w :: wstate and jid i res
  assume wf: "wf_queue (fst w)" and "local_running (fst w) jid"
  then obtain n where n: "n \<in> ids Running (fst w)" "jid = local_id n" by (auto simp: local_running_def)
  show "\<exists>s'. local_finish (\<lambda>_. no_faults) now i jid res w = (Inr (), s')"
    using updateRunning_ok [OF wf n(1)] n(2)
    by (cases w) (simp add: local_finish_def on_local_def Finish_def)
qed

interpretation remote_any: job_backend "remote_output net" "remote_finish nets"
  "\<lambda>_. True" "\<lambda>w. reported (snd w)" for net nets
proof unfold_locales
  fix s jid i res s'
  assume "remote_finish nets i jid res s = (Inr (), s')"
  then have "client_finish nets i jid res (snd s) = (Inr (), snd s')"
    by (auto simp: remote_finish_def on_remote_def split: prod.splits)
  then show "reported (snd s') jid (result_ok res)"
    by (rule remote.finish_settles [OF TrueI])
qed simp_all

section \<open>One job at a time\<close>

text \<open>
  Others act through the socket only: what they do to the queue is a sequence of client
  operations.
\<close>

definition guest :: "(wstate shared \<Rightarrow> wstate shared) \<Rightarrow> bool" where
  "guest f \<longleftrightarrow> (\<forall>s. client_reaches (fst (fst s)) (fst (fst (f s))))"

definition hosts_guests :: "iteration \<Rightarrow> bool" where
  "hosts_guests it \<longleftrightarrow> guest (others_before it) \<and> guest (others_between it) \<and>
     (\<forall>i. guest (world (job_env it) i))"

text \<open>The queue is well formed, and only the jobs in \<open>N\<close> are running.\<close>

definition only_running :: "int set \<Rightarrow> wstate shared \<Rightarrow> bool" where
  "only_running N s \<longleftrightarrow> wf_queue (fst (fst s)) \<and> ids Running (fst (fst s)) \<subseteq> N"

lemma guest_only_running: "guest f \<Longrightarrow> only_running N s \<Longrightarrow> only_running N (f s)"
proof -
  assume f: "guest f" and s: "only_running N s"
  from f have "client_reaches (fst (fst s)) (fst (fst (f s)))" unfolding guest_def by blast
  with s show ?thesis
    using client_reaches_runs [of "fst (fst s)" "fst (fst (f s))"]
    unfolding only_running_def ids_Running_runs by simp
qed

lemma Output_only_running:
  "only_running N s \<Longrightarrow> only_running N (snd (on_backend (local_output flt jid path) s))"
proof -
  assume s: "only_running N s"
  then have wf: "wf_queue (fst (fst s))" by (simp add: only_running_def)
  have "abs_queue (snd (Output flt jid path (fst (fst s)))) = abs_queue (fst (fst s))"
    unfolding Output_def by (rule updateRunning_same_abs [OF wf keeps_row_output]) simp
  then have "ids Running (snd (Output flt jid path (fst (fst s)))) = ids Running (fst (fst s))"
    by (simp add: abs_queue_def)
  moreover have "fst (fst (snd (on_backend (local_output flt jid path) s))) = snd (Output flt jid path (fst (fst s)))"
    by (simp add: on_backend_def local_output_def on_local_def split: prod.split)
  ultimately show ?thesis
    using s keepsD [OF Output_wf wf] by (simp add: only_running_def)
qed

lemma remote_output_only_running:
  "only_running N s \<Longrightarrow> only_running N (snd (on_backend (remote_output net jid path) s))"
  by (cases s; cases "fst s") (simp add: only_running_def on_backend_def remote_output_def
      on_remote_def split: prod.split)

lemma executeJob_local_only_running:
  assumes "hosts_guests it" "only_running N s"
  shows "only_running N (snd (executeJob (local_output flt) exempt txt grace h (job_env it) job s))"
  using assms guest_only_running Output_only_running
  by (intro executeJob_keeps [where B = "only_running N"]) (auto simp: hosts_guests_def)

lemma executeJob_remote_only_running:
  assumes "hosts_guests it" "only_running N s"
  shows "only_running N (snd (executeJob (remote_output net) exempt txt grace h (job_env it) job s))"
  using assms guest_only_running remote_output_only_running
  by (intro executeJob_keeps [where B = "only_running N"]) (auto simp: hosts_guests_def)

lemma reportResult_local_ends:
  assumes "only_running {n} (w, a)"
    and rep: "reportResult (local_finish flts now) (\<lambda>_. False) ctx_done (local_id n) res w = (Inr u, w')"
    and n: "0 \<le> n"
  shows "only_running {} (w', a)"
proof -
  have fin: "only_running {} (w2, a)" if f: "local_finish flts now i (local_id n) res w1 = (Inr v, w2)"
      and w1: "only_running {n} (w1, a)" for i w1 w2 v
  proof -
    have wf: "wf_queue (fst w1)" using w1 by (simp add: only_running_def)
    from f have "Finish (flts i) now (local_id n) res (fst w1) = (Inr v, fst w2)"
      by (simp add: local_finish_def on_local_eq)
    from Finish_Inr [OF wf this] obtain m where m: "local_id n = local_id m" "m \<in> ids Running (fst w1)"
      "ids Running (fst w2) = ids Running (fst w1) - {m}" by blast
    then have "m = n" using w1 by (auto simp: only_running_def)
    moreover have "wf_queue (fst w2)"
      using local_any.finish_good [OF wf, of flts now i "local_id n" res] f by simp
    ultimately show ?thesis using m w1 by (auto simp: only_running_def)
  qed
  have bad: "only_running {n} (w1, a)" if "local_finish flts now 0 (local_id n) res w = (Inl e, w1)" for e w1
  proof -
    from that have "Finish (flts 0) now (local_id n) res (fst w) = (Inl e, fst w1)"
      by (simp add: local_finish_def on_local_eq)
    moreover have "ids Running (snd (Finish (flts 0) now (local_id n) res (fst w))) \<subseteq> ids Running (fst w)"
    proof (cases rule: snd_updateRunning [of "flts 0" "local_id n" "finish_row now res" "fst w"])
      case (2 k)
      have "ids Running (snd (update_where (\<lambda>r. sequence r = k \<and> running r) (finish_row now res) (fst w))) =
          sequence ` {r \<in> set (jobs (fst w)). status (if sequence r = k \<and> running r
            then finish_row now res r else r) = Running}"
        by (rule ids_update) simp
      with 2 show ?thesis by (auto simp: Finish_def ids_def split: if_splits)
    qed (simp add: Finish_def)
    moreover have "wf_queue (snd (Finish (flts 0) now (local_id n) res (fst w)))"
      using assms(1) by (simp add: only_running_def keepsD [OF Finish_wf])
    ultimately show ?thesis using assms(1) by (auto simp: only_running_def)
  qed
  show ?thesis
    using rep fin [OF _ assms(1)] fin [OF _ bad]
    by (auto simp: reportResult_def split: prod.splits sum.splits if_splits)
qed

text \<open>\<open>only_running\<close> looks at the queue alone.\<close>

lemma only_running_queue: "fst (fst s) = fst (fst t) \<Longrightarrow> only_running N s = only_running N t"
  by (simp add: only_running_def)

lemma only_running_mono: "only_running M s \<Longrightarrow> M \<subseteq> N \<Longrightarrow> only_running N s"
  by (auto simp: only_running_def)

lemma reportResult_local_some:
  assumes "only_running {n} (w, a)"
  shows "only_running {n} (snd (reportResult (local_finish flts now) exempt ctx_done jid res w), a)"
proof -
  have one: "only_running {n} (snd (local_finish flts now i jid res v), a)" if v: "only_running {n} (v, a)" for i v
  proof -
    have wf: "wf_queue (fst v)" using v by (simp add: only_running_def)
    have "ids Running (snd (Finish (flts i) now jid res (fst v))) \<subseteq> ids Running (fst v)"
    proof (cases rule: snd_updateRunning [of "flts i" jid "finish_row now res" "fst v"])
      case (2 k)
      have "ids Running (snd (update_where (\<lambda>r. sequence r = k \<and> running r) (finish_row now res) (fst v))) =
          sequence ` {r \<in> set (jobs (fst v)). status (if sequence r = k \<and> running r
            then finish_row now res r else r) = Running}"
        by (rule ids_update) simp
      with 2 show ?thesis by (auto simp: Finish_def ids_def split: if_splits)
    qed (simp add: Finish_def)
    then show ?thesis
      using v keepsD [OF Finish_wf wf] by (auto simp: only_running_def local_finish_def on_local_fst)
  qed
  show ?thesis
    using one [OF assms, of 0] one [OF one [OF assms, of 0], of 1]
    by (auto simp: reportResult_def split: prod.split sum.split)
qed

lemma run_local_job_ends:
  assumes hosts: "hosts_guests it" and s: "only_running {n} s" and n: "0 \<le> n" "ID job = local_id n"
  shows "case run_local_job txt grace p it job s of
      (Continue, s') \<Rightarrow> only_running {} s' | (Stop e, s') \<Rightarrow> only_running {n} s'"
proof -
  obtain w a cs where sw: "s = (w, (a, cs))" by (metis prod.collapse)
  obtain h cs' where h: "with_cancel p cs = (h, cs')" by fastforce
  obtain res eff w1 a1 where ex: "executeJob (local_output (output_faults it)) (\<lambda>_. False) txt grace h (job_env it) job
      (w, Activate (ID job) h (CancelRequested job \<noteq> 0) (a, cs')) = ((res, eff), (w1, a1))"
    by (metis prod.collapse)
  have "only_running {n} (w, Activate (ID job) h (CancelRequested job \<noteq> 0) (a, cs'))"
    using s sw by (simp add: only_running_def)
  from executeJob_local_only_running [OF hosts this] ex
  have one: "only_running {n} (w1, a1)" by (metis snd_conv)
  let ?report = "reportResult (local_finish (finish_faults it) (finish_time it)) (\<lambda>_. False)
      (\<lambda>_. cause_of p (snd a1) \<noteq> None) (ID job) res w1"
  obtain r w2 where rep: "?report = (r, w2)" by (rule prod.exhaust)
  have some: "only_running {n} (w2, b)" for b
    using reportResult_local_some [OF one, of "finish_faults it" "finish_time it" "\<lambda>_. False"
        "\<lambda>_. cause_of p (snd a1) \<noteq> None" "ID job" res] rep
    by (simp add: only_running_def)
  have none: "only_running {} (w2, b)" if "r = Inr ()" for b
    using reportResult_local_ends [OF one _ n(1)] rep n(2) that by (simp add: only_running_def)
  show ?thesis
    using some none rep by (auto simp: run_local_job_def runJob_def sw h ex split: sum.split)
qed

lemma remote_finish_queue: "fst (snd (remote_finish nets i jid res w)) = fst w"
  by (simp add: remote_finish_def on_remote_def split: prod.split)

lemma reportResult_remote_queue:
  "fst (snd (reportResult (remote_finish nets) exempt ctx_done jid res w)) = fst w"
  using remote_finish_queue [of nets 0 jid res w] remote_finish_queue [of nets 1 jid res "snd (remote_finish nets 0 jid res w)"]
  by (auto simp: reportResult_def split: prod.split sum.split)

lemma run_remote_job_none:
  assumes hosts: "hosts_guests it" and s: "only_running {} s"
  shows "only_running {} (snd (run_remote_job txt grace p it job s))"
proof -
  obtain w a cs where sw: "s = (w, (a, cs))" by (metis prod.collapse)
  obtain h cs' where h: "with_cancel p cs = (h, cs')" by fastforce
  obtain res eff w1 a1 where ex: "executeJob (remote_output (output_net it)) is_disabled txt grace h (job_env it) job
      (w, Activate (ID job) h (CancelRequested job \<noteq> 0) (a, cs')) = ((res, eff), (w1, a1))"
    by (metis prod.collapse)
  have "only_running {} (w, Activate (ID job) h (CancelRequested job \<noteq> 0) (a, cs'))"
    using s sw by (simp add: only_running_def)
  from executeJob_remote_only_running [OF hosts this] ex
  have one: "only_running {} (w1, a1)" by (metis snd_conv)
  note rep = reportResult_remote_queue
  have dis: "fst (snd (on_remote (disableRemote e :: (controllerClient, cc_error, unit) op) v)) = fst v" for e v
    by (simp add: on_remote_def split: prod.split)
  let ?report = "reportResult (remote_finish (finish_nets it)) is_disabled
      (\<lambda>_. cause_of p (snd a1) \<noteq> None) (ID job) res w1"
  obtain r w2 where report: "?report = (r, w2)" by (rule prod.exhaust)
  then have w2: "fst w2 = fst w1"
    using rep [of "finish_nets it" is_disabled "\<lambda>_. cause_of p (snd a1) \<noteq> None" "ID job" res w1] by simp
  then have two: "only_running {} (w2, b)" for b
    using one by (simp add: only_running_def)
  have three: "only_running {} (snd (on_remote (disableRemote e :: (controllerClient, cc_error, unit) op) w2), b)" for e b
    using dis [of e w2] w2 one by (simp add: only_running_def)
  show ?thesis
  proof (cases r)
    case (Inl e)
    then show ?thesis using two by (simp add: run_remote_job_def runJob_def sw h ex report del: not_None_eq)
  next
    case (Inr u)
    then show ?thesis using two three by (simp add: run_remote_job_def runJob_def sw h ex report del: not_None_eq)
  qed
qed

lemma claim_one:
  assumes wf: "wf_queue q" and none: "ids Running q = {}" and c: "claim flt now q = (res, q')"
  shows "case res of Inr (Some j) \<Rightarrow> \<exists>n. 0 \<le> n \<and> ID j = local_id n \<and> ids Running q' = {n}
    | Inr None \<Rightarrow> ids Running q' = {} | Inl e \<Rightarrow> \<exists>n. ids Running q' \<subseteq> {n}"
proof (cases "next_queued q")
  case None
  then have "q' = q \<and> (res = Inr None \<or> (\<exists>e. res = Inl e))"
    using c by (auto simp: claim_def bnd_def sql_def claim_row_def split: option.splits)
  then show ?thesis using none by auto
next
  case (Some r)
  have run: "ids Running (snd (claim_row now q)) = {sequence r}"
    using abs_claim_row [OF wf Some, of now] none by (simp add: abs_queue_def)
  have "1 \<le> sequence r" using wf_sequence_range [OF wf] next_queued_Some [OF Some] by blast
  moreover have "unmarshal_strings (command (start_row q now r)) \<noteq> None"
    using wf_command [OF wf] next_queued_Some [OF Some] by simp
  from scan_wf_row [OF this] ID_job_of [OF this]
  have "scanLocalJob (start_row q now r) = Inr (job_of (start_row q now r))"
    "ID (job_of (start_row q now r)) = local_id (sequence r)" by simp_all
  ultimately show ?thesis
    using c Some run none
    by (cases "flt 0") (auto simp: claim_def bnd_def sql_def claim_row_def intro: exI [of _ "sequence r"])
qed

lemma local_turn_ends:
  assumes hosts: "hosts_guests it" and s: "only_running {} s"
  shows "case local_turn txt grace p it s of
      (Continue, s') \<Rightarrow> only_running {} s' | (Stop e, s') \<Rightarrow> \<exists>n. only_running {n} s'"
proof (cases "job_cause p s \<noteq> None")
  case True
  then show ?thesis
    using s only_running_mono [OF s, of "{0}"]
    by (auto simp: local_turn_def wait_turn_def split: option.split)
next
  case False
  obtain q c a where sq: "s = ((q, c), a)" by (metis prod.collapse)
  have q: "wf_queue q" "ids Running q = {}" using s sq by (auto simp: only_running_def)
  obtain res q' where cl: "claim (claim_faults it) (claim_time it) q = (res, q')" by fastforce
  have wf': "wf_queue q'" using keepsD [OF claim_wf q(1), of "claim_faults it" "claim_time it"] cl by simp
  have eq: "on_backend (on_local (claim (claim_faults it) (claim_time it))) s = (res, ((q', c), a))"
    by (simp add: on_backend_def on_local_def sq cl)
  show ?thesis
  proof (cases res)
    case (Inl e)
    with claim_one [OF q cl] obtain n where "ids Running q' \<subseteq> {n}" by auto
    with Inl wf' show ?thesis using False eq by (auto simp: local_turn_def only_running_def)
  next
    case (Inr jo)
    show ?thesis
    proof (cases jo)
      case None
      with Inr claim_one [OF q cl] wf' have "only_running {} ((q', c), a)" by (simp add: only_running_def)
      then show ?thesis
        using False eq Inr None only_running_mono [of "{}" "((q', c), a)" "{0}"]
        by (auto simp: local_turn_def wait_turn_def split: option.split)
    next
      case (Some j)
      with Inr claim_one [OF q cl] obtain n where n: "0 \<le> n" "ID j = local_id n" "ids Running q' = {n}" by auto
      then have "only_running {n} ((q', c), a)" using wf' by (simp add: only_running_def)
      from run_local_job_ends [OF hosts this n(1,2), of "txt" grace p]
      have "case run_local_job txt grace p it j ((q', c), a) of
          (Continue, s') \<Rightarrow> only_running {} s' | (Stop e, s') \<Rightarrow> \<exists>n. only_running {n} s'"
        by (cases "run_local_job txt grace p it j ((q', c), a)"; cases "fst (run_local_job txt grace p it j ((q', c), a))") auto
      then show ?thesis
        using False eq Inr Some by (simp add: local_turn_def)
    qed
  qed
qed

lemma remote_claim_queue: "fst (snd (remote_claim has_client net w)) = fst w"
  by (cases w; cases net) (simp add: remote_claim_def split: option.split prod.split)

lemma run_turn_ends:
  assumes hosts: "hosts_guests it" and s: "only_running {} s"
  shows "case run_turn has_client txt rtxt grace p it s of
      (Continue, s') \<Rightarrow> only_running {} s' | (Stop e, s') \<Rightarrow> \<exists>n. only_running {n} s'"
proof -
  let ?s = "others_before it s"
  have s1: "only_running {} ?s" using hosts s by (auto simp: hosts_guests_def intro: guest_only_running)
  obtain r w where rc: "remote_claim has_client (claim_net it) (fst ?s) = (r, w)" by (rule prod.exhaust)
  have s2: "only_running {} (w, snd ?s)"
    using s1 remote_claim_queue [of has_client "claim_net it" "fst ?s"] rc by (simp add: only_running_def)
  then have s3: "only_running {} (others_between it (w, snd ?s))"
    using hosts by (auto simp: hosts_guests_def intro: guest_only_running)
  have up: "\<exists>n. only_running {n} t" if "only_running {} t" for t
    using only_running_mono [OF that, of "{0}"] by auto
  have rem: "case run_remote_job rtxt grace p it job (w, snd ?s) of
      (Continue, s') \<Rightarrow> only_running {} s' | (Stop e, s') \<Rightarrow> \<exists>n. only_running {n} s'" for job
    using run_remote_job_none [OF hosts s2, of rtxt grace p job] up
    by (cases "run_remote_job rtxt grace p it job (w, snd ?s)") (auto split: turn.split)
  show ?thesis
  proof (cases "job_cause p ?s")
    case (Some e)
    then show ?thesis using up [OF s1] by (simp add: run_turn_def Let_def)
  next
    case None
    then show ?thesis
      using rc rem up [OF s2] local_turn_ends [OF hosts s3, of "txt" grace p]
      by (auto simp: run_turn_def Let_def split: sum.split option.split)
  qed
qed

lemma loop_ends:
  assumes "only_running {} s" "list_all hosts_guests its"
  shows "case run_loop has_client txt rtxt grace p its s of
      (Continue, s') \<Rightarrow> wf_queue (fst (fst s')) \<and> ids Running (fst (fst s')) = {}
    | (Stop e, s') \<Rightarrow> wf_queue (fst (fst s')) \<and> (\<exists>n. ids Running (fst (fst s')) \<subseteq> {n})"
proof -
  have "case run_loop has_client txt rtxt grace p its s of
      (Continue, s') \<Rightarrow> only_running {} s' | (Stop e, s') \<Rightarrow> \<exists>n. only_running {n} s'"
    using assms
  proof (induction its arbitrary: s)
    case (Cons it its)
    obtain t s' where t: "run_turn has_client txt rtxt grace p it s = (t, s')" by (rule prod.exhaust)
    show ?case
    proof (cases t)
      case Continue
      with t run_turn_ends [of it s has_client "txt" rtxt grace p] Cons.prems
      have "only_running {} s'" by simp
      with Cons.IH [OF this] Cons.prems t Continue show ?thesis by simp
    next
      case (Stop e)
      with t run_turn_ends [of it s has_client "txt" rtxt grace p] Cons.prems show ?thesis by simp
    qed
  qed simp
  then show ?thesis
    by (cases "run_loop has_client txt rtxt grace p its s";
        cases "fst (run_loop has_client txt rtxt grace p its s)") (auto simp: only_running_def)
qed

section \<open>Properties\<close>

text \<open>C2. The worker runs one job at a time: from a queue in which nothing is running (the
  state after \<open>recover\<close>), whatever the network, the driver and the clients of the socket do,
  each time the loop comes round nothing is marked running, and when it stops at most one
  local job is, the one whose outcome could not be recorded.\<close>

theorem one_job_at_a_time:
  assumes "only_running {} s" "list_all hosts_guests its"
  shows "case run_loop has_client txt rtxt grace p its s of
      (Continue, s') \<Rightarrow> wf_queue (fst (fst s')) \<and> ids Running (fst (fst s')) = {}
    | (Stop e, s') \<Rightarrow> wf_queue (fst (fst s')) \<and> (\<exists>n. ids Running (fst (fst s')) \<subseteq> {n})"
  by (rule loop_ends [OF assms])

definition quiet_turn :: iteration where
  "quiet_turn = \<lparr>others_before = \<lambda>s. s, others_between = \<lambda>s. s, claim_net = (False, [], Canceled),
     claim_faults = no_faults, claim_time = 7,
     job_env = \<lparr>temp_file = Inr ''/tmp/jobd-1.log'', os_environ = [], outcome = Exited 0 None, world = \<lambda>_ s. s\<rparr>,
     output_faults = no_faults, finish_faults = \<lambda>_. no_faults, finish_time = 9,
     output_net = (False, [], Canceled), finish_nets = \<lambda>_. (False, [], Canceled), wait_ends = None\<rparr>"

definition off_client :: controllerClient where
  "off_client = \<lparr>remoteDisabled = True, apiKey = ''k'', baseURL = ''https://c/queues/q'',
     cc_workerID = ''w'', sent = [], accepted = []\<rparr>"

lemma quiet_turn_guests: "hosts_guests quiet_turn"
  by (simp add: hosts_guests_def quiet_turn_def guest_def)

theorem one_job_at_a_time_witness:
  "case run_loop True (\<lambda>_. []) (\<lambda>_. []) 5 0 [quiet_turn, quiet_turn] ((two_waiting, off_client), (idle, background)) of
      (Continue, s') \<Rightarrow> wf_queue (fst (fst s')) \<and> ids Running (fst (fst s')) = {}
    | (Stop e, s') \<Rightarrow> wf_queue (fst (fst s')) \<and> (\<exists>n. ids Running (fst (fst s')) \<subseteq> {n})"
  by (rule one_job_at_a_time) (simp_all add: only_running_def two_waiting_wf quiet_turn_guests)

lemma guest_respects:
  assumes "guest f" "wf_queue (fst (fst s))" "local_running (fst (fst s)) jid"
  shows "wf_queue (fst (fst (f s))) \<and> local_running (fst (fst (f s))) jid"
proof -
  from assms(1) have "client_reaches (fst (fst s)) (fst (fst (f s)))" unfolding guest_def by blast
  from client_reaches_runs [OF assms(2) this] assms(3) show ?thesis
    by (simp add: local_running_def ids_Running_runs)
qed


definition claimed_job :: job where
  "claimed_job = job_of (start_row two_waiting 7 (new_row 1 (marshal_strings [''ls'']) 5 1))"

lemma ID_claimed_job: "ID claimed_job = local_id 1"
  unfolding claimed_job_def
  by (subst ID_job_of) (simp_all add: new_row_def unmarshal_marshal)


section \<open>Remote jobs\<close>

lemma client_finish_cases:
  assumes "client_finish nets i jid res c = (r, c')"
  shows "(r = Inr () \<longrightarrow> reported c' jid (result_ok res)) \<and>
    (\<forall>e. r = Inl e \<and> is_disabled e \<longrightarrow> remoteDisabled c')"
proof
  show "r = Inr () \<longrightarrow> reported c' jid (result_ok res)"
    using remote.finish_settles [OF TrueI] assms by blast
  obtain outage rs e0 where net: "nets i = (outage, rs, e0)" by (metis prod_cases3)
  obtain path payload where req: "finish_request jid res c = (path, payload)" by (rule prod.exhaust)
  from post_log [of "until rs e0" "length rs" outage path payload False c, OF until_ends]
  obtain r' c1 where post: "post outage path payload False (until rs e0) c = Some (r', c1)" by blast
  show "\<forall>e. r = Inl e \<and> is_disabled e \<longrightarrow> remoteDisabled c'"
  proof (intro allI impI)
    fix e assume e: "r = Inl e \<and> is_disabled e"
    then have "r' = Inl e" "c' = c1"
      using assms post by (auto simp: client_finish_def net Finish_remote_def req settle_result_def split: sum.splits)
    then show "remoteDisabled c'"
      using post_error_disables [of "until rs e0" "length rs" outage path payload False c e c1, OF until_ends]
        post e by (auto simp: is_disabled_def split: cc_error.splits)
  qed
qed

lemma remote_report_cases:
  assumes rep: "reportResult (remote_finish nets) is_disabled ctx_done jid res w = (Inr u, w')"
  shows "reported (snd w') jid (result_ok res) \<or> remoteDisabled (snd w')"
proof -
  have fin: "(r = Inr () \<longrightarrow> reported (snd w2) jid (result_ok res)) \<and>
      (\<forall>e. r = Inl e \<and> is_disabled e \<longrightarrow> remoteDisabled (snd w2))"
    if "remote_finish nets i jid res w1 = (r, w2)" for i r w1 w2
    using client_finish_cases [of nets i jid res "snd w1" r "snd w2"] that
    by (simp add: remote_finish_def on_remote_def split: prod.splits) auto
  obtain r1 w1 where one: "remote_finish nets 0 jid res w = (r1, w1)" by (rule prod.exhaust)
  obtain r2 w2 where two: "remote_finish nets 1 jid res w1 = (r2, w2)" by (rule prod.exhaust)
  show ?thesis
    using rep fin [OF one] fin [OF two] one two
    by (auto simp: reportResult_def split: sum.splits if_splits)
qed

text \<open>With the switch set, the remote backend does nothing.\<close>

lemma remote_finish_off:
  assumes "remoteDisabled (snd w)"
  shows "remote_finish nets i jid res w = (Inl (RemoteDisabled None), w)"
proof -
  obtain q c where w: "w = (q, c)" by (rule prod.exhaust)
  obtain outage rs e where "nets i = (outage, rs, e)" by (metis prod_cases3)
  with assms w show ?thesis
    by (simp add: remote_finish_def on_remote_def client_finish_def Finish_remote_def post_off
        settle_result_def split: prod.split)
qed

lemma remote_output_off:
  assumes "remoteDisabled (snd w)"
  shows "remote_output net jid path w = (Inl (RemoteDisabled None), w)"
proof -
  obtain q c where w: "w = (q, c)" by (rule prod.exhaust)
  obtain outage rs e where "net = (outage, rs, e)" by (metis prod_cases3)
  with assms w show ?thesis
    by (simp add: remote_output_def on_remote_def client_output_def Output_remote_def post_off settle_result_def)
qed

lemma run_remote_job_off:
  assumes off: "remoteDisabled (snd (fst s))" and quiet: "\<And>i t. world (job_env it) i t = t"
  shows "fst (run_remote_job txt grace p it job s) = Continue"
proof -
  obtain w a cs where sw: "s = (w, (a, cs))" by (metis prod.collapse)
  obtain h cs' where h: "with_cancel p cs = (h, cs')" by (rule prod.exhaust)
  obtain res eff w1 a1 where ex: "executeJob (remote_output (output_net it)) is_disabled txt grace h (job_env it) job
      (w, Activate (ID job) h (CancelRequested job \<noteq> 0) (a, cs')) = ((res, eff), (w1, a1))"
    by (metis prod.collapse)
  let ?B = "\<lambda>t :: wstate shared. remoteDisabled (snd (fst t))"
  have "?B (snd (executeJob (remote_output (output_net it)) is_disabled txt grace h (job_env it) job
      (w, Activate (ID job) h (CancelRequested job \<noteq> 0) (a, cs'))))"
    using off sw quiet
    by (intro executeJob_keeps [where B = ?B])
      (auto simp: on_backend_def remote_output_off split: prod.split)
  then have "remoteDisabled (snd w1)" using ex by simp
  then show ?thesis
    by (simp add: run_remote_job_def runJob_def sw h ex reportResult_def remote_finish_off is_disabled_def
        del: not_None_eq)
qed

text \<open>C15. A remote outcome is never dropped silently: after a remote job the loop goes on only
  if the controller has accepted the job's completion or failure, or remote work is disabled
  until a restart; and a job that failed by itself always disables it, so that the worker
  does not go on failing the queue's jobs.\<close>

theorem remote_outcomes_are_reported_or_remote_stops:
  assumes "run_remote_job txt grace p it job s = (Continue, s')"
  shows "((\<exists>ok. reported (snd (fst s')) (ID job) ok) \<or> remoteDisabled (snd (fst s'))) \<and>
    (\<exists>res. fst (runJob (remote_output (output_net it)) (remote_finish (finish_nets it)) is_disabled txt
        (\<lambda>w. snd (on_remote (disableRemote (RemoteJobFailed (ID job)) :: (controllerClient, cc_error, unit) op) w))
        grace p (job_env it) job s) = Inr res \<and> (remote_failure res \<longrightarrow> remoteDisabled (snd (fst s'))))"
proof -
  obtain w a cs where sw: "s = (w, (a, cs))" by (metis prod.collapse)
  obtain h cs' where h: "with_cancel p cs = (h, cs')" by (rule prod.exhaust)
  obtain res eff w1 a1 where ex: "executeJob (remote_output (output_net it)) is_disabled txt grace h (job_env it) job
      (w, Activate (ID job) h (CancelRequested job \<noteq> 0) (a, cs')) = ((res, eff), (w1, a1))"
    by (metis prod.collapse)
  let ?report = "reportResult (remote_finish (finish_nets it)) is_disabled
      (\<lambda>_. cause_of p (snd a1) \<noteq> None) (ID job) res w1"
  obtain r w2 where report: "?report = (r, w2)" by (rule prod.exhaust)
  let ?off = "\<lambda>w. snd (on_remote (disableRemote (RemoteJobFailed (ID job)) :: (controllerClient, cc_error, unit) op) w)"
  have off: "remoteDisabled (snd (?off v)) \<and> accepted (snd (?off v)) = accepted (snd v)" for v
    by (cases v) (simp add: on_remote_def disableRemote_def)
  have r: "r = Inr ()" "fst s' = (if remote_failure res then ?off w2 else w2)"
    using assms by (auto simp: run_remote_job_def runJob_def sw h ex report simp del: not_None_eq split: sum.splits)
  have w2: "(\<exists>ok. reported (snd w2) (ID job) ok) \<or> remoteDisabled (snd w2)"
    using remote_report_cases [OF report [unfolded r(1)]] by blast
  have "fst (runJob (remote_output (output_net it)) (remote_finish (finish_nets it)) is_disabled txt ?off
      grace p (job_env it) job s) = Inr res"
    using r(1) by (simp add: runJob_def sw h ex report del: not_None_eq)
  moreover have "(\<exists>ok. reported (snd (fst s')) (ID job) ok) \<or> remoteDisabled (snd (fst s'))"
    using w2 off [of w2] r(2) by (auto simp: reported_def)
  moreover have "remote_failure res \<longrightarrow> remoteDisabled (snd (fst s'))"
    using off [of w2] r(2) by simp
  ultimately show ?thesis by blast
qed

theorem remote_outcomes_are_reported_or_remote_stops_witness:
  "let out = run_remote_job (\<lambda>_. []) 5 0 quiet_turn claimed_job ((two_waiting, off_client), (idle, background)) in
   fst out = Continue \<and>
   ((\<exists>ok. reported (snd (fst (snd out))) (ID claimed_job) ok) \<or> remoteDisabled (snd (fst (snd out))))"
proof -
  let ?out = "run_remote_job (\<lambda>_. []) 5 0 quiet_turn claimed_job ((two_waiting, off_client), (idle, background))"
  have go: "fst ?out = Continue"
    by (rule run_remote_job_off) (simp_all add: off_client_def quiet_turn_def)
  then have "?out = (Continue, snd ?out)" by (metis prod.collapse)
  from remote_outcomes_are_reported_or_remote_stops [OF this] go show ?thesis
    unfolding Let_def by blast
qed

section \<open>A cancellation outlives its job\<close>

text \<open>A job claimed from the local queue never carries a cancellation mark of its own.\<close>

lemma queued_not_cancelled: "wf_queue q \<Longrightarrow> r \<in> set (jobs q) \<Longrightarrow> queued r \<Longrightarrow> cancel_requested r = 0"
  using wf_rowD [of q r] by (simp add: wf_row_def row_shape_def queued_def)

lemma claim_head_job:
  assumes wf: "wf_queue q" and w: "waiting q = n # ns"
  shows "\<exists>j q'. claim no_faults now q = (Inr (Some j), q') \<and> ID j = local_id n \<and> CancelRequested j = 0"
proof -
  from w obtain r where r: "next_queued q = Some r" "sequence r = n"
    by (auto simp: next_queued_waiting waiting_def split: list.splits)
  let ?r = "start_row q now r"
  have cmd: "unmarshal_strings (command ?r) \<noteq> None"
    using wf_command [OF wf] next_queued_Some [OF r(1)] by simp
  then have "CancelRequested (job_of ?r) = cancel_requested r"
    by (auto simp: job_of_def scanLocalJob_def start_row_def)
  moreover have "cancel_requested r = 0"
    using queued_not_cancelled [OF wf] next_queued_Some [OF r(1)] by blast
  ultimately show ?thesis
    using claim_some [OF wf r(1), of now] ID_job_of [OF cmd] r(2) by auto
qed

lemma requestCancel_ok:
  assumes "wf_queue q" "n \<in> ids Running q"
  shows "\<exists>q'. requestCancel no_faults (Some f) (local_id n) (q, c) = (Inr (), (q', f (local_id n) c)) \<and>
    wf_queue q' \<and> abs_queue q' = abs_queue q"
proof -
  let ?f = "\<lambda>r. r\<lparr>cancel_requested := 1\<rparr>"
  have "abs_queue (snd (updateRunning no_faults (local_id n) ?f q)) = abs_queue q"
    by (rule updateRunning_same_abs [OF assms(1) keeps_row_cancel]) simp
  moreover have "wf_queue (snd (updateRunning no_faults (local_id n) ?f q))"
    by (rule keepsD [OF updateRunning_wf [OF keeps_row_cancel] assms(1)])
  ultimately show ?thesis
    using updateRunning_ok [OF assms, of ?f] by (simp add: requestCancel_def)
qed

lemma Finish_failed:
  assumes wf: "wf_queue q" and n: "n \<in> ids Running q" and res: "\<not> result_ok res"
  shows "\<exists>q'. Finish no_faults now (local_id n) res q = (Inr (), q') \<and> wf_queue q' \<and>
    waiting q' = waiting q \<and> n \<in> ids Failed q'"
proof -
  from n obtain r where r: "r \<in> set (jobs q)" "running r" "sequence r = n"
    by (auto simp: ids_def running_def)
  let ?q = "snd (update_where (\<lambda>x. sequence x = n \<and> running x) (finish_row now res) q)"
  have "Finish no_faults now (local_id n) res q = (Inr (), ?q)"
    using updateRunning_ok [OF wf n] by (simp add: Finish_def)
  moreover from this have "wf_queue ?q" using keepsD [OF Finish_wf wf] by (metis snd_conv)
  moreover have "waiting ?q = waiting q" "n \<in> ids Failed ?q"
    using abs_finish_row [OF wf r(1,2), of now res] r(3) res by (simp_all add: abs_queue_def)
  ultimately show ?thesis by blast
qed

lemma activated_cause:
  assumes "requestedID a = jid" "cause_of p cs = None" "p < length cs" "with_cancel p cs = (h, cs')"
  shows "cause_of h (snd (Activate jid h b (a, cs'))) = Some RemoteCancellation"
proof -
  have h: "h = length cs" "cs' = cs @ [\<lparr>above = p # above (cs ! p), cause = cause (cs ! p)\<rparr>]"
    using assms(4) by (simp_all add: with_cancel_def)
  then have "cause_of h cs' = None" "h < length cs'"
    using assms(2,3) by (simp_all add: cause_of_def)
  then have "cause_of h (cancel_ctx h RemoteCancellation cs') = Some RemoteCancellation"
    by (simp add: cause_of_cancel_ctx under_def)
  with assms(1) show ?thesis by (simp add: Activate_def)
qed

text \<open>A job whose cancellation was requested before it is activated ends as cancelled, with no process.\<close>

lemma requested_job_is_not_run:
  assumes "requestedID act = ID j" "cause_of p cs = None" "p < length cs" "with_cancel p cs = (h, cs')"
    and "\<forall>t. snd (world env 0 t) = snd t"
  shows "fst (executeJob outp exempt msg grace h env j (s, Activate (ID j) h req (act, cs'))) =
    (\<lparr>rExitCode = None, rError = ''Job cancelled by user'', rOutputPath = [], rCancelled = True\<rparr>, [])"
proof -
  have "job_cause h (world env 0 (s, Activate (ID j) h req (act, cs'))) = Some RemoteCancellation"
    unfolding job_cause_def assms(5) [rule_format] snd_conv by (rule activated_cause [OF assms(1-4)])
  then show ?thesis by (simp add: executeJob_def Let_def cancellationResult_def)
qed

text \<open>C37. The worker remembers a cancellation request for ever, so that a job which a user
  cancelled cannot be retried: cancel a running local job, let it finish as failed, retry it;
  it is claimed again with no cancellation requested, but when it is activated (with no other
  cancellation in between) its context is cancelled at once, no process is started, and it
  ends as cancelled by the user a second time.\<close>

theorem retried_job_is_cancelled_again:
  assumes wf: "wf_queue q" and n: "n \<in> ids Running q" and empty: "waiting q = []"
    and res: "\<not> result_ok res" and p: "cause_of p cs = None" "p < length cs"
  shows "\<exists>q1 a1 q2 q3 j q4.
    requestCancel no_faults (Some RequestCancellation) (local_id n) (q, (a, cs0)) = (Inr (), (q1, a1)) \<and>
    Finish no_faults t1 (local_id n) res q1 = (Inr (), q2) \<and>
    retry no_faults (local_id n) q2 = (Inr 1, q3) \<and>
    claim no_faults t2 q3 = (Inr (Some j), q4) \<and> ID j = local_id n \<and> CancelRequested j = 0 \<and>
    (\<forall>(env :: 's surroundings) h cs' outp (exempt :: 'e \<Rightarrow> bool) txt s. with_cancel p cs = (h, cs') \<and>
      (\<forall>t. snd (world env 0 t) = snd t) \<longrightarrow>
      fst (executeJob outp exempt txt grace h env j
        (s, Activate (ID j) h (CancelRequested j \<noteq> 0) (fst (Deactivate (local_id n) a1), cs'))) =
      (\<lparr>rExitCode = None, rError = ''Job cancelled by user'', rOutputPath = [], rCancelled = True\<rparr>, []))"
proof -
  from requestCancel_ok [OF wf n, of RequestCancellation "(a, cs0)"] obtain q1 where
    q1: "requestCancel no_faults (Some RequestCancellation) (local_id n) (q, (a, cs0)) =
      (Inr (), (q1, RequestCancellation (local_id n) (a, cs0)))" "wf_queue q1" "abs_queue q1 = abs_queue q" by blast
  let ?a1 = "RequestCancellation (local_id n) (a, cs0)"
  have run1: "n \<in> ids Running q1" "waiting q1 = []" using q1(3) n empty by (simp_all add: abs_queue_def)
  from Finish_failed [OF q1(2) run1(1) res, of t1] obtain q2 where q2:
    "Finish no_faults t1 (local_id n) res q1 = (Inr (), q2)" "wf_queue q2" "waiting q2 = []" "n \<in> ids Failed q2"
    using run1(2) by auto
  from q2(4) obtain r where r: "r \<in> set (jobs q2)" "status r = Failed" "sequence r = n"
    by (auto simp: ids_def)
  let ?q3 = "requeue n q2"
  have q3: "retry no_faults (local_id n) q2 = (Inr 1, ?q3)" "waiting ?q3 = [n]"
    using retry_one_ok [OF q2(2) r(1,2)] r(3) q2(3) by (simp_all add: abs_queue_def)
  from claim_head_job [OF requeue_wf [OF q2(2)] q3(2), of t2] obtain j q4 where j:
    "claim no_faults t2 ?q3 = (Inr (Some j), q4)" "ID j = local_id n" "CancelRequested j = 0" by blast
  have "requestedID (fst (Deactivate (local_id n) ?a1)) = ID j" using j(2) by simp
  note ends = requested_job_is_not_run [OF this p]
  show ?thesis
    by (intro exI conjI, rule q1, rule q2, rule q3, rule j, rule j, rule j) (intro allI impI, elim conjE, rule ends)
qed

theorem retried_job_is_cancelled_again_witness:
  "\<exists>q1 a1 q2 q3 j q4.
    requestCancel no_faults (Some RequestCancellation) (local_id 1)
      (lq_exec no_faults (Remove (local_id 2)) one_running, (idle, background)) = (Inr (), (q1, a1)) \<and>
    Finish no_faults 9 (local_id 1) (error_result ''Job cancelled by user'') q1 = (Inr (), q2) \<and>
    retry no_faults (local_id 1) q2 = (Inr 1, q3) \<and>
    claim no_faults 11 q3 = (Inr (Some j), q4) \<and> CancelRequested j = 0"
proof -
  let ?q = "lq_exec no_faults (Remove (local_id 2)) one_running"
  have wf: "wf_queue ?q" by (rule lq_exec_wf [OF one_running_wf])
  have "localSequence (local_id 2) = Inr 2" by (simp add: localSequence_iff max_int64_def)
  then have q: "?q = snd (delete_where (\<lambda>r. sequence r = 2 \<and> \<not> running r) one_running)"
    by (simp add: remove_def bnd_def)
  have "1 \<in> ids Running ?q" "waiting ?q = []"
    unfolding q by (simp_all add: ids_code example_simps delete_where_def)
  from retried_job_is_cancelled_again [OF wf this, of "error_result ''Job cancelled by user''" 0 background
      idle background 9 11] show ?thesis
    by (simp add: cause_of_def background_def) blast
qed

end
