(* ===== verification/GoPaths.thy ===== *)
theory GoPaths
  imports GoStrings
begin

text \<open>
  The package path/filepath as the program uses it on Unix: \<open>Clean\<close> and \<open>Join\<close>; and the
  expansion of \<open>~\<close> in a state directory, which cli/local.go and worker/main.go both make.
\<close>

section \<open>Clean and Join\<close>

fun path_parts :: "string \<Rightarrow> string list" where
  "path_parts [] = [[]]"
| "path_parts (c # cs) = (if c = CHR ''/'' then [] # path_parts cs
     else (c # hd (path_parts cs)) # tl (path_parts cs))"

definition push_char :: "char \<Rightarrow> string list \<Rightarrow> string list" where
  "push_char c ps = (if c = CHR ''/'' then [] # ps else (c # hd ps) # tl ps)"

lemma path_parts_code [code]:
  "path_parts [] = [[]]"
  "path_parts (c # cs) = push_char c (path_parts cs)"
  by (simp_all add: push_char_def)

definition clean_step :: "bool \<Rightarrow> string \<Rightarrow> string list \<Rightarrow> string list" where
  "clean_step rooted part acc =
     (if part = [] \<or> part = ''.'' then acc
      else if part = ''..'' then (case acc of
          [] \<Rightarrow> if rooted then [] else [part]
        | p # ps \<Rightarrow> if p = ''..'' then part # acc else ps)
      else part # acc)"

definition rooted :: "string \<Rightarrow> bool" where
  "rooted s \<longleftrightarrow> has_prefix s ''/''"

definition clean_stack :: "string \<Rightarrow> string list" where
  "clean_stack s = fold (clean_step (rooted s)) (path_parts s) []"

definition Clean :: "string \<Rightarrow> string" where
  "Clean s = (let parts = rev (clean_stack s) in
     if rooted s then CHR ''/'' # join parts ''/'' else if parts = [] then ''.'' else join parts ''/'')"

definition Join :: "string list \<Rightarrow> string" where
  "Join elems = (case dropWhile (\<lambda>e. e = []) elems of [] \<Rightarrow> [] | es \<Rightarrow> Clean (join es ''/''))"

definition Dir :: "string \<Rightarrow> string" where
  "Dir s = Clean (rev (dropWhile (\<lambda>c. c \<noteq> CHR ''/'') (rev s)))"

text \<open>\<open>~\<close> and \<open>~/...\<close> are the home directory, which may be unknown.\<close>

definition expand_home :: "'e + string \<Rightarrow> string \<Rightarrow> 'e + string" where
  "expand_home home dir =
     (if dir = ''~'' \<or> has_prefix dir ''~/''
      then (case home of Inl e \<Rightarrow> Inl e | Inr h \<Rightarrow> Inr (Join [h, trim_prefix dir ''~''])) else Inr dir)"

section \<open>Cleaning in steps\<close>

lemma path_parts_nonempty [simp]: "path_parts s \<noteq> []"
  by (induction s) auto

lemma path_parts_append: "path_parts (s @ CHR ''/'' # t) = path_parts s @ path_parts t"
  by (induction s) auto

lemma path_parts_single: "CHR ''/'' \<notin> set s \<Longrightarrow> path_parts s = [s]"
  by (induction s) auto

lemma path_parts_no_slash: "p \<in> set (path_parts s) \<Longrightarrow> CHR ''/'' \<notin> set p"
proof (induction s arbitrary: p)
  case (Cons c s)
  then show ?case
    by (cases "path_parts s") (auto split: if_splits)
qed simp

lemma path_parts_join:
  "ps \<noteq> [] \<Longrightarrow> \<forall>p \<in> set ps. CHR ''/'' \<notin> set p \<Longrightarrow> path_parts (join ps ''/'') = ps"
  by (induction ps "''/''" rule: join.induct) (simp_all add: path_parts_append path_parts_single)

text \<open>The stacks that cleaning makes: proper names above leading \<open>..\<close>, none of those under a root.\<close>

fun good_stack :: "bool \<Rightarrow> string list \<Rightarrow> bool" where
  "good_stack r [] = True"
| "good_stack r (p # ps) \<longleftrightarrow> p \<noteq> [] \<and> p \<noteq> ''.'' \<and> CHR ''/'' \<notin> set p \<and>
     (p = ''..'' \<longrightarrow> \<not> r \<and> set ps \<subseteq> {''..''}) \<and> good_stack r ps"

lemma good_clean_step: "CHR ''/'' \<notin> set p \<Longrightarrow> good_stack r ps \<Longrightarrow> good_stack r (clean_step r p ps)"
  by (cases ps) (auto simp: clean_step_def)

lemma good_clean_fold:
  "\<forall>p \<in> set qs. CHR ''/'' \<notin> set p \<Longrightarrow> good_stack r ps \<Longrightarrow> good_stack r (fold (clean_step r) qs ps)"
  by (induction qs arbitrary: ps) (simp_all add: good_clean_step)

lemma good_clean_stack: "good_stack (rooted s) (clean_stack s)"
  unfolding clean_stack_def by (rule good_clean_fold) (auto dest: path_parts_no_slash)

lemma clean_good: "good_stack r ps \<Longrightarrow> fold (clean_step r) (rev ps) [] = ps"
proof (induction ps)
  case (Cons p ps)
  then have "fold (clean_step r) (rev ps) [] = ps" by simp
  moreover have "clean_step r p ps = p # ps"
    using Cons.prems by (cases ps) (auto simp: clean_step_def)
  ultimately show ?case by simp
qed simp

lemma good_no_slash: "good_stack r ps \<Longrightarrow> p \<in> set ps \<Longrightarrow> p \<noteq> [] \<and> CHR ''/'' \<notin> set p"
  by (induction ps) auto

lemma join_hd: "ps \<noteq> [] \<Longrightarrow> hd ps \<noteq> [] \<Longrightarrow> join ps sep \<noteq> [] \<and> hd (join ps sep) = hd (hd ps)"
  by (cases "(ps, sep)" rule: join.cases) auto

lemma rooted_iff: "rooted s \<longleftrightarrow> s \<noteq> [] \<and> hd s = CHR ''/''"
  by (cases s) (auto simp: rooted_def has_prefix_def)

lemma rooted_Clean [simp]: "rooted (Clean s) = rooted s"
proof (cases "rooted s \<or> clean_stack s = []")
  case True
  then show ?thesis by (auto simp: Clean_def Let_def rooted_iff)
next
  case False
  let ?ps = "rev (clean_stack s)"
  from False have "hd ?ps \<noteq> [] \<and> CHR ''/'' \<notin> set (hd ?ps)"
    using good_no_slash [OF good_clean_stack, of "hd ?ps" s] by (metis hd_in_set rev_is_Nil_conv set_rev)
  moreover from this have "hd (hd ?ps) \<noteq> CHR ''/''" using list.set_sel(1) by metis
  moreover have "Clean s = join ?ps ''/''" using False by (simp add: Clean_def Let_def)
  ultimately show ?thesis using False join_hd [of ?ps "''/''"] by (simp add: rooted_iff)
qed

lemma fold_parts_Clean: "fold (clean_step (rooted s)) (path_parts (Clean s)) [] = clean_stack s"
proof -
  let ?ps = "rev (clean_stack s)"
  have ps: "path_parts (join ?ps ''/'') = ?ps" if "?ps \<noteq> []"
    using that good_no_slash [OF good_clean_stack, of _ s] by (intro path_parts_join) auto
  have fold: "fold (clean_step (rooted s)) ?ps [] = clean_stack s"
    by (rule clean_good [OF good_clean_stack])
  have empty: "clean_step r [] acc = acc" for r acc by (simp add: clean_step_def)
  have dot: "path_parts ''.'' = [''.'']" "clean_step r ''.'' acc = acc" for r acc
    by (simp_all add: clean_step_def)
  show ?thesis
    by (cases "?ps = []") (use ps fold in \<open>auto simp: Clean_def Let_def empty dot\<close>)
qed

lemma Clean_eqI: "rooted s = rooted t \<Longrightarrow> clean_stack s = clean_stack t \<Longrightarrow> Clean s = Clean t"
  by (simp add: Clean_def)

lemma Clean_nonempty [simp]: "Clean s \<noteq> []"
proof
  assume "Clean s = []"
  then have "\<not> rooted s" "clean_stack s \<noteq> []" "join (rev (clean_stack s)) ''/'' = []"
    by (auto simp: Clean_def Let_def split: if_splits)
  moreover have "hd (rev (clean_stack s)) \<noteq> []" if "clean_stack s \<noteq> []"
    using that good_no_slash [OF good_clean_stack, of "hd (rev (clean_stack s))" s]
    by (metis hd_in_set rev_is_Nil_conv set_rev)
  ultimately show False using join_hd [of "rev (clean_stack s)" "''/''"] by simp
qed

lemma rooted_append: "s \<noteq> [] \<Longrightarrow> rooted (s @ t) = rooted s"
  by (simp add: rooted_iff)

lemma Clean_append: "s \<noteq> [] \<Longrightarrow> Clean (Clean s @ CHR ''/'' # t) = Clean (s @ CHR ''/'' # t)"
  by (rule Clean_eqI)
    (simp_all add: rooted_append clean_stack_def path_parts_append fold_parts_Clean [unfolded clean_stack_def])

lemma Join_nonempty [simp]: "d \<noteq> [] \<Longrightarrow> Join (d # es) \<noteq> []"
  by (simp add: Join_def)

text \<open>Joining in two steps is joining at once.\<close>

lemma Join_Join: "d \<noteq> [] \<Longrightarrow> Join [Join [d, e], f] = Join [d, e, f]"
  using Clean_append [of "d @ CHR ''/'' # e" f] by (simp add: Join_def)

end
