(* ===== verification/Identity.thy ===== *)
theory Identity
  imports GoPaths GoJson
begin

text \<open>
  The identity of a worker, worker/identity_linux.go: the lock that a daemon holds for its whole
  life, and the identifier in the state directory, written once. The directory is a record; what
  else the system calls may answer is a fault oracle, call by call in the order of the code.
\<close>

section \<open>The code\<close>

datatype id_error = SysError string | LockHeld | InvalidIdentity string

text \<open>\<open>worker-id\<close> is absent, readable, or not readable. The lock is held by an open descriptor.\<close>

datatype id_file = NoID | IDFile string | Unreadable string

record stateDir =
  worker_id_file :: id_file
  temporary :: "string option"
  lock_held :: bool

type_synonym 'a dir_op = "(stateDir, id_error, 'a) op"

type_synonym call_faults = "nat \<Rightarrow> string option"

definition syscall :: "call_faults \<Rightarrow> nat \<Rightarrow> unit dir_op" where
  "syscall flt i = (case flt i of None \<Rightarrow> ret () | Some e \<Rightarrow> fail (SysError e))"

text \<open>\<open>uuid[6] & 0x0f | 0x40\<close> and \<open>uuid[8] & 0x3f | 0x80\<close> on the bytes of a random UUID.\<close>

definition uuid_bytes :: "nat list \<Rightarrow> nat list" where
  "uuid_bytes bs = bs[6 := or (and (bs ! 6) 15) 64, 8 := or (and (bs ! 8) 63) 128]"

definition hex_bytes :: "nat list \<Rightarrow> string" where
  "hex_bytes bs = concat (map (\<lambda>b. [hex (b div 16), hex b]) bs)"

definition uuid_text :: "nat list \<Rightarrow> string" where
  "uuid_text bs = (let u = uuid_bytes bs in
     hex_bytes (take 4 u) @ ''-'' @ hex_bytes (take 2 (drop 4 u)) @ ''-'' @ hex_bytes (take 2 (drop 6 u)) @ ''-'' @
     hex_bytes (take 2 (drop 8 u)) @ ''-'' @ hex_bytes (drop 10 u))"

text \<open>The regular expression: groups of 8, 4, 4, 4 and 12 hexadecimal digits with dashes between.\<close>

definition hex_digit :: "char \<Rightarrow> bool" where
  "hex_digit c \<longleftrightarrow> in_range 48 57 c \<or> in_range 97 102 c \<or> in_range 65 70 c"

fun uuid_groups :: "nat list \<Rightarrow> string \<Rightarrow> bool" where
  "uuid_groups [] s \<longleftrightarrow> False"
| "uuid_groups [n] s \<longleftrightarrow> length s = n \<and> list_all hex_digit s"
| "uuid_groups (n # ns) s \<longleftrightarrow> list_all hex_digit (take n s) \<and> n < length s \<and> s ! n = CHR ''-'' \<and> uuid_groups ns (drop (Suc n) s)"

definition is_uuid :: "string \<Rightarrow> bool" where
  "is_uuid s = uuid_groups [8, 4, 4, 4, 12] s"

definition lower_char :: "char \<Rightarrow> char" where
  "lower_char c = (if in_range 65 90 c then char_of (byte c + 32) else c)"

text \<open>\<open>strings.ToLower\<close> of what the regular expression has let through, which is ASCII.\<close>

definition accept_id :: "string \<Rightarrow> (stateDir, id_error, string) op" where
  "accept_id data = (let i = trim_space data in
     if is_uuid i then ret (map lower_char i) else fail (InvalidIdentity i))"

text \<open>
  \<open>loadOrCreate\<close>, with the random bytes drawn. The calls 3, 4 and 5 are \<open>rand.Read\<close>, \<open>WriteFile\<close>
  and \<open>Rename\<close>; a failed write may leave any part of the temporary file.
\<close>

definition loadOrCreate :: "call_faults \<Rightarrow> nat list \<Rightarrow> string dir_op" where
  "loadOrCreate flt bs = (\<lambda>d. case worker_id_file d of
     Unreadable e \<Rightarrow> (Inl (SysError e), d)
   | IDFile data \<Rightarrow> accept_id data d
   | NoID \<Rightarrow>
      (let data = uuid_text bs @ [CHR 0x0A] in
       bnd (syscall flt 3) (\<lambda>_. bnd (\<lambda>d. case flt 4 of
           Some e \<Rightarrow> (Inl (SysError e), d\<lparr>temporary := Some (take (length e) data)\<rparr>)
         | None \<Rightarrow> (Inr (), d\<lparr>temporary := Some data\<rparr>)) (\<lambda>_.
       bnd (syscall flt 5) (\<lambda>_. bnd (\<lambda>d. (Inr (), d\<lparr>worker_id_file := IDFile data, temporary := None\<rparr>)) (\<lambda>_.
         accept_id data)))) d))"

definition Close :: "unit dir_op" where
  "Close = (\<lambda>d. (Inr (), d\<lparr>lock_held := False\<rparr>))"

text \<open>\<open>OpenWorkerIdentity\<close>: calls 0, 1 and 2 are \<open>MkdirAll\<close>, \<open>OpenFile\<close> and \<open>Flock\<close>.\<close>

definition OpenWorkerIdentity :: "call_faults \<Rightarrow> nat list \<Rightarrow> string dir_op" where
  "OpenWorkerIdentity flt bs = bnd (syscall flt 0) (\<lambda>_. bnd (syscall flt 1) (\<lambda>_. \<lambda>d.
     if lock_held d then (Inl LockHeld, d)
     else case flt 2 of Some e \<Rightarrow> (Inl (SysError e), d)
     | None \<Rightarrow>
        (case loadOrCreate flt bs (d\<lparr>lock_held := True\<rparr>) of
           (Inl e, d') \<Rightarrow> (Inl e, snd (Close d'))
         | (Inr i, d') \<Rightarrow> (Inr i, d'))))"

section \<open>What is written is read back\<close>

lemma chunks_ascii: "list_all (\<lambda>c. byte c < 128) s \<Longrightarrow> chunks s = map (\<lambda>c. (byte c, [c])) s"
proof (induction s)
  case (Cons c s)
  then have "encode_scalar (byte c) = [c]" by (simp add: encode_scalar_def)
  with chunks_encode [of "byte c" s] Cons show ?case by (simp add: scalar_def)
qed simp

lemma trim_space_line:
  assumes "list_all (\<lambda>c. byte c < 128 \<and> \<not> is_space (byte c)) s" "s \<noteq> []"
  shows "trim_space (s @ [CHR 0x0A]) = s"
proof -
  let ?c = "\<lambda>c. (byte c, [c])"
  have ascii: "list_all (\<lambda>c. byte c < 128) (s @ [CHR 0x0A])" using assms(1) by (auto simp: list_all_iff)
  have front: "dropWhile space_chunk (map ?c s @ xs) = map ?c s @ xs" for xs
    using assms by (cases s) (simp_all add: space_chunk_def)
  have tail: "dropWhile space_chunk (rev (map ?c s)) = rev (map ?c s)"
    using assms by (cases s rule: rev_cases) (simp_all add: space_chunk_def)
  have "space_chunk (?c (CHR 0x0A))" by (simp add: space_chunk_def is_space_def)
  then show ?thesis
    unfolding trim_space_def chunks_ascii [OF ascii] by (simp add: front tail comp_def)
qed

text \<open>The characters of a new identifier: lower case hexadecimal digits, and dashes.\<close>

definition id_char :: "char \<Rightarrow> bool" where
  "id_char c \<longleftrightarrow> in_range 48 57 c \<or> in_range 97 102 c \<or> c = CHR ''-''"

lemma id_char_visible: "id_char c \<Longrightarrow> byte c < 128 \<and> \<not> is_space (byte c) \<and> lower_char c = c"
  by (auto simp: id_char_def in_range_def is_space_def lower_char_def)

lemma hex_chars: "hex_digit (hex b) \<and> id_char (hex b)"
  by (auto simp: hex_def hex_digit_def id_char_def in_range_def)

lemma hex_bytes_chars: "list_all hex_digit (hex_bytes bs)" "list_all id_char (hex_bytes bs)"
  by (auto simp: hex_bytes_def list_all_iff hex_chars)

lemma length_hex_bytes [simp]: "length (hex_bytes bs) = 2 * length bs"
  by (induction bs) (simp_all add: hex_bytes_def)

lemma length_uuid_bytes [simp]: "length (uuid_bytes bs) = length bs"
  by (simp add: uuid_bytes_def)

lemma uuid_group: "length p = n \<Longrightarrow> list_all hex_digit p \<Longrightarrow>
    uuid_groups (n # m # ms) (p @ CHR ''-'' # s) \<longleftrightarrow> uuid_groups (m # ms) s"
  by (auto simp: nth_append)

lemma uuid_text_is_uuid: "length bs = 16 \<Longrightarrow> is_uuid (uuid_text bs)"
  by (simp add: is_uuid_def uuid_text_def Let_def uuid_group hex_bytes_chars del: uuid_groups.simps(3))

lemma uuid_text_chars: "list_all id_char (uuid_text bs)"
  by (simp add: uuid_text_def Let_def hex_bytes_chars) (simp add: id_char_def)

lemma accept_new_id: "length bs = 16 \<Longrightarrow> accept_id (uuid_text bs @ [CHR 0x0A]) d = (Inr (uuid_text bs), d)"
proof -
  assume "length bs = 16"
  moreover have "uuid_text bs \<noteq> []" by (simp add: uuid_text_def Let_def)
  moreover have "list_all (\<lambda>c. byte c < 128 \<and> \<not> is_space (byte c)) (uuid_text bs)" "map lower_char (uuid_text bs) = uuid_text bs"
    using uuid_text_chars [of bs] id_char_visible by (auto simp: list_all_iff intro!: map_idI)
  ultimately show ?thesis
    by (simp add: accept_id_def trim_space_line uuid_text_is_uuid)
qed

text \<open>The version and the variant of the identifier: a random UUID.\<close>

lemma uuid_version: "length bs = 16 \<Longrightarrow> uuid_text bs ! 14 = CHR ''4'' \<and> uuid_text bs ! 19 \<in> set ''89ab''"
proof -
  assume l: "length bs = 16"
  let ?u = "uuid_bytes bs"
  have seven: "or (and b 15) 64 div 16 = (4 :: nat)" for b
  proof -
    have "\<forall>b \<in> set [0..<16]. or b 64 div 16 = (4 :: nat)" by code_simp
    moreover have "and b 15 = b mod (16 :: nat)" using take_bit_eq_mask [of 4 b] by (simp add: take_bit_eq_mod mask_eq_exp_minus_1)
    ultimately show ?thesis by simp
  qed
  have nine: "or (and b 63) 128 div 16 \<in> {8, 9, 10, 11 :: nat}" for b
  proof -
    have "\<forall>b \<in> set [0..<64]. or b 128 div 16 \<in> {8, 9, 10, 11 :: nat}" by code_simp
    moreover have "and b 63 = b mod (64 :: nat)" using take_bit_eq_mask [of 6 b] by (simp add: take_bit_eq_mod mask_eq_exp_minus_1)
    ultimately show ?thesis by simp
  qed
  have first: "hex_bytes (take 2 (drop n ?u)) ! 0 = hex (?u ! n div 16)" if "n < 16" for n
  proof -
    from that l obtain x xs where "drop n ?u = x # xs" by (cases "drop n ?u") auto
    moreover from this that l have "x = ?u ! n" by (metis length_uuid_bytes nth_via_drop)
    ultimately show ?thesis by (simp add: hex_bytes_def take_Cons')
  qed
  have "uuid_text bs ! 14 = hex (?u ! 6 div 16)" "uuid_text bs ! 19 = hex (?u ! 8 div 16)"
    using l first [of 6] first [of 8] by (simp_all add: uuid_text_def Let_def nth_append)
  moreover have "?u ! 6 div 16 = 4" "?u ! 8 div 16 \<in> {8, 9, 10, 11}"
    using l seven nine by (simp_all add: uuid_bytes_def)
  moreover have "hex 4 = CHR ''4''" "hex 8 = CHR ''8''" "hex 9 = CHR ''9''" "hex 10 = CHR ''a''" "hex 11 = CHR ''b''" by code_simp+
  ultimately show ?thesis by auto
qed

section \<open>Restarts\<close>

text \<open>What happens to the state directory: daemons open it and close it.\<close>

inductive daemon_step :: "stateDir \<Rightarrow> stateDir \<Rightarrow> bool" where
  opened: "OpenWorkerIdentity flt bs d = (res, d') \<Longrightarrow> daemon_step d d'"
| closed: "daemon_step d (snd (Close d))"

inductive_cases daemon_stepE [elim!]: "daemon_step d d'"

lemma accept_id_state: "accept_id data d = (r, d') \<Longrightarrow> d' = d"
  by (auto simp: accept_id_def Let_def split: if_splits)

lemma accept_id_Inr: "accept_id data d = (Inr i, d') \<Longrightarrow> d' = d \<and> is_uuid (trim_space data) \<and> i = map lower_char (trim_space data)"
  by (auto simp: accept_id_def Let_def split: if_splits)

lemmas open_simps = OpenWorkerIdentity_def loadOrCreate_def syscall_def Close_def bnd_def

text \<open>An identity file is not written again.\<close>

lemma step_keeps_file:
  assumes "daemon_step d d'" "worker_id_file d = IDFile data"
  shows "worker_id_file d' = IDFile data"
  using assms by (auto simp: open_simps split: option.splits sum.splits prod.splits if_splits dest!: accept_id_state)

lemma steps_keep_file: "daemon_step\<^sup>*\<^sup>* d d' \<Longrightarrow> worker_id_file d = IDFile data \<Longrightarrow> worker_id_file d' = IDFile data"
  by (induction rule: rtranclp_induct) (simp, metis step_keeps_file)

lemma open_existing:
  assumes "OpenWorkerIdentity flt bs d = (Inr i, d')" "worker_id_file d = IDFile data"
  shows "accept_id data d = (Inr i, d)"
  using assms by (auto simp: open_simps accept_id_def Let_def split: option.splits sum.splits prod.splits if_splits)

lemma open_result:
  assumes "OpenWorkerIdentity flt bs d = (Inr i, d')"
  shows "\<not> lock_held d \<and> lock_held d' \<and> (\<exists>data. worker_id_file d' = IDFile data \<and> accept_id data d' = (Inr i, d'))"
  using assms by (auto simp: open_simps accept_id_def Let_def split: option.splits sum.splits prod.splits if_splits id_file.splits)

lemma open_failed:
  assumes "OpenWorkerIdentity flt bs d = (Inl e, d')" "worker_id_file d = IDFile data"
  shows "worker_id_file d' = worker_id_file d \<and> lock_held d' = lock_held d"
  using assms by (auto simp: open_simps split: option.splits sum.splits prod.splits if_splits dest!: accept_id_state)

lemma hex_digit_lower: "hex_digit c \<Longrightarrow> hex_digit (lower_char c)"
  by (auto simp: hex_digit_def lower_char_def in_range_def)

lemma lower_dash [simp]: "lower_char (CHR ''-'') = CHR ''-''"
  by (simp add: lower_char_def in_range_def)

lemma uuid_groups_lower: "uuid_groups ns s \<Longrightarrow> uuid_groups ns (map lower_char s)"
  by (induction ns s rule: uuid_groups.induct)
    (auto simp: list_all_iff hex_digit_lower take_map drop_map)

lemma new_identity:
  assumes "length bs = 16" "worker_id_file d = NoID" "\<not> lock_held d"
  shows "OpenWorkerIdentity (\<lambda>_. None) bs d = (Inr (uuid_text bs),
    d\<lparr>worker_id_file := IDFile (uuid_text bs @ [CHR 0x0A]), temporary := None, lock_held := True\<rparr>)"
  using assms by (simp add: open_simps accept_new_id Let_def)

text \<open>C8. The identity of a worker is kept: once a daemon has opened the state directory as \<open>i\<close>, which
  is a UUID, and whatever daemons open and close it afterwards, with whatever failures and random
  bytes, another opening either succeeds as \<open>i\<close>, and then only while nobody holds the lock, which it
  then holds, or it fails and changes neither the identity file nor the lock.\<close>

theorem worker_identity_is_kept:
  assumes "OpenWorkerIdentity flt bs d = (Inr i, d1)" "daemon_step\<^sup>*\<^sup>* d1 d2"
    "OpenWorkerIdentity flt' bs' d2 = (r, d3)"
  shows "is_uuid i \<and> \<not> lock_held d \<and> lock_held d1 \<and>
    (case r of Inr j \<Rightarrow> j = i \<and> \<not> lock_held d2 \<and> lock_held d3
     | Inl e \<Rightarrow> worker_id_file d3 = worker_id_file d2 \<and> lock_held d3 = lock_held d2)"
proof -
  from open_result [OF assms(1)] obtain data where data: "worker_id_file d1 = IDFile data" "accept_id data d1 = (Inr i, d1)"
    and held: "\<not> lock_held d" "lock_held d1" by blast
  then have i: "is_uuid (trim_space data)" "i = map lower_char (trim_space data)" by (auto dest: accept_id_Inr)
  have stored: "worker_id_file d2 = IDFile data" using steps_keep_file [OF assms(2) data(1)] .
  have "case r of Inr j \<Rightarrow> j = i \<and> \<not> lock_held d2 \<and> lock_held d3
     | Inl e \<Rightarrow> worker_id_file d3 = worker_id_file d2 \<and> lock_held d3 = lock_held d2"
  proof (cases r)
    case (Inl e)
    then show ?thesis using open_failed [OF _ stored] assms(3) by simp
  next
    case (Inr j)
    then show ?thesis
      using open_existing [OF _ stored, of flt' bs' j d3] open_result [of flt' bs' d2 j d3] assms(3) i by (auto dest: accept_id_Inr)
  qed
  moreover have "is_uuid i" using i uuid_groups_lower unfolding is_uuid_def by blast
  ultimately show ?thesis using held by blast
qed

theorem worker_identity_is_kept_witness:
  "\<exists>d1 d2 d3. OpenWorkerIdentity (\<lambda>_. None) [0..<16] \<lparr>worker_id_file = NoID, temporary = None, lock_held = False\<rparr> = (Inr (uuid_text [0..<16]), d1) \<and>
     d2 = snd (Close d1) \<and> OpenWorkerIdentity (\<lambda>_. None) (replicate 16 255) d2 = (Inr (uuid_text [0..<16]), d3)"
proof -
  let ?d = "\<lparr>worker_id_file = NoID, temporary = None, lock_held = False\<rparr>"
  let ?i = "uuid_text [0..<16]"
  let ?d1 = "\<lparr>worker_id_file = IDFile (?i @ [CHR 0x0A]), temporary = None, lock_held = True\<rparr>"
  have first: "OpenWorkerIdentity (\<lambda>_. None) [0..<16] ?d = (Inr ?i, ?d1)"
    using new_identity [of "[0..<16]" ?d] by simp
  obtain r d3 where again: "OpenWorkerIdentity (\<lambda>_. None) (replicate 16 255) (snd (Close ?d1)) = (r, d3)"
    by (rule prod.exhaust)
  then have "r = Inr ?i"
    using worker_identity_is_kept [OF first _ again] daemon_step.closed [of ?d1]
    by (auto simp: open_simps accept_new_id split: sum.splits)
  with first again show ?thesis by blast
qed

end
