(* ===== verification/Config.thy ===== *)
theory Config
  imports Complex_Main GoPaths
begin

text \<open>
  The settings of the worker, \<open>Config\<close> and \<open>parseConfig\<close> of worker/main.go: the flags as package
  flag reads them, the environment, and the intervals, which are float64 seconds on the command line
  and nanoseconds inside. A float64 is its class and, when it is finite, its exact value;
  \<open>strconv.ParseFloat\<close> is an argument.
\<close>

section \<open>Float64 seconds\<close>

datatype float64 = NaN | Infinite bool | Finite rat

fun bits :: "nat \<Rightarrow> nat" where
  "bits n = (if n < 2 then 0 else Suc (bits (n div 2)))"

declare bits.simps [simp del]

definition round_half_even :: "rat \<Rightarrow> int" where
  "round_half_even x = (let f = \<lfloor>x\<rfloor>; r = x - of_int f in
     if r < 1 / 2 then f else if 1 / 2 < r then f + 1 else if even f then f else f + 1)"

text \<open>
  The nearest number of 53 significant bits, for what can end up in range: below one half nothing
  is rounded, since no rounding there reaches 1.
\<close>

definition nearest :: "rat \<Rightarrow> rat" where
  "nearest x = (if x < 1 / 2 then x
     else let s = (if x < 1 then 2 ^ 53 else 2 ^ 52 / 2 ^ bits (nat \<lfloor>x\<rfloor>)) in of_int (round_half_even (x * s)) / s)"

datatype config_error = FlagHelp | FlagError string | UnexpectedArguments "string list" | ManyActions
  | NotBoolean | BadInterval string | EmptyStateDir | NoHome

definition positiveSeconds :: "float64 \<Rightarrow> int option" where
  "positiveSeconds seconds = (case seconds of
     Finite x \<Rightarrow> (let nanoseconds = nearest (x * 1000000000) in
       if nanoseconds < 1 \<or> 2 ^ 63 \<le> nanoseconds then None else Some \<lfloor>nanoseconds\<rfloor>)
   | _ \<Rightarrow> None)"

section \<open>Package flag\<close>

text \<open>What \<open>parseOne\<close> makes of a word.\<close>

datatype flag_word = NotFlag | Terminator | BadSyntax | Flag string "string option"

definition flag_word :: "string \<Rightarrow> flag_word" where
  "flag_word s =
     (if length s < 2 \<or> hd s \<noteq> CHR ''-'' then NotFlag
      else if s = ''--'' then Terminator
      else let name = (if s ! 1 = CHR ''-'' then drop 2 s else drop 1 s) in
        if name = [] \<or> hd name = CHR ''-'' \<or> hd name = CHR ''='' then BadSyntax
        else case cut (tl name) (CHR ''='') of (a, v, found) \<Rightarrow> Flag (hd name # a) (if found then Some v else None))"

definition ParseBool :: "string \<Rightarrow> bool option" where
  "ParseBool s = (if s \<in> {''1'', ''t'', ''T'', ''true'', ''TRUE'', ''True''} then Some True
     else if s \<in> {''0'', ''f'', ''F'', ''false'', ''FALSE'', ''False''} then Some False else None)"

text \<open>The variables that the flags set.\<close>

record flags =
  f_controller :: string
  f_queue :: string
  f_state_dir :: string
  f_start :: bool
  f_stop :: bool
  f_restart :: bool
  f_poll :: float64
  f_heartbeat :: float64

definition bool_flags :: "string list" where
  "bool_flags = [''start'', ''stop'', ''restart'']"

definition value_flags :: "string list" where
  "value_flags = [''controller'', ''queue'', ''state-dir'', ''poll-interval'', ''heartbeat-interval'']"

definition set_flag :: "(string \<Rightarrow> float64 option) \<Rightarrow> string \<Rightarrow> string \<Rightarrow> flags \<Rightarrow> flags option" where
  "set_flag parse_float name v f =
     (if name = ''controller'' then Some (f\<lparr>f_controller := v\<rparr>)
      else if name = ''queue'' then Some (f\<lparr>f_queue := v\<rparr>)
      else if name = ''state-dir'' then Some (f\<lparr>f_state_dir := v\<rparr>)
      else if name = ''start'' then map_option (\<lambda>b. f\<lparr>f_start := b\<rparr>) (ParseBool v)
      else if name = ''stop'' then map_option (\<lambda>b. f\<lparr>f_stop := b\<rparr>) (ParseBool v)
      else if name = ''restart'' then map_option (\<lambda>b. f\<lparr>f_restart := b\<rparr>) (ParseBool v)
      else if name = ''poll-interval'' then map_option (\<lambda>x. f\<lparr>f_poll := x\<rparr>) (parse_float v)
      else map_option (\<lambda>x. f\<lparr>f_heartbeat := x\<rparr>) (parse_float v))"

definition bad_value :: "string \<Rightarrow> config_error" where
  "bad_value name = FlagError (''invalid value for flag -'' @ name)"

fun parse_flags :: "(string \<Rightarrow> float64 option) \<Rightarrow> string list \<Rightarrow> flags \<Rightarrow> config_error + flags \<times> string list" where
  "parse_flags parse_float [] f = Inr (f, [])"
| "parse_flags parse_float (s # args) f = (case flag_word s of
     NotFlag \<Rightarrow> Inr (f, s # args)
   | Terminator \<Rightarrow> Inr (f, args)
   | BadSyntax \<Rightarrow> Inl (FlagError (''bad flag syntax: '' @ s))
   | Flag name v \<Rightarrow>
      if name \<in> set bool_flags then
        (case set_flag parse_float name (case v of Some x \<Rightarrow> x | None \<Rightarrow> ''true'') f of
           None \<Rightarrow> Inl (bad_value name) | Some f' \<Rightarrow> parse_flags parse_float args f')
      else if name \<in> set value_flags then
        (case v of
           Some x \<Rightarrow> (case set_flag parse_float name x f of None \<Rightarrow> Inl (bad_value name) | Some f' \<Rightarrow> parse_flags parse_float args f')
         | None \<Rightarrow> (case args of
             [] \<Rightarrow> Inl (FlagError (''flag needs an argument: -'' @ name))
           | x # rest \<Rightarrow> (case set_flag parse_float name x f of
               None \<Rightarrow> Inl (bad_value name) | Some f' \<Rightarrow> parse_flags parse_float rest f')))
      else if name \<in> {''help'', ''h''} then Inl FlagHelp
      else Inl (FlagError (''flag provided but not defined: -'' @ name)))"

section \<open>The configuration\<close>

record config =
  Action :: string
  Controller :: string
  Queue :: string
  StateDir :: string
  LocalPersist :: bool
  PollInterval :: int
  HeartbeatInterval :: int

definition envDefault :: "(string \<rightharpoonup> string) \<Rightarrow> string \<Rightarrow> string \<Rightarrow> string" where
  "envDefault env name fallback = (case env name of Some v \<Rightarrow> v | None \<Rightarrow> fallback)"

definition flag_defaults :: "(string \<rightharpoonup> string) \<Rightarrow> flags" where
  "flag_defaults env = \<lparr>f_controller = envDefault env ''JOBD_CONTROLLER'' ''https://jobd-controller.aflashsheng.workers.dev'',
     f_queue = envDefault env ''JOBD_QUEUE'' ''default'', f_state_dir = envDefault env ''JOBD_STATE_DIR'' ''~/.local/state/jobd-worker'',
     f_start = False, f_stop = False, f_restart = False, f_poll = Finite 5, f_heartbeat = Finite 15\<rparr>"

text \<open>\<open>os.UserHomeDir\<close>.\<close>

definition home_dir :: "(string \<rightharpoonup> string) \<Rightarrow> config_error + string" where
  "home_dir env = (case env ''HOME'' of None \<Rightarrow> Inl NoHome | Some h \<Rightarrow> if h = [] then Inl NoHome else Inr h)"

text \<open>The flags that choose an action, in whatever order the map is walked: two are an error.\<close>

definition chosen :: "flags \<Rightarrow> string list" where
  "chosen f = map fst (filter snd [(''start'', f_start f), (''stop'', f_stop f), (''restart'', f_restart f)])"

definition parseConfig :: "(string \<rightharpoonup> string) \<Rightarrow> (string \<Rightarrow> float64 option) \<Rightarrow> string list \<Rightarrow> config_error + config" where
  "parseConfig env parse_float args = (case parse_flags parse_float args (flag_defaults env) of
     Inl e \<Rightarrow> Inl e
   | Inr (f, rest) \<Rightarrow>
      if rest \<noteq> [] then Inl (UnexpectedArguments rest)
      else if 1 < length (chosen f) then Inl ManyActions
      else (case ParseBool (envDefault env ''JOBD_LOCAL_PERSIST'' ''false'') of
        None \<Rightarrow> Inl NotBoolean
      | Some persist \<Rightarrow>
         (case positiveSeconds (f_poll f) of
            None \<Rightarrow> Inl (BadInterval ''poll-interval'')
          | Some poll \<Rightarrow>
             (case positiveSeconds (f_heartbeat f) of
                None \<Rightarrow> Inl (BadInterval ''heartbeat-interval'')
              | Some heartbeat \<Rightarrow>
                 if f_state_dir f = [] then Inl EmptyStateDir
                 else (case expand_home (home_dir env) (f_state_dir f) of
                     Inl e \<Rightarrow> Inl e
                   | Inr dir \<Rightarrow> Inr \<lparr>Action = (case chosen f of [] \<Rightarrow> [] | a # _ \<Rightarrow> a), Controller = f_controller f,
                       Queue = f_queue f, StateDir = dir, LocalPersist = persist, PollInterval = poll,
                       HeartbeatInterval = heartbeat\<rparr>)))))"

section \<open>What a configuration is\<close>

lemma positiveSeconds_bounds: "positiveSeconds s = Some n \<Longrightarrow> 1 \<le> n \<and> n < 2 ^ 63"
  by (auto simp: positiveSeconds_def Let_def le_floor_iff floor_less_iff split: float64.splits if_splits)

text \<open>The action, when the flags leave one.\<close>

lemma action_of_flags:
  assumes "\<not> 1 < length (chosen f)"
  defines "a \<equiv> (case chosen f of [] \<Rightarrow> [] | a # _ \<Rightarrow> a)"
  shows "chosen f = (if a = [] then [] else [a])" "a \<in> {[], ''start'', ''stop'', ''restart''}"
  using assms(1) unfolding a_def chosen_def by (cases "f_start f"; cases "f_stop f"; cases "f_restart f"; simp)+

text \<open>What a configuration was made from.\<close>

lemma parseConfig_Inr:
  assumes "parseConfig env parse_float args = Inr c"
  obtains f where "parse_flags parse_float args (flag_defaults env) = Inr (f, [])"
    "\<not> 1 < length (chosen f)" "Action c = (case chosen f of [] \<Rightarrow> [] | a # _ \<Rightarrow> a)"
    "ParseBool (envDefault env ''JOBD_LOCAL_PERSIST'' ''false'') = Some (LocalPersist c)"
    "positiveSeconds (f_poll f) = Some (PollInterval c)" "positiveSeconds (f_heartbeat f) = Some (HeartbeatInterval c)"
    "f_state_dir f \<noteq> []" "expand_home (home_dir env) (f_state_dir f) = Inr (StateDir c)"
    "Controller c = f_controller f" "Queue c = f_queue f"
proof -
  from assms obtain f where f: "parse_flags parse_float args (flag_defaults env) = Inr (f, [])"
    by (auto simp: parseConfig_def split: sum.splits prod.splits if_splits)
  show thesis
    using assms f that [OF f] unfolding parseConfig_def
    by (simp split: if_splits option.splits sum.splits) auto
qed

text \<open>C29. A configuration that \<open>parseConfig\<close> accepts is well typed: at most one action, one of the
  three; both intervals are durations of at least a nanosecond that fit 64 bits; the state directory
  is not empty, and it is the home directory's when it was written with a tilde.\<close>

theorem configurations_are_well_typed:
  assumes "parseConfig env parse_float args = Inr c"
  shows "Action c \<in> {[], ''start'', ''stop'', ''restart''} \<and> 1 \<le> PollInterval c \<and> PollInterval c < 2 ^ 63 \<and>
    1 \<le> HeartbeatInterval c \<and> HeartbeatInterval c < 2 ^ 63 \<and> StateDir c \<noteq> [] \<and>
    (\<exists>f. parse_flags parse_float args (flag_defaults env) = Inr (f, []) \<and> expand_home (home_dir env) (f_state_dir f) = Inr (StateDir c))"
proof -
  from parseConfig_Inr [OF assms] obtain f where f:
    "parse_flags parse_float args (flag_defaults env) = Inr (f, [])" "\<not> 1 < length (chosen f)"
    "Action c = (case chosen f of [] \<Rightarrow> [] | a # _ \<Rightarrow> a)" "positiveSeconds (f_poll f) = Some (PollInterval c)"
    "positiveSeconds (f_heartbeat f) = Some (HeartbeatInterval c)"
    "f_state_dir f \<noteq> []" "expand_home (home_dir env) (f_state_dir f) = Inr (StateDir c)" by metis
  have "Action c \<in> {[], ''start'', ''stop'', ''restart''}"
    unfolding f(3) by (rule action_of_flags(2) [OF f(2)])
  moreover have "StateDir c \<noteq> []"
    using f(6,7) by (auto simp: expand_home_def home_dir_def split: if_splits option.splits)
  ultimately show ?thesis using positiveSeconds_bounds f by blast
qed

definition example_environ :: "string \<rightharpoonup> string" where
  "example_environ = [''HOME'' \<mapsto> ''/u'', ''JOBD_STATE_DIR'' \<mapsto> ''~/w'']"

text \<open>Two numbers as \<open>ParseFloat\<close> reads them; a third of a nanosecond is too short.\<close>

definition example_floats :: "string \<Rightarrow> float64 option" where
  "example_floats s = (if s = ''2.5'' then Some (Finite (5 / 2)) else if s = ''NaN'' then Some NaN else None)"

lemma example_flags:
  "parse_flags example_floats [''--restart'', ''-poll-interval=2.5'', ''--queue'', ''q''] (flag_defaults example_environ)
     = Inr ((flag_defaults example_environ)\<lparr>f_restart := True, f_poll := Finite (5 / 2), f_queue := ''q''\<rparr>, [])"
  by (simp add: flag_word_def bool_flags_def value_flags_def set_flag_def ParseBool_def example_floats_def cut_def)

theorem configurations_are_well_typed_witness:
  "\<exists>c. parseConfig example_environ example_floats [''--restart'', ''-poll-interval=2.5'', ''--queue'', ''q''] = Inr c \<and>
     Action c = ''restart'' \<and> PollInterval c = 2500000000 \<and> Queue c = ''q'' \<and> StateDir c = ''/u/w'' \<and> 1 \<le> HeartbeatInterval c"
proof -
  have bits: "bits 2500000000 = 31" "bits 15000000000 = 33" by (simp_all add: bits.simps)
  have poll: "positiveSeconds (Finite (5 / 2)) = Some 2500000000" "positiveSeconds (Finite 15) = Some 15000000000"
    by (simp_all add: positiveSeconds_def nearest_def Let_def bits round_half_even_def)
  have "expand_home (home_dir example_environ) ''~/w'' = Inr ''/u/w''"
    by code_simp
  then have c: "parseConfig example_environ example_floats [''--restart'', ''-poll-interval=2.5'', ''--queue'', ''q''] = Inr
      \<lparr>Action = ''restart'', Controller = ''https://jobd-controller.aflashsheng.workers.dev'', Queue = ''q'',
       StateDir = ''/u/w'', LocalPersist = False, PollInterval = 2500000000,
       HeartbeatInterval = 15000000000\<rparr>"
    unfolding parseConfig_def example_flags
    by (simp add: flag_defaults_def envDefault_def example_environ_def chosen_def ParseBool_def poll)
  with configurations_are_well_typed [OF c] show ?thesis by simp
qed

end
