(* ===== verification/WorkerMain.thy ===== *)
theory WorkerMain
  imports WorkerLoop Identity Config
begin

text \<open>
  The life of the worker, \<open>runWithContext\<close> of worker/main.go, with the opening of the control socket
  (worker/local_socket.go) and \<open>Run\<close> whole: what is opened in which order, and what the deferred
  calls close again on every way out.
\<close>

section \<open>The control socket\<close>

text \<open>What is at the path of the socket; the calls 0, 1 and 2 are \<open>Remove\<close>, \<open>ListenUnix\<close> and \<open>Chmod\<close>.\<close>

datatype socket_entry = NoEntry | SocketEntry | OtherEntry | EntryError string

definition openLocalSocket :: "call_faults \<Rightarrow> (socket_entry, string, unit) op" where
  "openLocalSocket flt = (\<lambda>entry.
     let listen = (case flt 1 of Some e \<Rightarrow> (Inl e, NoEntry)
       | None \<Rightarrow> (case flt 2 of Some e \<Rightarrow> (Inl e, NoEntry) | None \<Rightarrow> (Inr (), SocketEntry))) in
     case entry of
       OtherEntry \<Rightarrow> (Inl ''refusing to replace non-socket'', entry)
     | EntryError e \<Rightarrow> (Inl e, entry)
     | SocketEntry \<Rightarrow> (case flt 0 of Some e \<Rightarrow> (Inl e, entry) | None \<Rightarrow> listen)
     | NoEntry \<Rightarrow> listen)"

section \<open>Run\<close>

text \<open>What a run meets: the answers to its start, and its turns.\<close>

record running =
  r_recover :: faults
  r_now :: int
  r_register :: "workerRecord network"
  r_reports :: "nat \<Rightarrow> unit network"
  r_meanwhile :: "nat \<Rightarrow> wstate shared \<Rightarrow> wstate shared"
  r_turns :: "iteration list"
  r_text :: "lq_error \<Rightarrow> string"
  r_remote_text :: "cc_error \<Rightarrow> string"

definition on_contexts :: "(contexts \<Rightarrow> contexts) \<Rightarrow> wstate shared \<Rightarrow> wstate shared" where
  "on_contexts f = (\<lambda>(w, (a, cs)). (w, (a, f cs)))"

text \<open>
  \<open>Run\<close> under the context \<open>h\<close>: its own context, the start, the loop, the deferred cancellation.
  \<open>None\<close> is still running after the turns.
\<close>

definition Run :: "running \<Rightarrow> bool \<Rightarrow> string \<Rightarrow> int \<Rightarrow> nat \<Rightarrow> wstate shared \<Rightarrow> (worker_error \<times> wstate shared) option" where
  "Run r has_client host grace h s =
     (case with_cancel h (snd (snd s)) of (p, cs) \<Rightarrow>
      (case run_start has_client (r_recover r) (r_now r) host (r_register r) (r_reports r) p (r_meanwhile r) (on_contexts (\<lambda>_. cs) s) of
         (Stop e, s') \<Rightarrow> Some (e, on_contexts (cancel_ctx p Canceled) s')
       | (Continue, s') \<Rightarrow>
          (case run_loop has_client (r_text r) (r_remote_text r) grace p (r_turns r) s' of
             (Stop e, s'') \<Rightarrow> Some (e, on_contexts (cancel_ctx p Canceled) s'')
           | (Continue, _) \<Rightarrow> None)))"

section \<open>The life of the worker\<close>

datatype run_error = BadClient cc_error | IdentityFailed id_error | HostnameFailed string | QueueFailed lq_error
  | SocketFailed string | RunFailed worker_error

datatype resource = Connections | Lock | Database | Socket

datatype stage = Opened resource | Ran | Closed resource

text \<open>The state directory: its identity, the database of the local queue and the entry of the socket.\<close>

record state_home =
  identity_dir :: stateDir
  database :: db_file
  control :: socket_entry

type_synonym session = "state_home \<times> stage list"

type_synonym body = "session \<Rightarrow> (run_error option \<times> session) option"

definition fails :: "run_error \<Rightarrow> session \<Rightarrow> (run_error option \<times> session) option" where
  "fails e s = Some (Some e, s)"

text \<open>Everything after an opening, with the deferred closing.\<close>

definition during :: "resource \<Rightarrow> (state_home \<Rightarrow> state_home) \<Rightarrow> body \<Rightarrow> body" where
  "during x close k = (\<lambda>(d, evs). case k (d, evs @ [Opened x]) of None \<Rightarrow> None
     | Some (r, (d', evs')) \<Rightarrow> Some (r, (close d', evs' @ [Closed x])))"

record run_setting =
  r_token :: string
  r_url :: "url option"
  r_id_faults :: call_faults
  r_random :: "nat list"
  r_hostname :: "string + string"
  r_queue_faults :: faults
  r_socket_faults :: call_faults
  r_running :: running

text \<open>\<open>errors.Is(err, context.Canceled)\<close>.\<close>

fun ctx_canceled :: "cc_error \<Rightarrow> bool" where
  "ctx_canceled (CtxError e) \<longleftrightarrow> e \<noteq> DeadlineExceeded"
| "ctx_canceled _ \<longleftrightarrow> False"

fun is_canceled :: "worker_error \<Rightarrow> bool" where
  "is_canceled (Done e) \<longleftrightarrow> e \<noteq> DeadlineExceeded"
| "is_canceled (RegisterFailed e) \<longleftrightarrow> ctx_canceled e"
| "is_canceled (ClaimFailed e) \<longleftrightarrow> ctx_canceled e"
| "is_canceled (RemoteReportFailed _ e) \<longleftrightarrow> ctx_canceled e"
| "is_canceled _ \<longleftrightarrow> False"

text \<open>In persistent mode what the statements have committed is in the file.\<close>

definition stored :: "bool \<Rightarrow> localQueue \<Rightarrow> state_home \<Rightarrow> state_home" where
  "stored persist q d = (if persist then d\<lparr>database := RegularFile (jobs q) (last_sequence q)\<rparr> else d)"

text \<open>Where there is no client the state has one that is never used.\<close>

definition no_client :: controllerClient where
  "no_client = \<lparr>remoteDisabled = True, apiKey = [], baseURL = [], cc_workerID = [], sent = [], accepted = []\<rparr>"

definition run_worker :: "run_setting \<Rightarrow> config \<Rightarrow> controllerClient option \<Rightarrow> string \<Rightarrow> localQueue \<Rightarrow> body" where
  "run_worker st c client host q = (\<lambda>(d, evs).
     case with_cancel 0 background of (h, cs) \<Rightarrow>
     (case Run (r_running st) (client \<noteq> None) host 5000000000 h ((q, case client of Some x \<Rightarrow> x | None \<Rightarrow> no_client), (idle, cs)) of
        None \<Rightarrow> None
      | Some (e, s) \<Rightarrow> Some (if is_canceled e \<and> job_cause h s \<noteq> None then None else Some (RunFailed e),
          (stored (LocalPersist c) (fst (fst s)) d, evs @ [Ran]))))"

definition with_queue :: "run_setting \<Rightarrow> config \<Rightarrow> controllerClient option \<Rightarrow> string \<Rightarrow> localQueue \<Rightarrow> body" where
  "with_queue st c client host q = (\<lambda>(d, evs).
     case openLocalSocket (r_socket_faults st) (control d) of
       (Inl e, entry) \<Rightarrow> fails (SocketFailed e) (d\<lparr>control := entry\<rparr>, evs)
     | (Inr _, entry) \<Rightarrow> during Socket (\<lambda>d. d\<lparr>control := NoEntry\<rparr>) (run_worker st c client host q) (d\<lparr>control := entry\<rparr>, evs))"

definition with_identity :: "run_setting \<Rightarrow> config \<Rightarrow> controllerClient option \<Rightarrow> string \<Rightarrow> body" where
  "with_identity st c client wid = (\<lambda>(d, evs).
     case r_hostname st of
       Inl e \<Rightarrow> fails (HostnameFailed e) (d, evs)
     | Inr host \<Rightarrow>
        (case openLocalQueue (r_queue_faults st) (LocalPersist c) (database d) of
           Inl e \<Rightarrow> fails (QueueFailed e) (d, evs)
         | Inr q \<Rightarrow> during Database (\<lambda>d. d)
             (with_queue st c (map_option (\<lambda>x. x\<lparr>cc_workerID := wid\<rparr>) client) host (q\<lparr>workerID := wid, lq_hostname := host\<rparr>))
             (stored (LocalPersist c) q d, evs)))"

definition with_client :: "run_setting \<Rightarrow> config \<Rightarrow> controllerClient option \<Rightarrow> body" where
  "with_client st c client = (\<lambda>(d, evs).
     case OpenWorkerIdentity (r_id_faults st) (r_random st) (identity_dir d) of
       (Inl e, i) \<Rightarrow> fails (IdentityFailed e) (d\<lparr>identity_dir := i\<rparr>, evs)
     | (Inr wid, i) \<Rightarrow> during Lock (\<lambda>d. d\<lparr>identity_dir := snd (Close (identity_dir d))\<rparr>)
         (with_identity st c client wid) (d\<lparr>identity_dir := i\<rparr>, evs))"

definition with_token :: "run_setting \<Rightarrow> config \<Rightarrow> body" where
  "with_token st c = (\<lambda>(d, evs).
     case NewControllerClient (Controller c) (r_url st) (r_token st) [] (Queue c) of
       Inl e \<Rightarrow> fails (BadClient e) (d, evs)
     | Inr client \<Rightarrow> during Connections (\<lambda>d. d) (with_client st c (Some client)) (d, evs))"

definition runWithContext :: "run_setting \<Rightarrow> config \<Rightarrow> state_home \<Rightarrow> (run_error option \<times> session) option" where
  "runWithContext st c d =
     (if trim_space (r_token st) = [] then with_client st c None (d, []) else with_token st c (d, []))"

section \<open>What is opened is closed\<close>

text \<open>The stages of something opened, and closed again, around \<open>m\<close>.\<close>

fun bracket :: "resource list \<Rightarrow> stage list \<Rightarrow> stage list" where
  "bracket [] m = m"
| "bracket (x # xs) m = Opened x # bracket xs m @ [Closed x]"

text \<open>A body that opens a part of \<open>xs\<close>, in order, and closes it; it succeeds only after running with all of them.\<close>

definition well_nested :: "resource list \<Rightarrow> body \<Rightarrow> bool" where
  "well_nested xs k \<longleftrightarrow> (\<forall>d evs r d' evs'. k (d, evs) = Some (r, (d', evs')) \<longrightarrow>
     (\<exists>n \<le> length xs. evs' = evs @ bracket (take n xs) (if n = length xs then [Ran] else []) \<and> (n < length xs \<longrightarrow> r \<noteq> None)))"

lemma during_eq: "during x close k (d, evs) = Some (r, (d', evs')) \<longleftrightarrow>
    (\<exists>d1 evs1. k (d, evs @ [Opened x]) = Some (r, (d1, evs1)) \<and> d' = close d1 \<and> evs' = evs1 @ [Closed x])"
  by (auto simp: during_def split: option.splits)

definition opens :: "resource \<Rightarrow> resource list \<Rightarrow> stage list \<Rightarrow> (run_error option \<times> session) option \<Rightarrow> bool" where
  "opens x xs evs res \<longleftrightarrow> (\<exists>e d. res = fails e (d, evs)) \<or> (\<exists>close k d. well_nested xs k \<and> res = during x close k (d, evs))"

lemma opens_fails [intro]: "opens x xs evs (fails e (d, evs))"
  by (auto simp: opens_def)

lemma opens_during [intro]: "well_nested xs k \<Longrightarrow> opens x xs evs (during x close k (d, evs))"
  unfolding opens_def by blast

lemma opens_well_nested:
  assumes "\<And>d evs. opens x xs evs (k (d, evs))"
  shows "well_nested (x # xs) k"
  unfolding well_nested_def
proof (intro allI impI)
  fix d evs r d' evs'
  assume run: "k (d, evs) = Some (r, (d', evs'))"
  from assms [of evs d, unfolded opens_def] show "\<exists>n \<le> length (x # xs). evs' = evs @ bracket (take n (x # xs)) (if n = length (x # xs) then [Ran] else []) \<and>
      (n < length (x # xs) \<longrightarrow> r \<noteq> None)"
  proof
    assume "\<exists>e d2. k (d, evs) = fails e (d2, evs)"
    with run show ?thesis by (intro exI [of _ 0]) (auto simp: fails_def)
  next
    assume "\<exists>close k' d2. well_nested xs k' \<and> k (d, evs) = during x close k' (d2, evs)"
    then obtain close k' d2 where k': "well_nested xs k'" "k (d, evs) = during x close k' (d2, evs)" by blast
    with run obtain d1 evs1 where "k' (d2, evs @ [Opened x]) = Some (r, (d1, evs1))" "evs' = evs1 @ [Closed x]"
      by (auto simp: during_eq)
    with k'(1) obtain n where "n \<le> length xs" "evs1 = (evs @ [Opened x]) @ bracket (take n xs) (if n = length xs then [Ran] else [])"
        "n < length xs \<longrightarrow> r \<noteq> None"
      unfolding well_nested_def by blast
    with \<open>evs' = evs1 @ [Closed x]\<close> show ?thesis by (intro exI [of _ "Suc n"]) simp
  qed
qed

lemma run_worker_nested: "well_nested [] (run_worker st c client host q)"
  by (auto simp: well_nested_def run_worker_def split: prod.splits option.splits if_splits)

lemma with_queue_nested: "well_nested [Socket] (with_queue st c client host q)"
  by (rule opens_well_nested)
    (auto simp: with_queue_def split: prod.split sum.split intro!: run_worker_nested)

lemma with_identity_nested: "well_nested [Database, Socket] (with_identity st c client wid)"
  by (rule opens_well_nested)
    (auto simp: with_identity_def split: sum.split intro!: with_queue_nested)

lemma with_client_nested: "well_nested [Lock, Database, Socket] (with_client st c client)"
  by (rule opens_well_nested)
    (auto simp: with_client_def split: prod.split sum.split intro!: with_identity_nested)

lemma with_token_nested: "well_nested [Connections, Lock, Database, Socket] (with_token st c)"
  by (rule opens_well_nested)
    (auto simp: with_token_def split: sum.split intro!: with_client_nested)

lemma well_nestedD: "well_nested xs k \<Longrightarrow> k (d, []) = Some (r, (d', evs)) \<Longrightarrow>
    \<exists>n \<le> length xs. evs = bracket (take n xs) (if n = length xs then [Ran] else []) \<and> (n < length xs \<longrightarrow> r \<noteq> None)"
  unfolding well_nested_def by fastforce

section \<open>The lock\<close>

lemma open_failed_lock: "OpenWorkerIdentity flt bs d = (Inl e, d') \<Longrightarrow> lock_held d' = lock_held d"
  by (auto simp: open_simps split: option.splits sum.splits prod.splits if_splits id_file.splits dest!: accept_id_state)

definition keeps_identity :: "body \<Rightarrow> bool" where
  "keeps_identity k \<longleftrightarrow> (\<forall>d evs r d' evs'. k (d, evs) = Some (r, (d', evs')) \<longrightarrow> identity_dir d' = identity_dir d)"

lemma with_identity_keeps: "keeps_identity (with_identity st c client wid)"
proof -
  have stored: "identity_dir (stored p q d) = identity_dir d" for p q d by (simp add: stored_def)
  have run: "keeps_identity (run_worker st c client host q)" for client host q
    by (auto simp: keeps_identity_def run_worker_def stored split: prod.splits option.splits if_splits)
  have queue: "keeps_identity (with_queue st c client host q)" for client host q
    using run by (fastforce simp: keeps_identity_def with_queue_def fails_def during_eq split: prod.splits sum.splits)
  show ?thesis
    using queue by (fastforce simp: keeps_identity_def with_identity_def fails_def during_eq stored split: sum.splits)
qed

lemma with_client_lock:
  assumes "with_client st c client (d, evs) = Some (r, (d', evs'))"
  shows "lock_held (identity_dir d') = lock_held (identity_dir d)"
proof (cases "OpenWorkerIdentity (r_id_faults st) (r_random st) (identity_dir d)")
  case (Pair res i)
  show ?thesis
  proof (cases res)
    case (Inl e)
    with assms Pair open_failed_lock [of "r_id_faults st" "r_random st" "identity_dir d" e i] show ?thesis
      by (auto simp: with_client_def fails_def)
  next
    case (Inr wid)
    with assms Pair have "\<not> lock_held (identity_dir d')" by (auto simp: with_client_def during_eq Close_def)
    moreover have "\<not> lock_held (identity_dir d)" using open_result Pair Inr by blast
    ultimately show ?thesis by simp
  qed
qed

text \<open>C12. A worker closes what it has opened, on every way out of \<open>runWithContext\<close>: what it opens is, in
  this order, the connections (with a token), the lock of the state directory, the database and the
  control socket; they are closed in the opposite order, so the lock is let go only after the
  database and the socket; jobs are run only while all are open, and leaving before that is an
  error. The lock ends as free as it was.\<close>

theorem worker_closes_what_it_opens:
  assumes "runWithContext st c d = Some (r, (d', evs))"
  defines "rs \<equiv> (if trim_space (r_token st) = [] then [] else [Connections]) @ [Lock, Database, Socket]"
  shows "\<exists>n \<le> length rs. evs = bracket (take n rs) (if n = length rs then [Ran] else []) \<and>
    (n < length rs \<longrightarrow> r \<noteq> None) \<and> lock_held (identity_dir d') = lock_held (identity_dir d)"
proof -
  let ?k = "if trim_space (r_token st) = [] then with_client st c None else with_token st c"
  have run: "?k (d, []) = Some (r, (d', evs))" using assms(1) by (simp add: runWithContext_def split: if_splits)
  have "well_nested rs ?k" using with_client_nested with_token_nested by (simp add: rs_def)
  from well_nestedD [OF this run] have "\<exists>n \<le> length rs. evs = bracket (take n rs) (if n = length rs then [Ran] else []) \<and> (n < length rs \<longrightarrow> r \<noteq> None)" .
  moreover have "lock_held (identity_dir d') = lock_held (identity_dir d)"
    using run with_client_lock by (auto simp: with_token_def fails_def during_eq split: if_splits sum.splits)
  ultimately show ?thesis by blast
qed

section \<open>The stored queue\<close>

text \<open>A database that can be opened, with at most one job marked running.\<close>

definition sound_file :: "db_file \<Rightarrow> bool" where
  "sound_file f \<longleftrightarrow> (case f of
     RegularFile rows seq \<Rightarrow> (let q = empty_queue\<lparr>jobs := rows, last_sequence := seq\<rparr> in wf_queue q \<and> (\<exists>n. ids Running q \<subseteq> {n}))
   | _ \<Rightarrow> True)"

lemma only_running_contexts [simp]: "only_running N (on_contexts f s) = only_running N s"
  by (cases s; cases "snd s") (simp add: only_running_def on_contexts_def)

lemma recover_ends:
  assumes "only_running {n} s" "on_backend (on_local (recover flt now)) s = (r, s')"
  shows "only_running (if isl r then {n} else {}) s'"
proof -
  obtain q c a where s: "s = ((q, c), a)" by (metis prod.collapse)
  obtain q' where rec: "recover flt now q = (r, q')" "s' = ((q', c), a)"
    using assms(2) by (auto simp: s on_backend_def on_local_def split: prod.splits)
  have wf: "wf_queue q" "ids Running q \<subseteq> {n}" using assms(1) by (simp_all add: s only_running_def)
  have "wf_queue q'" using keepsD [OF recover_wf wf(1), of flt now] rec(1) by simp
  moreover have "ids Running (snd (update_where running (recover_row now) q)) = {}"
    using abs_recover [OF wf(1), of now] by (simp add: abs_queue_def)
  then have "ids Running q' \<subseteq> (if isl r then {n} else {})"
    using rec(1) wf(2) by (auto simp: recover_def sql_def bnd_def split: option.splits prod.splits)
  ultimately show ?thesis using rec(2) by (simp add: only_running_def)
qed

lemma run_start_ends:
  assumes "only_running {n} s" "\<And>i. guest (meanwhile i)"
    and "run_start has_client flt now host reg nets p meanwhile s = (t, s')"
  shows "only_running (if t = Continue then {} else {n}) s'"
proof -
  obtain r s1 where rec: "on_backend (on_local (recover flt now)) s = (r, s1)" by (rule prod.exhaust)
  from recover_ends [OF assms(1) rec] have s1: "only_running (if isl r then {n} else {}) s1" .
  show ?thesis
  proof (cases "isl r \<or> \<not> has_client")
    case True
    then show ?thesis using assms(3) rec s1 by (auto simp: run_start_def split: sum.splits)
  next
    case False
    then obtain u where r: "r = Inr u" by (cases r) auto
    obtain q c a where m0: "meanwhile 0 s1 = ((q, c), a)" by (metis prod.collapse)
    have q: "only_running {} ((q, c'), a')" for c' a'
      using guest_only_running [OF assms(2) s1 [unfolded r, simplified], of 0] m0 by (simp add: only_running_def)
    have rep: "only_running {} s2" if "on_backend (recoverPreviousJob nets fin rcd) (meanwhile 1 ((q, c'), a)) = (x, s2)" for fin rcd c' x s2
    proof -
      obtain w b where w: "meanwhile 1 ((q, c'), a) = (w, b)" by (rule prod.exhaust)
      have "only_running {} (w, b)" using guest_only_running [OF assms(2) q, of 1 c' a] w by simp
      moreover have rcv: "recoverPreviousJob nets fin rcd w = (x, fst s2)"
        using that unfolding w by (auto simp: on_backend_def split: prod.splits)
      moreover have "fst (snd (recoverPreviousJob nets fin rcd w)) = fst w"
        by (simp add: recoverPreviousJob_def reportResult_remote_queue split: option.split)
      ultimately show ?thesis by (simp add: only_running_def)
    qed
    have "only_running {} s'"
      using assms(3) False by (auto simp: run_start_def rec r m0 q split: prod.splits option.splits sum.splits dest: rep [unfolded One_nat_def])
    then show ?thesis using only_running_mono by auto
  qed
qed

lemma Run_ends:
  assumes "only_running {n} s" "\<And>i. guest (r_meanwhile r i)" "list_all hosts_guests (r_turns r)"
    and "Run r has_client host grace h s = Some (e, s')"
  shows "\<exists>n. only_running {n} s'"
proof -
  obtain p cs where p: "with_cancel h (snd (snd s)) = (p, cs)" by (rule prod.exhaust)
  obtain t s1 where start: "run_start has_client (r_recover r) (r_now r) host (r_register r) (r_reports r) p (r_meanwhile r) (on_contexts (\<lambda>_. cs) s) = (t, s1)"
    by (rule prod.exhaust)
  have s1: "only_running (if t = Continue then {} else {n}) s1"
    by (rule run_start_ends [OF _ assms(2) start]) (simp add: assms(1))
  show ?thesis
  proof (cases t)
    case Continue
    obtain u s2 where loop: "run_loop has_client (r_text r) (r_remote_text r) grace p (r_turns r) s1 = (u, s2)" by (rule prod.exhaust)
    with loop_ends [OF _ assms(3), of s1 has_client "r_text r" "r_remote_text r" grace p] s1 Continue
    have "case u of Continue \<Rightarrow> True | Stop e \<Rightarrow> \<exists>n. only_running {n} s2"
      by (cases u) (auto simp: only_running_def)
    then show ?thesis using assms(4) p start Continue loop by (auto simp: Run_def split: turn.splits)
  next
    case (Stop x)
    then show ?thesis using assms(4) p start s1 by (auto simp: Run_def)
  qed
qed

text \<open>What the bodies keep of the stored queue.\<close>

lemma wf_queue_same: "jobs q = jobs q' \<Longrightarrow> last_sequence q = last_sequence q' \<Longrightarrow> wf_queue q \<longleftrightarrow> wf_queue q'"
  by (simp add: wf_queue_def wf_row_def list_all_iff)

definition sound_queue :: "localQueue \<Rightarrow> bool" where
  "sound_queue q \<longleftrightarrow> wf_queue q \<and> (\<exists>n. ids Running q \<subseteq> {n})"

lemma sound_queue_same: "jobs q = jobs q' \<Longrightarrow> last_sequence q = last_sequence q' \<Longrightarrow> sound_queue q \<longleftrightarrow> sound_queue q'"
  using wf_queue_same [of q q'] by (simp add: sound_queue_def ids_def)

lemma sound_stored: "sound_queue q \<Longrightarrow> sound_file (database d) \<Longrightarrow> sound_file (database (stored persist q d))"
  using sound_queue_same [of q "empty_queue\<lparr>jobs := jobs q, last_sequence := last_sequence q\<rparr>"]
  by (simp add: stored_def sound_file_def sound_queue_def)

lemma sound_opened: "sound_file f \<Longrightarrow> openLocalQueue flt persist f = Inr q \<Longrightarrow> sound_queue q"
  by (auto simp: openLocalQueue_def sound_file_def sound_queue_def empty_queue_wf [unfolded empty_queue_def] ids_def empty_queue_def
    split: option.splits if_splits db_file.splits)

definition keeps_file :: "body \<Rightarrow> bool" where
  "keeps_file k \<longleftrightarrow> (\<forall>d evs r d' evs'. k (d, evs) = Some (r, (d', evs')) \<longrightarrow> sound_file (database d) \<longrightarrow> sound_file (database d'))"

definition polite_run :: "running \<Rightarrow> bool" where
  "polite_run r \<longleftrightarrow> (\<forall>i. guest (r_meanwhile r i)) \<and> list_all hosts_guests (r_turns r)"

lemma run_worker_file:
  assumes "polite_run (r_running st)" "sound_queue q"
  shows "keeps_file (run_worker st c client host q)"
  unfolding keeps_file_def
proof (intro allI impI)
  fix d evs r d' evs'
  assume run: "run_worker st c client host q (d, evs) = Some (r, (d', evs'))" and sound: "sound_file (database d)"
  obtain h cs where h: "with_cancel 0 background = (h, cs)" by (rule prod.exhaust)
  from run obtain e s where R: "Run (r_running st) (client \<noteq> None) host 5000000000 h
      ((q, case client of Some x \<Rightarrow> x | None \<Rightarrow> no_client), (idle, cs)) = Some (e, s)" "d' = stored (LocalPersist c) (fst (fst s)) d"
    by (auto simp: run_worker_def h split: option.splits)
  obtain n where "only_running {n} ((q, case client of Some x \<Rightarrow> x | None \<Rightarrow> no_client), (idle, cs))"
    using assms(2) by (auto simp: sound_queue_def only_running_def)
  from Run_ends [OF this _ _ R(1)] assms(1) have "sound_queue (fst (fst s))"
    by (auto simp: polite_run_def only_running_def sound_queue_def)
  with R(2) sound show "sound_file (database d')" by (simp add: sound_stored)
qed

lemma runWithContext_file:
  assumes "polite_run (r_running st)" "sound_file (database d)" "runWithContext st c d = Some (r, (d', evs))"
  shows "sound_file (database d')"
proof -
  have queue: "keeps_file (with_queue st c client host q)" if "sound_queue q" for client host q
    using run_worker_file [OF assms(1) that]
    by (fastforce simp: keeps_file_def with_queue_def fails_def during_eq split: prod.splits sum.splits)
  have identity: "keeps_file (with_identity st c client wid)" for client wid
    unfolding keeps_file_def
  proof (intro allI impI)
    fix d evs r d' evs'
    assume run: "with_identity st c client wid (d, evs) = Some (r, (d', evs'))" and sound: "sound_file (database d)"
    show "sound_file (database d')"
    proof (cases "d' = d")
      case False
      then obtain host q evs1 where q: "openLocalQueue (r_queue_faults st) (LocalPersist c) (database d) = Inr q"
          "with_queue st c (map_option (\<lambda>x. x\<lparr>cc_workerID := wid\<rparr>) client) host (q\<lparr>workerID := wid, lq_hostname := host\<rparr>)
            (stored (LocalPersist c) q d, evs @ [Opened Database]) = Some (r, (d', evs1))"
        using run by (auto simp: with_identity_def fails_def during_eq split: sum.splits)
      have "sound_queue q" by (rule sound_opened [OF sound q(1)])
      moreover from this have "sound_queue (q\<lparr>workerID := wid, lq_hostname := host\<rparr>)"
        using sound_queue_same [of q "q\<lparr>workerID := wid, lq_hostname := host\<rparr>"] by simp
      ultimately show ?thesis
        using queue q(2) sound_stored [OF _ sound] unfolding keeps_file_def by blast
    qed (use sound in simp)
  qed
  have "keeps_file (with_client st c client)" for client
    using identity by (fastforce simp: keeps_file_def with_client_def fails_def during_eq split: prod.splits sum.splits)
  then have "keeps_file (with_token st c)" "keeps_file (with_client st c None)"
    by (fastforce simp: keeps_file_def with_token_def fails_def during_eq split: sum.splits)+
  then show ?thesis
    using assms(2,3) unfolding keeps_file_def runWithContext_def by (metis (full_types))
qed

text \<open>C6. A stored queue survives the worker: if the database in the state directory is well formed with
  at most one job marked running, so it is after any whole life of the worker, whatever fails, and
  whatever the network and the clients of the socket do; and what the next worker opens is a well
  formed queue with at most one job for its recovery to mark failed.\<close>

theorem stored_queue_survives_the_worker:
  assumes "polite_run (r_running st)" "sound_file (database d)" "runWithContext st c d = Some (r, (d', evs))"
  shows "sound_file (database d') \<and>
    (\<forall>flt persist q. openLocalQueue flt persist (database d') = Inr q \<longrightarrow> wf_queue q \<and> (\<exists>n. ids Running q \<subseteq> {n}))"
proof -
  have "sound_file (database d')" by (rule runWithContext_file [OF assms])
  then show ?thesis using sound_opened unfolding sound_queue_def by blast
qed

section \<open>An instance\<close>

text \<open>A worker without a token, stopped at once by its context.\<close>

definition stopping_turn :: iteration where
  "stopping_turn = quiet_turn\<lparr>others_before := on_contexts (cancel_ctx 1 Canceled)\<rparr>"

definition short_life :: run_setting where
  "short_life = \<lparr>r_token = [], r_url = None, r_id_faults = (\<lambda>_. None), r_random = [0..<16], r_hostname = Inr ''h'',
     r_queue_faults = no_faults, r_socket_faults = (\<lambda>_. None),
     r_running = \<lparr>r_recover = no_faults, r_now = 3, r_register = (False, [], Canceled), r_reports = (\<lambda>_. (False, [], Canceled)),
       r_meanwhile = (\<lambda>_ s. s), r_turns = [stopping_turn], r_text = (\<lambda>_. []), r_remote_text = (\<lambda>_. [])\<rparr>\<rparr>"

definition persistent_config :: config where
  "persistent_config = \<lparr>Action = [], Controller = ''http://c'', Queue = ''q'', StateDir = ''/d'', LocalPersist = True,
     PollInterval = 5000000000, HeartbeatInterval = 5000000000\<rparr>"

definition used_home :: state_home where
  "used_home = \<lparr>identity_dir = \<lparr>worker_id_file = NoID, temporary = None, lock_held = False\<rparr>,
     database = RegularFile (jobs one_running) 2, control = SocketEntry\<rparr>"

lemma short_fields: "r_token short_life = []" "r_id_faults short_life = (\<lambda>_. None)" "r_random short_life = [0..<16]"
    "r_hostname short_life = Inr ''h''" "r_queue_faults short_life = no_faults" "r_socket_faults short_life = (\<lambda>_. None)"
  by (simp_all add: short_life_def)

lemma used_fields: "LocalPersist persistent_config" "database used_home = RegularFile (jobs one_running) 2"
    "control used_home = SocketEntry" "worker_id_file (identity_dir used_home) = NoID" "\<not> lock_held (identity_dir used_home)"
  by (simp_all add: persistent_config_def used_home_def)

lemma short_run:
  "\<exists>s. Run (r_running short_life) False host 5000000000 1 ((q, c), (idle, snd (with_cancel 0 background))) = Some (Done Canceled, s) \<and>
     job_cause 1 s = Some Canceled"
proof -
  obtain u q' where rec: "recover no_faults 3 q = (Inr u, q')"
    by (cases "update_where running (recover_row 3) q") (simp add: recover_def sql_def bnd_def)
  show ?thesis
    by (simp add: Run_def short_life_def run_start_def rec on_backend_def on_local_def on_contexts_def stopping_turn_def run_turn_def
        job_cause_def cause_of_def cancel_ctx_def with_cancel_def background_def idle_def quiet_turn_def Let_def enumerate_eq_zip nth_Cons')
qed

lemma short_life_runs:
  "\<exists>d'. runWithContext short_life persistent_config used_home =
     Some (None, (d', [Opened Lock, Opened Database, Opened Socket, Ran, Closed Socket, Closed Database, Closed Lock]))"
proof -
  have "length [0..<16] = (16 :: nat)" by simp
  from new_identity [OF this, of "identity_dir used_home"]
  have op: "OpenWorkerIdentity (\<lambda>_. None) [0..<16] (identity_dir used_home) = (Inr (uuid_text [0..<16]),
      (identity_dir used_home)\<lparr>worker_id_file := IDFile (uuid_text [0..<16] @ [CHR 0x0A]), temporary := None, lock_held := True\<rparr>)"
    by (simp add: used_fields)
  define q where "q = \<lparr>jobs = jobs one_running, last_sequence = 2, workerID = uuid_text [0..<16], lq_hostname = ''h''\<rparr>"
  from short_run [of "''h''" q no_client] obtain s where
    run: "Run (r_running short_life) False ''h'' 5000000000 1 ((q, no_client), (idle, snd (with_cancel 0 background))) = Some (Done Canceled, s)"
      "job_cause 1 s = Some Canceled" by blast
  have h: "with_cancel 0 background = (1, snd (with_cancel 0 background))" by (simp add: with_cancel_def background_def)
  have work: "run_worker short_life persistent_config None ''h'' q (d, evs) = Some (None, (stored True (fst (fst s)) d, evs @ [Ran]))" for d evs
    unfolding run_worker_def by (subst h) (simp add: run [unfolded One_nat_def] persistent_config_def)
  have queue: "with_queue short_life persistent_config None ''h'' q (d, evs) =
      Some (None, ((stored True (fst (fst s)) (d\<lparr>control := SocketEntry\<rparr>))\<lparr>control := NoEntry\<rparr>, evs @ [Opened Socket, Ran, Closed Socket]))"
    if "control d = SocketEntry" for d evs
    using that by (simp add: with_queue_def openLocalSocket_def short_fields during_def work)
  show ?thesis
    using op
    by (simp add: runWithContext_def with_client_def with_identity_def short_fields used_fields
        openLocalQueue_def empty_queue_def q_def [symmetric] during_def queue stored_def)
qed

theorem worker_closes_what_it_opens_witness:
  "\<exists>d' evs. runWithContext short_life persistent_config used_home = Some (None, (d', evs)) \<and>
     evs = bracket [Lock, Database, Socket] [Ran] \<and> \<not> lock_held (identity_dir d')"
proof -
  from short_life_runs obtain d' evs where run: "runWithContext short_life persistent_config used_home = Some (None, (d', evs))" by blast
  from worker_closes_what_it_opens [OF run] obtain n where "n = 3" "evs = bracket (take n [Lock, Database, Socket]) [Ran]"
      "lock_held (identity_dir d') = lock_held (identity_dir used_home)"
    by (fastforce simp: short_fields)
  with run show ?thesis by (simp add: used_fields)
qed

theorem stored_queue_survives_the_worker_witness:
  "\<exists>d' evs. runWithContext short_life persistent_config used_home = Some (None, (d', evs)) \<and> sound_file (database d')"
proof -
  from short_life_runs obtain d' evs where run: "runWithContext short_life persistent_config used_home = Some (None, (d', evs))" by blast
  have "guest (on_contexts f)" for f by (simp add: guest_def on_contexts_def split: prod.split)
  then have polite: "polite_run (r_running short_life)"
    using quiet_turn_guests by (simp add: polite_run_def short_life_def stopping_turn_def hosts_guests_def) (simp add: guest_def)
  have "sound_queue (empty_queue\<lparr>jobs := jobs one_running, last_sequence := 2\<rparr>) \<longleftrightarrow> sound_queue one_running"
    by (rule sound_queue_same) (simp_all add: one_running_def two_waiting_def claim_row_def update_where_def split: option.split)
  then have "sound_file (database used_home)"
    using one_running_wf by (simp add: sound_file_def used_fields sound_queue_def)
  from stored_queue_survives_the_worker [OF polite this run] run show ?thesis by blast
qed

end
