(* ===== verification/ShellQuote.thy ===== *)
theory ShellQuote
  imports GoJson
begin

text \<open>
  How the command line shows a command, cli/format.go and \<open>listedCommand\<close> of cli/list.go:
  quoting for Bash and Zsh. Beside the code stands a reference reading of the words a shell
  makes of such a line (bare words, single quotes, backslash escapes and \<open>$'...'\<close>), against
  which the quoting is proved.
\<close>

section \<open>The code\<close>

text \<open>\<open>unicode.IsControl\<close> and the table \<open>unicode.Cf\<close> (format characters).\<close>

definition is_control :: "rune \<Rightarrow> bool" where
  "is_control r \<longleftrightarrow> r < 32 \<or> (127 \<le> r \<and> r < 160)"

definition cf_ranges :: "(nat \<times> nat) list" where
  "cf_ranges = [(173, 173), (1536, 1541), (1564, 1564), (1757, 1757), (1807, 1807), (2192, 2193),
     (2274, 2274), (6158, 6158), (8203, 8207), (8234, 8238), (8288, 8292), (8294, 8303),
     (65279, 65279), (65529, 65531), (69821, 69821), (69837, 69837), (78896, 78911),
     (113824, 113827), (119155, 119162), (917505, 917505), (917536, 917631)]"

definition is_format :: "rune \<Rightarrow> bool" where
  "is_format r \<longleftrightarrow> list_ex (\<lambda>(lo, hi). lo \<le> r \<and> r \<le> hi) cf_ranges"

definition special :: "rune \<Rightarrow> bool" where
  "special r \<longleftrightarrow> is_control r \<or> is_format r"

text \<open>The regular expression \<open>^[a-zA-Z0-9_@%+=:,./-]+$\<close>.\<close>

definition bare_char :: "char \<Rightarrow> bool" where
  "bare_char c \<longleftrightarrow> in_range 97 122 c \<or> in_range 65 90 c \<or> in_range 48 57 c \<or> c \<in> set ''_@%+=:,./-''"

definition shellBareWord :: "string \<Rightarrow> bool" where
  "shellBareWord s \<longleftrightarrow> s \<noteq> [] \<and> list_all bare_char s"

text \<open>\<open>%02x\<close> and \<open>%08x\<close> of a rune: \<open>n\<close> lower-case hexadecimal digits.\<close>

fun hex_digits :: "nat \<Rightarrow> nat \<Rightarrow> string" where
  "hex_digits 0 r = []"
| "hex_digits (Suc n) r = hex_digits n (r div 16) @ [hex (r mod 16)]"

definition ansi_rune :: "rune \<Rightarrow> string" where
  "ansi_rune r =
     (if r = 10 then [CHR 0x5C, CHR ''n'']
      else if r = 13 then [CHR 0x5C, CHR ''r'']
      else if r = 9 then [CHR 0x5C, CHR ''t'']
      else if r = 92 then [CHR 0x5C, CHR 0x5C]
      else if r = 39 then [CHR 0x5C, CHR 0x27]
      else if special r then
        (if r < 128 then CHR 0x5C # CHR ''x'' # hex_digits 2 r else CHR 0x5C # CHR ''U'' # hex_digits 8 r)
      else encode_rune r)"

definition reserved_text :: string where
  "reserved_text = '' if then else elif fi case esac for select while until do done in function time coproc repeat end foreach nocorrect noglob ''"

text \<open>\<open>strings.ReplaceAll(arg, "'", "'\\''")\<close>.\<close>

definition escape_single :: "string \<Rightarrow> string" where
  "escape_single s = concat (map (\<lambda>c. if c = CHR 0x27 then [CHR 0x27, CHR 0x5C, CHR 0x27, CHR 0x27] else [c]) s)"

definition shellQuote :: "string \<Rightarrow> bool \<Rightarrow> string" where
  "shellQuote arg command =
     (if list_ex special (runes arg)
      then CHR ''$'' # CHR 0x27 # concat (map ansi_rune (runes arg)) @ [CHR 0x27]
      else let reserved = contains reserved_text ('' '' @ arg @ '' '') in
        if shellBareWord arg \<and> \<not> (command \<and> (contains arg ''='' \<or> reserved)) then arg
        else CHR 0x27 # escape_single arg @ [CHR 0x27])"

fun quote_rest :: "string list \<Rightarrow> string list" where
  "quote_rest [] = []"
| "quote_rest (arg # args) = shellQuote arg False # quote_rest args"

fun quote_parts :: "string list \<Rightarrow> string list" where
  "quote_parts [] = []"
| "quote_parts (arg # args) = shellQuote arg True # quote_rest args"

definition displayCommand :: "string list \<Rightarrow> string" where
  "displayCommand argv = join (quote_parts argv) '' ''"

definition commandDisplayLimit :: nat where
  "commandDisplayLimit = 60"

definition listedCommand :: "string list \<Rightarrow> string" where
  "listedCommand argv = (let cmd = displayCommand argv in
     if commandDisplayLimit < length (runes cmd)
     then string_of_runes (take (commandDisplayLimit - 3) (runes cmd)) @ ''...'' else cmd)"

section \<open>What a shell reads\<close>

datatype mode = Bare | Single | Ansi

text \<open>Up to \<open>n\<close> hexadecimal digits: their value and what follows.\<close>

fun take_hex :: "nat \<Rightarrow> nat \<Rightarrow> string \<Rightarrow> nat \<times> string" where
  "take_hex 0 v cs = (v, cs)"
| "take_hex (Suc n) v [] = (v, [])"
| "take_hex (Suc n) v (c # cs) = (case hex_value c of None \<Rightarrow> (v, c # cs) | Some d \<Rightarrow> take_hex n (16 * v + d) cs)"

lemma length_take_hex: "length (snd (take_hex n v cs)) \<le> length cs"
  by (induction n v cs rule: take_hex.induct) (auto split: option.split)

text \<open>
  The words of a line: \<open>acc\<close> is the word read so far, \<open>begun\<close> whether there is one (an empty
  quoted string is a word). A NUL written as \<open>\x00\<close> would end the word early, so a line with one is
  not read at all.
\<close>

function sh_words :: "mode \<Rightarrow> string \<Rightarrow> bool \<Rightarrow> string \<Rightarrow> string list option" where
  "sh_words Bare acc begun [] = Some (if begun then [acc] else [])"
| "sh_words Bare acc begun (c # cs) =
     (if c = CHR '' '' then
        (if begun then map_option (\<lambda>ws. acc # ws) (sh_words Bare [] False cs) else sh_words Bare [] False cs)
      else if c = CHR 0x27 then sh_words Single acc True cs
      else if c = CHR ''$'' then (case cs of d # ds \<Rightarrow> if d = CHR 0x27 then sh_words Ansi acc True ds else None | [] \<Rightarrow> None)
      else if c = CHR 0x5C then (case cs of d # ds \<Rightarrow> sh_words Bare (acc @ [d]) True ds | [] \<Rightarrow> None)
      else if bare_char c then sh_words Bare (acc @ [c]) True cs else None)"
| "sh_words Single acc begun [] = None"
| "sh_words Single acc begun (c # cs) =
     (if c = CHR 0x27 then sh_words Bare acc True cs else sh_words Single (acc @ [c]) True cs)"
| "sh_words Ansi acc begun [] = None"
| "sh_words Ansi acc begun (c # cs) =
     (if c = CHR 0x27 then sh_words Bare acc True cs
      else if c \<noteq> CHR 0x5C then sh_words Ansi (acc @ [c]) True cs
      else case cs of
        [] \<Rightarrow> None
      | d # ds \<Rightarrow>
          if d = CHR ''n'' then sh_words Ansi (acc @ [CHR 0x0A]) True ds
          else if d = CHR ''r'' then sh_words Ansi (acc @ [CHR 0x0D]) True ds
          else if d = CHR ''t'' then sh_words Ansi (acc @ [CHR 0x09]) True ds
          else if d = CHR 0x5C then sh_words Ansi (acc @ [CHR 0x5C]) True ds
          else if d = CHR 0x27 then sh_words Ansi (acc @ [CHR 0x27]) True ds
          else if d = CHR ''x'' then
            (if fst (take_hex 2 0 ds) = 0 then None
             else sh_words Ansi (acc @ [char_of (fst (take_hex 2 0 ds))]) True (snd (take_hex 2 0 ds)))
          else if d = CHR ''U'' then
            sh_words Ansi (acc @ encode_rune (fst (take_hex 8 0 ds))) True (snd (take_hex 8 0 ds))
          else None)"
  by pat_completeness auto
termination
  by (relation "measure (\<lambda>(m, acc, b, cs). length cs)")
    (auto intro: le_less_trans [OF length_take_hex])

text \<open>
  A whole command line: at command position a bare reserved word starts a compound command and a
  bare word with \<open>=\<close> is an assignment, so neither is read as the name of a program.
\<close>

definition reserved_words :: "string list" where
  "reserved_words = [''if'', ''then'', ''else'', ''elif'', ''fi'', ''case'', ''esac'', ''for'', ''select'',
     ''while'', ''until'', ''do'', ''done'', ''in'', ''function'', ''time'', ''coproc'', ''repeat'', ''end'',
     ''foreach'', ''nocorrect'', ''noglob'']"

definition sh_command :: "string \<Rightarrow> string list option" where
  "sh_command line = (let w = takeWhile (\<lambda>c. c \<noteq> CHR '' '') line in
     if w \<in> set reserved_words \<or> (list_all bare_char w \<and> CHR ''='' \<in> set w) then None
     else sh_words Bare [] False line)"

section \<open>The three quotings are read back\<close>

lemma not_bare [simp]:
  "\<not> bare_char (CHR '' '')" "\<not> bare_char (CHR 0x27)" "\<not> bare_char (CHR ''$'')" "\<not> bare_char (CHR 0x5C)"
  by (simp_all add: bare_char_def in_range_def)

lemma read_bare:
  "list_all bare_char s \<Longrightarrow> sh_words Bare acc b (s @ rest) = sh_words Bare (acc @ s) (b \<or> s \<noteq> []) rest"
proof (induction s arbitrary: acc b)
  case (Cons c s)
  then have "c \<noteq> CHR '' ''" "c \<noteq> CHR 0x27" "c \<noteq> CHR ''$''" "c \<noteq> CHR 0x5C" "bare_char c"
    using not_bare by auto
  with Cons show ?case by simp
qed simp

lemma read_single:
  "sh_words Single acc b (escape_single s @ CHR 0x27 # rest) = sh_words Bare (acc @ s) True rest"
proof (induction s arbitrary: acc b)
  case (Cons c s)
  then show ?case
    by (cases "c = CHR 0x27") (simp_all add: escape_single_def)
qed (simp add: escape_single_def)

lemma read_plain:
  "CHR 0x27 \<notin> set s \<Longrightarrow> CHR 0x5C \<notin> set s \<Longrightarrow>
   sh_words Ansi acc b (s @ rest) = sh_words Ansi (acc @ s) (b \<or> s \<noteq> []) rest"
proof (induction s arbitrary: acc b)
  case (Cons c s)
  then have "c \<noteq> CHR 0x27" "c \<noteq> CHR 0x5C" by auto
  with Cons show ?case by simp
qed simp

lemma take_hex_digits:
  "take_hex (n + m) v (hex_digits n r @ rest) = take_hex m (v * 16 ^ n + r mod 16 ^ n) rest"
proof (induction n arbitrary: m r rest)
  case (Suc n)
  have "take_hex (Suc n + m) v (hex_digits (Suc n) r @ rest)
      = take_hex (n + Suc m) v (hex_digits n (r div 16) @ hex (r mod 16) # rest)"
    by simp
  also have "\<dots> = take_hex m (16 * (v * 16 ^ n + r div 16 mod 16 ^ n) + r mod 16) rest"
    by (subst Suc.IH) simp
  also have "16 * (v * 16 ^ n + r div 16 mod 16 ^ n) + r mod 16 = v * 16 ^ Suc n + r mod 16 ^ Suc n"
    by (simp add: mod_mult2_eq algebra_simps)
  finally show ?case .
qed simp

lemma take_hex_two: "r < 256 \<Longrightarrow> take_hex 2 0 (hex_digits 2 r @ rest) = (r, rest)"
  using take_hex_digits [of 2 0 0 r rest] by simp

lemma take_hex_eight: "r < 1114112 \<Longrightarrow> take_hex 8 0 (hex_digits 8 r @ rest) = (r, rest)"
  using take_hex_digits [of 8 0 0 r rest] by simp

text \<open>Outside ASCII no byte of an encoded rune is an ASCII byte.\<close>

lemma encode_ascii: "r < 128 \<Longrightarrow> encode_rune r = [char_of r]"
  by (simp add: encode_rune_def scalar_def encode_scalar_def)

lemma encode_high:
  assumes "128 \<le> r" "c \<in> set (encode_rune r)"
  shows "128 \<le> byte c"
proof -
  define q where "q = (if scalar r then r else rune_error)"
  have q: "128 \<le> q" "q < 1114112"
    using assms(1) by (auto simp: q_def scalar_def rune_error_def)
  then have "q div 262144 < 16" "q div 64 < 32 \<or> 2048 \<le> q" "q div 4096 < 16 \<or> 65536 \<le> q"
    by auto
  with q assms(2) show ?thesis
    by (auto simp: encode_rune_def encode_scalar_def q_def [symmetric] simp del: byte_less split: if_splits)
qed

lemma encode_plain:
  assumes "r \<noteq> 39" "r \<noteq> 92"
  shows "CHR 0x27 \<notin> set (encode_rune r) \<and> CHR 0x5C \<notin> set (encode_rune r)"
proof (cases "r < 128")
  case True
  with assms show ?thesis
    by (auto simp: encode_ascii dest!: arg_cong [where f = "of_char :: char \<Rightarrow> nat"])
next
  case False
  then show ?thesis
    using encode_high [of r "CHR 0x27"] encode_high [of r "CHR 0x5C"] by auto
qed

lemma encode_rune_nonempty [simp]: "encode_rune r \<noteq> []"
  by (simp add: encode_rune_def)

lemma ascii_chars:
  "char_of (39 :: nat) = CHR 0x27" "char_of (92 :: nat) = CHR 0x5C" "char_of (9 :: nat) = CHR 0x09"
  "char_of (10 :: nat) = CHR 0x0A" "char_of (13 :: nat) = CHR 0x0D"
  by code_simp+

lemma read_ansi_rune:
  assumes "scalar r" "r \<noteq> 0"
  shows "sh_words Ansi acc b (ansi_rune r @ rest) = sh_words Ansi (acc @ encode_rune r) True rest"
proof (cases "r \<in> {10, 13, 9, 92, 39}")
  case True
  then show ?thesis by (auto simp: ansi_rune_def encode_ascii ascii_chars)
next
  case False
  note other = this
  show ?thesis
  proof (cases "special r")
    case True
    from assms(1) have "r < 1114112" by (auto simp: scalar_def)
    with other True assms(2) show ?thesis
      by (cases "r < 128") (simp_all add: ansi_rune_def take_hex_two take_hex_eight encode_ascii)
  next
    case False
    with other show ?thesis
      by (simp add: ansi_rune_def read_plain encode_plain)
  qed
qed

lemma read_ansi:
  "list_all (\<lambda>r. scalar r \<and> r \<noteq> 0) rs \<Longrightarrow>
   sh_words Ansi acc b (concat (map ansi_rune rs) @ CHR 0x27 # rest)
     = sh_words Bare (acc @ string_of_runes rs) True rest"
proof (induction rs arbitrary: acc b)
  case (Cons r rs)
  then show ?case by (simp add: read_ansi_rune string_of_runes_Cons)
qed simp

lemma runes_no_nul:
  assumes "\<not> contains_nul s"
  shows "list_all (\<lambda>r. scalar r \<and> r \<noteq> 0) (runes s)"
proof -
  have "fst c \<noteq> 0" if c: "c \<in> set (chunks s)" for c
  proof
    assume "fst c = 0"
    with chunks_ok [OF c] have "snd c = [char_of (0 :: nat)]"
      by (auto simp: chunk_ok_def encode_scalar_def rune_error_def)
    with c have "char_of (0 :: nat) \<in> set (concat (map snd (chunks s)))"
      unfolding set_concat set_map by (metis UN_I image_eqI list.set_intros(1))
    with assms show False by (auto simp: contains_nul_def list_ex_iff)
  qed
  then show ?thesis by (auto simp: list_all_iff runes_def chunks_scalar)
qed

text \<open>
  What a shell makes of a quoted argument: the argument itself, its bytes that are not UTF-8
  replaced when it needed \<open>$'...'\<close>.
\<close>

definition shown :: "string \<Rightarrow> string" where
  "shown arg = (if list_ex special (runes arg) then coerce_utf8 arg else arg)"

lemma shown_valid [simp]: "valid_utf8 arg \<Longrightarrow> shown arg = arg"
  by (simp add: shown_def)

lemma read_shellQuote:
  assumes "\<not> contains_nul arg"
  shows "sh_words Bare [] False (shellQuote arg command @ rest) = sh_words Bare (shown arg) True rest"
proof (cases "list_ex special (runes arg)")
  case True
  with assms show ?thesis
    by (simp add: shellQuote_def read_ansi [OF runes_no_nul [OF assms]] shown_def coerce_utf8_def)
next
  case False
  then show ?thesis
    by (auto simp: shellQuote_def shown_def Let_def shellBareWord_def read_bare read_single)
qed

section \<open>The whole command line\<close>

lemma join_Cons: "join (w # ws) sep = w @ (if ws = [] then [] else sep @ join ws sep)"
  by (cases ws) simp_all

lemma quote_rest_Nil [simp]: "quote_rest args = [] \<longleftrightarrow> args = []"
  by (cases args) simp_all

lemma read_rest:
  "list_all (\<lambda>a. \<not> contains_nul a) args \<Longrightarrow>
   sh_words Bare [] False (join (quote_rest args) '' '') = Some (map shown args)"
proof (induction args)
  case (Cons a args)
  then show ?case by (simp add: join_Cons read_shellQuote read_shellQuote [where rest = "[]", simplified])
qed simp

lemma read_displayCommand:
  assumes "list_all (\<lambda>a. \<not> contains_nul a) argv"
  shows "sh_words Bare [] False (displayCommand argv) = Some (map shown argv)"
proof (cases argv)
  case (Cons a args)
  with assms show ?thesis
    by (simp add: displayCommand_def join_Cons read_rest read_shellQuote
        read_shellQuote [where rest = "[]", simplified])
qed (simp add: displayCommand_def)

text \<open>The check of the reserved words is the membership it stands for.\<close>

lemma contains_single: "contains s [c] \<longleftrightarrow> c \<in> set s"
proof (induction s)
  case Nil
  show ?case by (subst contains.simps) (simp add: has_prefix_def)
next
  case (Cons d s)
  then show ?case by (subst contains.simps) (auto simp: has_prefix_def)
qed

lemma contains_reserved:
  assumes "w \<in> set reserved_words"
  shows "contains reserved_text ('' '' @ w @ '' '')"
proof -
  have "list_all (\<lambda>w. contains reserved_text ('' '' @ w @ '' '')) reserved_words"
    by code_simp
  with assms show ?thesis by (simp add: list_all_iff)
qed

lemma reserved_bare: "w \<in> set reserved_words \<Longrightarrow> list_all bare_char w"
proof -
  have "list_all (list_all bare_char) reserved_words" by code_simp
  then show "w \<in> set reserved_words \<Longrightarrow> list_all bare_char w" by (simp add: list_all_iff)
qed

text \<open>The first word as it stands on the line is the bare argument, or begins with a quote.\<close>

lemma shellQuote_cases:
  "shellQuote arg command = arg \<and> list_all bare_char arg
     \<and> (command \<longrightarrow> CHR ''='' \<notin> set arg \<and> \<not> contains reserved_text ('' '' @ arg @ '' ''))
   \<or> (\<exists>c s. shellQuote arg command = c # s \<and> \<not> bare_char c)"
  by (cases "list_ex special (runes arg)")
    (simp_all add: shellQuote_def shellBareWord_def Let_def contains_single)

lemma first_word:
  assumes rest: "rest = [] \<or> hd rest = CHR '' ''"
    and w: "w = takeWhile (\<lambda>c. c \<noteq> CHR '' '') (shellQuote arg True @ rest)"
  shows "w \<notin> set reserved_words \<and> \<not> (list_all bare_char w \<and> CHR ''='' \<in> set w)"
  using shellQuote_cases [of arg True]
proof (elim disjE exE conjE)
  assume bare: "shellQuote arg True = arg" "list_all bare_char arg"
    and free: "True \<longrightarrow> CHR ''='' \<notin> set arg \<and> \<not> contains reserved_text ('' '' @ arg @ '' '')"
  from bare(2) have "\<forall>c \<in> set arg. c \<noteq> CHR '' ''"
    using not_bare(1) by (auto simp: list_all_iff)
  with bare(1) rest have "w = arg"
    unfolding w by (cases rest) simp_all
  with free contains_reserved show ?thesis by blast
next
  fix c s
  assume "shellQuote arg True = c # s" "\<not> bare_char c"
  then have "w = [] \<or> \<not> list_all bare_char w" by (simp add: w)
  moreover have "[] \<notin> set reserved_words" by (simp add: reserved_words_def)
  ultimately show ?thesis using reserved_bare [of w] by (elim disjE) (simp, blast)
qed

lemma sh_command_displayCommand:
  assumes "list_all (\<lambda>a. \<not> contains_nul a) argv"
  shows "sh_command (displayCommand argv) = Some (map shown argv)"
proof (cases argv)
  case Nil
  then show ?thesis by (simp add: displayCommand_def sh_command_def reserved_words_def)
next
  case (Cons a args)
  then obtain rest where "displayCommand argv = shellQuote a True @ rest" "rest = [] \<or> hd rest = CHR '' ''"
    by (auto simp: displayCommand_def join_Cons)
  then have "takeWhile (\<lambda>c. c \<noteq> CHR '' '') (displayCommand argv) \<notin> set reserved_words
      \<and> \<not> (list_all bare_char (takeWhile (\<lambda>c. c \<noteq> CHR '' '') (displayCommand argv))
           \<and> CHR ''='' \<in> set (takeWhile (\<lambda>c. c \<noteq> CHR '' '') (displayCommand argv)))"
    by (intro first_word [of rest _ a]) simp_all
  then show ?thesis
    by (simp add: sh_command_def Let_def read_displayCommand [OF assms])
qed

section \<open>One line of the table\<close>

text \<open>Valid text without control and format characters; it is closed under concatenation.\<close>

definition plain :: "string \<Rightarrow> bool" where
  "plain s \<longleftrightarrow> (\<exists>rs. list_all scalar rs \<and> list_all (\<lambda>r. \<not> special r) rs \<and> s = string_of_runes rs)"

lemma plain_append: "plain s \<Longrightarrow> plain t \<Longrightarrow> plain (s @ t)"
proof -
  assume "plain s" "plain t"
  then obtain rs qs where "list_all scalar rs \<and> list_all (\<lambda>r. \<not> special r) rs \<and> s = string_of_runes rs"
    "list_all scalar qs \<and> list_all (\<lambda>r. \<not> special r) qs \<and> t = string_of_runes qs"
    unfolding plain_def by blast
  then show ?thesis
    unfolding plain_def by (intro exI [of _ "rs @ qs"]) (simp add: string_of_runes_append)
qed

lemma plain_Nil: "plain []"
  unfolding plain_def by (intro exI [of _ "[]"]) simp

lemma plain_concat: "(\<And>w. w \<in> set ws \<Longrightarrow> plain w) \<Longrightarrow> plain (concat ws)"
  by (induction ws) (simp_all add: plain_append plain_Nil)

lemma plain_rune: "scalar r \<Longrightarrow> \<not> special r \<Longrightarrow> plain (encode_rune r)"
  unfolding plain_def by (intro exI [of _ "[r]"]) (simp add: string_of_runes_Cons)

lemma plain_runes: "plain s \<Longrightarrow> list_all (\<lambda>r. \<not> special r) (runes s)"
  by (auto simp: plain_def runes_string_of_runes)

lemma plain_iff: "valid_utf8 s \<Longrightarrow> \<not> list_ex special (runes s) \<Longrightarrow> plain s"
proof -
  assume s: "valid_utf8 s" "\<not> list_ex special (runes s)"
  then have "s = string_of_runes (runes s)" by (metis coerce_utf8_def coerce_utf8_valid)
  with s(2) show "plain s"
    unfolding plain_def using runes_scalar by (intro exI [of _ "runes s"]) (auto simp: list_all_iff list_ex_iff)
qed

lemma special_ascii: "r < 128 \<Longrightarrow> special r \<longleftrightarrow> r < 32 \<or> r = 127"
  by (auto simp: special_def is_control_def is_format_def cf_ranges_def)

lemma plain_ascii: "list_all (in_range 32 126) s \<Longrightarrow> plain s"
proof (induction s)
  case (Cons c s)
  then have "byte c < 128" "\<not> special (byte c)" by (auto simp: in_range_def special_ascii)
  then have "plain (encode_rune (byte c))" by (intro plain_rune) (simp_all add: scalar_def)
  with Cons \<open>byte c < 128\<close> have "plain ([c] @ s)" by (intro plain_append) (simp_all add: encode_ascii)
  then show ?case by simp
qed (simp add: plain_Nil)

lemma hex_printable: "in_range 32 126 (hex d)"
proof -
  have "d mod 16 < 16" by simp
  then show ?thesis by (auto simp: hex_def in_range_def)
qed

lemma hex_digits_printable: "list_all (in_range 32 126) (hex_digits n r)"
  by (induction n arbitrary: r) (simp_all add: hex_printable)

lemma plain_ansi_rune: "scalar r \<Longrightarrow> plain (ansi_rune r)"
  by (cases "special r")
    (auto simp: ansi_rune_def plain_rune hex_digits_printable intro!: plain_ascii, simp_all add: in_range_def)

lemma escape_string_of_runes:
  "escape_single (string_of_runes rs)
     = concat (map (\<lambda>r. if r = 39 then [CHR 0x27, CHR 0x5C, CHR 0x27, CHR 0x27] else encode_rune r) rs)"
proof (induction rs)
  case (Cons r rs)
  have other: "escape_single s = s" if "CHR 0x27 \<notin> set s" for s
    using that by (induction s) (auto simp: escape_single_def)
  have "escape_single (encode_rune r) = (if r = 39 then [CHR 0x27, CHR 0x5C, CHR 0x27, CHR 0x27] else encode_rune r)"
  proof (cases "r = 39 \<or> r = 92")
    case True
    then show ?thesis by (auto simp: encode_ascii ascii_chars escape_single_def)
  next
    case False
    with encode_plain [of r] show ?thesis by (simp add: other)
  qed
  with Cons show ?case by (simp add: string_of_runes_Cons escape_single_def)
qed (simp add: escape_single_def)

lemma plain_escape: "plain s \<Longrightarrow> plain (escape_single s)"
proof -
  assume "plain s"
  then obtain rs where "list_all scalar rs" "list_all (\<lambda>r. \<not> special r) rs" "s = string_of_runes rs"
    unfolding plain_def by blast
  moreover have "plain [CHR 0x27, CHR 0x5C, CHR 0x27, CHR 0x27]"
    by (simp add: plain_ascii in_range_def)
  ultimately show ?thesis
    by (auto simp: escape_string_of_runes list_all_iff plain_rune intro!: plain_concat)
qed

lemma plain_shellQuote:
  assumes "valid_utf8 arg"
  shows "plain (shellQuote arg command)"
proof -
  have q: "plain [CHR 0x27]" "plain (CHR ''$'' # [CHR 0x27])" by (simp_all add: plain_ascii in_range_def)
  show ?thesis
  proof (cases "list_ex special (runes arg)")
    case True
    have "plain (concat (map ansi_rune (runes arg)))"
      by (intro plain_concat) (auto intro: plain_ansi_rune runes_scalar)
    then have "plain ((CHR ''$'' # [CHR 0x27]) @ concat (map ansi_rune (runes arg)) @ [CHR 0x27])"
      using q by (intro plain_append)
    with True show ?thesis by (simp add: shellQuote_def)
  next
    case False
    with assms have "plain arg" by (rule plain_iff)
    then have "plain ([CHR 0x27] @ escape_single arg @ [CHR 0x27])"
      using q by (intro plain_append plain_escape)
    with False \<open>plain arg\<close> show ?thesis by (simp add: shellQuote_def Let_def)
  qed
qed

lemma plain_join: "(\<And>w. w \<in> set ws \<Longrightarrow> plain w) \<Longrightarrow> plain sep \<Longrightarrow> plain (join ws sep)"
  by (induction ws) (simp_all add: join_Cons plain_append plain_Nil)

lemma quote_parts_set: "w \<in> set (quote_parts argv) \<Longrightarrow> \<exists>a \<in> set argv. \<exists>c. w = shellQuote a c"
proof -
  have "w \<in> set (quote_rest args) \<Longrightarrow> \<exists>a \<in> set args. \<exists>c. w = shellQuote a c" for args
    by (induction args) auto
  then show "w \<in> set (quote_parts argv) \<Longrightarrow> \<exists>a \<in> set argv. \<exists>c. w = shellQuote a c"
    by (cases argv) auto
qed

lemma plain_displayCommand: "list_all valid_utf8 argv \<Longrightarrow> plain (displayCommand argv)"
  unfolding displayCommand_def
  by (rule plain_join)
    (auto simp: list_all_iff in_range_def intro: plain_shellQuote plain_ascii dest!: quote_parts_set)



text \<open>C40. The command column of the job table is one line of at most 60 characters without control or
  format characters, so no stored command can break the table; it is the whole command when that
  fits, and otherwise the first 57 characters of it and three dots.
\<close>

theorem listed_command_is_one_short_line:
  assumes "list_all valid_utf8 argv"
  shows "length (runes (listedCommand argv)) \<le> 60
    \<and> list_all (\<lambda>r. \<not> special r) (runes (listedCommand argv))
    \<and> runes (listedCommand argv) =
        (if length (runes (displayCommand argv)) \<le> 60 then runes (displayCommand argv)
         else take 57 (runes (displayCommand argv)) @ [46, 46, 46])"
proof -
  define rs where "rs = runes (displayCommand argv)"
  have rs: "list_all scalar rs" "list_all (\<lambda>r. \<not> special r) rs"
    using plain_runes [OF plain_displayCommand [OF assms]] runes_scalar
    by (auto simp: rs_def list_all_iff)
  have dots: "string_of_runes (take 57 rs) @ ''...'' = string_of_runes (take 57 rs @ [46, 46, 46])"
    by (simp add: string_of_runes_append string_of_runes_Cons encode_ascii) code_simp
  have cut: "list_all scalar (take 57 rs @ [46, 46, 46])" "list_all (\<lambda>r. \<not> special r) (take 57 rs @ [46, 46, 46])"
    using rs by (auto simp: list_all_iff scalar_def special_ascii dest: in_set_takeD)
  have "runes (listedCommand argv) = (if length rs \<le> 60 then rs else take 57 rs @ [46, 46, 46])"
    by (simp add: listedCommand_def commandDisplayLimit_def Let_def rs_def [symmetric] dots
        runes_string_of_runes [OF cut(1)])
  with rs cut show ?thesis by (simp add: rs_def)
qed

theorem listed_command_is_one_short_line_witness:
  "length (runes (listedCommand [''echo'', [CHR 0x0A]])) \<le> 60
    \<and> list_all (\<lambda>r. \<not> special r) (runes (listedCommand [''echo'', [CHR 0x0A]]))"
proof -
  have "list_all valid_utf8 [''echo'', [CHR 0x0A]]" by simp
  from listed_command_is_one_short_line [OF this] show ?thesis by blast
qed

end
