(* ===== verification/JobTable.thy ===== *)
theory JobTable
  imports ShellQuote "HOL-Library.List_Lexorder" "HOL-Library.Char_ord"
begin

text \<open>
  What the command line shows of jobs and workers: \<open>elapsed\<close> and \<open>value\<close> of cli/format.go,
  \<open>workerLabels\<close> and the rows of \<open>printJobs\<close> of cli/list.go, \<open>tokenTimeRemaining\<close> and the rows
  of \<open>listWorkers\<close> of cli/worker_list.go. The text handed to text/tabwriter is modelled, the
  widths it pads the columns to are not. Two tables of the Go library are arguments:
  \<open>parse\<close> is \<open>time.Parse\<close> with the layout RFC 3339, whose results are Unix nanoseconds, and
  \<open>printable\<close> is \<open>strconv.IsPrint\<close>.
\<close>

section \<open>The job as the command line decodes it\<close>

record cliJob =
  j_ID :: string
  j_Status :: string
  j_Command :: "string list"
  j_Hostname :: "string option"
  j_WorkerID :: "string option"
  j_OutputPath :: "string option"
  j_ExitCode :: "int option"
  j_StartedAt :: "string option"
  j_FinishedAt :: "string option"
  j_CancelRequested :: int

definition value_or_dash :: "string option \<Rightarrow> string" where
  "value_or_dash p = (case p of None \<Rightarrow> ''-'' | Some s \<Rightarrow> s)"

section \<open>Durations\<close>

text \<open>
  A \<open>time.Duration\<close> is a 64-bit count of nanoseconds: \<open>Sub\<close> saturates, the unary minus wraps
  around, \<open>Truncate(time.Second)\<close> rounds towards zero.
\<close>

definition sub_time :: "int \<Rightarrow> int \<Rightarrow> int" where
  "sub_time t u = max (- (2 ^ 63)) (min (2 ^ 63 - 1) (t - u))"

definition neg_duration :: "int \<Rightarrow> int" where
  "neg_duration d = signed_take_bit 63 (- d)"

definition second :: int where
  "second = 1000000000"

definition truncate_second :: "int \<Rightarrow> int" where
  "truncate_second d = (if 0 \<le> d then d div second * second else - (- d div second * second))"

text \<open>\<open>Duration.String\<close> of whole seconds: hours only from an hour on, minutes from a minute on.\<close>

definition seconds_text :: "nat \<Rightarrow> string" where
  "seconds_text n =
     (if n < 60 then itoa_nat n @ ''s''
      else if n < 3600 then itoa_nat (n div 60) @ ''m'' @ itoa_nat (n mod 60) @ ''s''
      else itoa_nat (n div 3600) @ ''h'' @ itoa_nat (n div 60 mod 60) @ ''m'' @ itoa_nat (n mod 60) @ ''s'')"

definition duration_text :: "int \<Rightarrow> string" where
  "duration_text d = (if d < 0 then ''-'' @ seconds_text (nat (- d div second)) else seconds_text (nat (d div second)))"

definition elapsed :: "(string \<Rightarrow> int option) \<Rightarrow> cliJob \<Rightarrow> int \<Rightarrow> string" where
  "elapsed parse j now =
     (if j_Status j = ''queued'' then ''-''
      else case j_StartedAt j of None \<Rightarrow> ''-''
      | Some s \<Rightarrow> (case parse s of None \<Rightarrow> ''-''
        | Some start \<Rightarrow>
            (case (if j_Status j \<noteq> ''running''
                   then (case j_FinishedAt j of None \<Rightarrow> None | Some f \<Rightarrow> parse f) else Some now) of
               None \<Rightarrow> ''-''
             | Some finish \<Rightarrow>
                 (let d = truncate_second (sub_time finish start) in
                  duration_text (if d < 0 then 0 else d)))))"

definition tokenTimeRemaining :: "(string \<Rightarrow> int option) \<Rightarrow> string option \<Rightarrow> int \<Rightarrow> string" where
  "tokenTimeRemaining parse expiry now = (case expiry of None \<Rightarrow> ''unknown''
   | Some e \<Rightarrow> (case parse e of None \<Rightarrow> ''unknown''
     | Some at \<Rightarrow>
        (let remaining = sub_time at now in
         if remaining \<le> 0 then ''expired '' @ duration_text (truncate_second (neg_duration remaining)) @ '' ago''
         else if remaining < second then ''<1s remaining''
         else duration_text (truncate_second remaining) @ '' remaining'')))"

section \<open>Labels of workers\<close>

text \<open>The loop that counts the bytes two identifiers begin with in common.\<close>

fun common :: "'a list \<Rightarrow> 'a list \<Rightarrow> nat" where
  "common (x # xs) (y # ys) = (if x = y then Suc (common xs ys) else 0)"
| "common _ _ = 0"

definition neighbor_length :: "string list \<Rightarrow> nat \<Rightarrow> nat \<Rightarrow> nat \<Rightarrow> nat" where
  "neighbor_length names i k n = max n (min (common (names ! i) (names ! k) + 1) (length (names ! i)))"

definition label_length :: "string list \<Rightarrow> nat \<Rightarrow> nat" where
  "label_length names i =
     (let n0 = min 8 (length (names ! i));
          n1 = (if i = 0 then n0 else neighbor_length names i (i - 1) n0)
      in if length names \<le> i + 1 then n1 else neighbor_length names i (i + 1) n1)"

definition label_ids :: "cliJob list list \<Rightarrow> string list" where
  "label_ids listings = sort (remdups (map (value_or_dash \<circ> j_WorkerID) (concat listings)))"

definition workerLabels :: "cliJob list list \<Rightarrow> string \<rightharpoonup> string" where
  "workerLabels listings = (let names = label_ids listings in
     map_of (map (\<lambda>i. (names ! i, take (label_length names i) (names ! i))) [0..<length names]))"

section \<open>Rows\<close>

text \<open>\<open>strconv.Quote\<close>.\<close>

definition quote_rune :: "(rune \<Rightarrow> bool) \<Rightarrow> rune \<times> string \<Rightarrow> string" where
  "quote_rune printable c = (let r = fst c in
     if \<not> chunk_valid c then concat (map (\<lambda>b. CHR 0x5C # CHR ''x'' # hex_digits 2 (byte b)) (snd c))
     else if r = 34 \<or> r = 92 then [CHR 0x5C, char_of r]
     else if printable r then encode_rune r
     else if r = 7 then [CHR 0x5C, CHR ''a'']
     else if r = 8 then [CHR 0x5C, CHR ''b'']
     else if r = 12 then [CHR 0x5C, CHR ''f'']
     else if r = 10 then [CHR 0x5C, CHR ''n'']
     else if r = 13 then [CHR 0x5C, CHR ''r'']
     else if r = 9 then [CHR 0x5C, CHR ''t'']
     else if r = 11 then [CHR 0x5C, CHR ''v'']
     else if r < 32 \<or> r = 127 then CHR 0x5C # CHR ''x'' # hex_digits 2 r
     else if r < 65536 then CHR 0x5C # CHR ''u'' # hex_digits 4 r
     else CHR 0x5C # CHR ''U'' # hex_digits 8 r)"

definition go_quote :: "(rune \<Rightarrow> bool) \<Rightarrow> string \<Rightarrow> string" where
  "go_quote printable s = CHR 0x22 # concat (map (quote_rune printable) (chunks s)) @ [CHR 0x22]"

definition job_state :: "cliJob \<Rightarrow> string" where
  "job_state j = (if j_Status j = ''running'' \<and> j_CancelRequested j \<noteq> 0 then ''cancelling'' else j_Status j)"

definition job_cells :: "(string \<Rightarrow> int option) \<Rightarrow> (rune \<Rightarrow> bool) \<Rightarrow> int \<Rightarrow> (string \<rightharpoonup> string) \<Rightarrow> cliJob \<Rightarrow> string list" where
  "job_cells parse printable now workers j =
     [j_ID j, job_state j, elapsed parse j now, go_quote printable (value_or_dash (j_Hostname j)),
      (case workers (value_or_dash (j_WorkerID j)) of None \<Rightarrow> [] | Some l \<Rightarrow> l),
      (case j_ExitCode j of None \<Rightarrow> ''-'' | Some n \<Rightarrow> itoa n),
      go_quote printable (value_or_dash (j_OutputPath j)), listedCommand (j_Command j)]"

definition table_line :: "string list \<Rightarrow> string" where
  "table_line cells = join cells [CHR 0x09] @ [CHR 0x0A]"

definition job_header :: "string list" where
  "job_header = [''ID'', ''STATE'', ''ELAPSED'', ''HOST'', ''WORKER'', ''EXIT'', ''OUTPUT'', ''COMMAND'']"

definition job_table :: "(string \<Rightarrow> int option) \<Rightarrow> (rune \<Rightarrow> bool) \<Rightarrow> int \<Rightarrow> cliJob list list \<Rightarrow> string" where
  "job_table parse printable now listings = (let workers = workerLabels listings in
     table_line job_header @ concat (map (table_line \<circ> job_cells parse printable now workers) (concat listings)))"

record cliWorker =
  w_WorkerID :: string
  w_Hostname :: string
  w_TokenExpiry :: "string option"

text \<open>The jobs that \<open>listWorkers\<close> makes up to have the labels computed.\<close>

definition worker_job :: "cliWorker \<Rightarrow> cliJob" where
  "worker_job w = \<lparr>j_ID = [], j_Status = [], j_Command = [], j_Hostname = None, j_WorkerID = Some (w_WorkerID w),
     j_OutputPath = None, j_ExitCode = None, j_StartedAt = None, j_FinishedAt = None, j_CancelRequested = 0\<rparr>"

definition worker_table :: "(string \<Rightarrow> int option) \<Rightarrow> (rune \<Rightarrow> bool) \<Rightarrow> int \<Rightarrow> cliWorker list \<Rightarrow> string" where
  "worker_table parse printable now ws = (let labels = workerLabels [map worker_job ws] in
     table_line [''WORKER_ID'', ''WORKER_NAME'', ''TOKEN_EXPIRED_TIME''] @
     concat (map (\<lambda>w. table_line
       [(case labels (w_WorkerID w) of None \<Rightarrow> [] | Some l \<Rightarrow> l), go_quote printable (w_Hostname w),
        tokenTimeRemaining parse (w_TokenExpiry w) now]) ws))"

section \<open>Neighbours are enough\<close>

lemma common_commute: "common xs ys = common ys xs"
  by (induction xs ys rule: common.induct) auto

lemma common_le: "common xs ys \<le> length xs" "common xs ys \<le> length ys"
  by (induction xs ys rule: common.induct) auto

lemma common_take: "take (common xs ys) xs = take (common xs ys) ys"
  by (induction xs ys rule: common.induct) auto

lemma common_differ:
  "common xs ys < length xs \<Longrightarrow> common xs ys < length ys \<Longrightarrow> xs ! common xs ys \<noteq> ys ! common xs ys"
  by (induction xs ys rule: common.induct) auto

text \<open>Between two strings in the order lie only strings with their common beginning.\<close>

lemma common_between:
  fixes xs ys zs :: "'a :: linorder list"
  assumes "xs \<le> ys" "ys \<le> zs"
  shows "common xs zs \<le> common xs ys" "common xs zs \<le> common ys zs"
proof -
  have "common xs zs \<le> common xs ys \<and> common xs zs \<le> common ys zs"
    using assms
  proof (induction xs arbitrary: ys zs)
    case (Cons x xs)
    then obtain y ys' z zs' where [simp]: "ys = y # ys'" "zs = z # zs'"
      by (metis Cons_le_Cons le_Nil neq_Nil_conv)
    show ?case
    proof (cases "x = z")
      case True
      with Cons.prems have "y = z" "xs \<le> ys'" "ys' \<le> zs'" by auto
      with True Cons.IH show ?thesis by simp
    qed simp
  qed simp
  then show "common xs zs \<le> common xs ys" "common xs zs \<le> common ys zs" by auto
qed

lemma common_neighbor:
  assumes names: "sorted names" "i < length names" "j < length names" and "i \<noteq> j"
  shows "(i < j \<longrightarrow> common (names ! i) (names ! j) \<le> common (names ! i) (names ! (i + 1))) \<and>
    (j < i \<longrightarrow> common (names ! i) (names ! j) \<le> common (names ! i) (names ! (i - 1)))"
proof (intro conjI impI)
  assume "i < j"
  then show "common (names ! i) (names ! j) \<le> common (names ! i) (names ! (i + 1))"
    using names by (intro common_between) (auto intro: sorted_nth_mono)
next
  assume "j < i"
  then have "common (names ! j) (names ! i) \<le> common (names ! (i - 1)) (names ! i)"
    using names by (intro common_between) (auto intro: sorted_nth_mono)
  then show "common (names ! i) (names ! j) \<le> common (names ! i) (names ! (i - 1))"
    by (simp add: common_commute)
qed

text \<open>
  The specification: eight bytes, or as many as it takes to tell the identifier from each of the
  others, or all of it.
\<close>

definition shared :: "string \<Rightarrow> string \<Rightarrow> nat" where
  "shared a b = min (common a b + 1) (length a)"

definition reference_length :: "string set \<Rightarrow> string \<Rightarrow> nat" where
  "reference_length others a = Max (insert (min 8 (length a)) (shared a ` others))"

definition around :: "nat \<Rightarrow> nat \<Rightarrow> nat set" where
  "around n i = {k. k < n \<and> (k + 1 = i \<or> k = i + 1)}"

lemma label_length_around:
  assumes "i < length names"
  shows "label_length names i = Max (insert (min 8 (length (names ! i)))
     ((\<lambda>k. shared (names ! i) (names ! k)) ` around (length names) i))"
proof -
  have "around (length names) i = (if i = 0 then {} else {i - 1}) \<union> (if length names \<le> i + 1 then {} else {i + 1})"
    using assms by (auto simp: around_def)
  then show ?thesis
    unfolding label_length_def neighbor_length_def shared_def [symmetric] Let_def
    by (auto simp: ac_simps)
qed

lemma finite_around [simp]: "finite (around n i)"
  by (simp add: around_def)

lemma label_length_reference:
  assumes names: "sorted names" "distinct names" and i: "i < length names"
  shows "label_length names i = reference_length (set names - {names ! i}) (names ! i)"
proof (rule antisym)
  have "(\<lambda>k. shared (names ! i) (names ! k)) ` around (length names) i
      \<subseteq> shared (names ! i) ` (set names - {names ! i})"
    using i names(2) by (auto simp: around_def nth_eq_iff_index_eq)
  then show "label_length names i \<le> reference_length (set names - {names ! i}) (names ! i)"
    unfolding label_length_around [OF i] reference_length_def by (intro Max_mono) auto
next
  let ?M = "Max (insert (min 8 (length (names ! i))) ((\<lambda>k. shared (names ! i) (names ! k)) ` around (length names) i))"
  have other: "shared (names ! i) b \<le> ?M" if b: "b \<in> set names - {names ! i}" for b
  proof -
    from b obtain j where j: "j < length names" "b = names ! j" "i \<noteq> j" by (auto simp: in_set_conv_nth)
    then have "\<exists>k \<in> around (length names) i. common (names ! i) b \<le> common (names ! i) (names ! k)"
    proof (cases "i < j")
      case True
      with common_neighbor [OF names(1) i j(1) j(3)] j show ?thesis
        by (intro bexI [of _ "i + 1"]) (auto simp: around_def)
    next
      case False
      with common_neighbor [OF names(1) i j(1) j(3)] i j show ?thesis
        by (intro bexI [of _ "i - 1"]) (auto simp: around_def)
    qed
    then obtain k where k: "k \<in> around (length names) i" "shared (names ! i) b \<le> shared (names ! i) (names ! k)"
      by (fastforce simp: shared_def)
    then have "shared (names ! i) (names ! k) \<le> ?M" by (intro Max_ge) auto
    with k(2) show ?thesis by (rule le_trans)
  qed
  then show "reference_length (set names - {names ! i}) (names ! i) \<le> label_length names i"
    unfolding label_length_around [OF i] reference_length_def by (subst Max_le_iff) auto
qed

lemma sorted_label_ids [simp]: "sorted (label_ids listings)"
  by (simp add: label_ids_def)

lemma distinct_label_ids [simp]: "distinct (label_ids listings)"
  by (simp add: label_ids_def)

lemma set_label_ids:
  "set (label_ids listings) = {value_or_dash (j_WorkerID j) |j listing. listing \<in> set listings \<and> j \<in> set listing}"
  by (auto simp: label_ids_def)

lemma map_of_indexed:
  "distinct xs \<Longrightarrow> i < length xs \<Longrightarrow> map_of (map (\<lambda>i. (xs ! i, f i)) [0..<length xs]) (xs ! i) = Some (f i)"
  by (subst map_of_eq_Some_iff) (auto simp: comp_def map_nth)

lemma workerLabels_reference:
  assumes "a \<in> set (label_ids listings)"
  shows "workerLabels listings a = Some (take (reference_length (set (label_ids listings) - {a}) a) a)"
proof -
  from assms obtain i where i: "i < length (label_ids listings)" "a = label_ids listings ! i"
    by (auto simp: in_set_conv_nth)
  then show ?thesis
    by (simp add: workerLabels_def Let_def map_of_indexed label_length_reference)
qed

lemma reference_length_le: "finite others \<Longrightarrow> reference_length others a \<le> length a"
  by (simp add: reference_length_def shared_def)

lemma shared_le_reference: "finite others \<Longrightarrow> b \<in> others \<Longrightarrow> shared a b \<le> reference_length others a"
  by (simp add: reference_length_def)

text \<open>A prefix longer than what two identifiers share tells them apart.\<close>

lemma prefix_distinguishes:
  assumes "shared a b \<le> n" "has_prefix b (take n a)"
  shows "take n a = a"
proof (rule ccontr)
  assume "take n a \<noteq> a"
  then have n: "n < length a" by (metis not_less take_all)
  then have c: "common a b < n" using assms(1) by (simp add: shared_def)
  from assms(2) n have eq: "take n b = take n a" by (simp add: has_prefix_def)
  from arg_cong [OF eq, of length] n have "n \<le> length b" by (simp add: min_def split: if_splits)
  then have "common a b < length b" using c by simp
  moreover have "a ! common a b = b ! common a b" using eq c by (metis nth_take)
  ultimately show False using common_differ [of a b] c n by auto
qed

lemma reference_length_attained:
  assumes "finite others" "8 < reference_length others a"
  shows "\<exists>b \<in> others. reference_length others a = shared a b"
proof -
  have "reference_length others a \<in> insert (min 8 (length a)) (shared a ` others)"
    unfolding reference_length_def using assms(1) by (intro Max_in) auto
  with assms(2) show ?thesis by auto
qed

lemma shared_pred: "take (shared a b - 1) a = take (shared a b - 1) b"
proof -
  have "shared a b - 1 \<le> common a b" by (auto simp: shared_def)
  then show ?thesis using common_take [of a b] by (metis min.absorb1 take_take)
qed

section \<open>Properties\<close>

text \<open>C28. Comparing each worker only with its neighbours in the order gives every worker of the
  listings the label that comparing it with all the others would: the shortest prefix of at least
  eight bytes that tells it from the others. A label is therefore a prefix of no other worker's
  identifier, unless it is the whole of its own, and no two workers share one.\<close>

theorem worker_labels_tell_workers_apart:
  assumes "j \<in> set (concat listings)" and a: "a = value_or_dash (j_WorkerID j)"
    and others: "others = {value_or_dash (j_WorkerID k) |k. k \<in> set (concat listings)} - {a}"
  shows "\<exists>l. workerLabels listings a = Some l \<and> l = take (reference_length others a) a
    \<and> (\<forall>b \<in> others. (has_prefix b l \<longrightarrow> l = a) \<and> workerLabels listings b \<noteq> Some l)
    \<and> (8 < length l \<longrightarrow> (\<exists>b \<in> others. take (length l - 1) b = take (length l - 1) a))"
proof -
  have set: "set (label_ids listings) = {value_or_dash (j_WorkerID k) |k. k \<in> set (concat listings)}"
    by (auto simp: label_ids_def)
  have fin: "finite (set (label_ids listings) - {c})" for c by simp
  have others': "others = set (label_ids listings) - {a}" by (simp add: others set)
  have mem: "a \<in> set (label_ids listings)" using assms(1) a by (auto simp: set)
  let ?l = "take (reference_length others a) a"
  have label: "workerLabels listings a = Some ?l"
    using workerLabels_reference [OF mem] by (simp add: others')
  have prefix: "?l = a" if "b \<in> others" "has_prefix b ?l" for b
    using that fin by (intro prefix_distinguishes [of a b]) (auto simp: others' intro: shared_le_reference)
  have "workerLabels listings b \<noteq> Some ?l" if b: "b \<in> others" for b
  proof
    let ?rest = "set (label_ids listings) - {b}"
    assume "workerLabels listings b = Some ?l"
    with b workerLabels_reference [of b listings] have l: "take (reference_length ?rest b) b = ?l"
      by (auto simp: others')
    have p: "has_prefix b (take n b)" for n by (metis append_take_drop_id has_prefix_append)
    have "?l = a" by (rule prefix [OF b]) (metis l p)
    moreover have "has_prefix a ?l" by (metis append_take_drop_id has_prefix_append)
    then have "take (reference_length ?rest b) b = b"
      using b mem unfolding l [symmetric]
      by (intro prefix_distinguishes [of b a]) (auto simp: others' intro!: shared_le_reference)
    ultimately show False using b l by (simp add: others')
  qed
  moreover have "\<exists>b \<in> others. take (length ?l - 1) b = take (length ?l - 1) a" if "8 < length ?l"
  proof -
    have len: "length ?l = reference_length others a"
      using reference_length_le [OF fin] by (simp add: others')
    with that reference_length_attained [OF fin, of a a] obtain b
      where "b \<in> others" "reference_length others a = shared a b" by (auto simp: others')
    then show ?thesis using shared_pred [of a b] len by metis
  qed
  ultimately show ?thesis using label prefix by blast
qed

definition on_worker :: "string \<Rightarrow> cliJob" where
  "on_worker w = worker_job \<lparr>w_WorkerID = w, w_Hostname = [], w_TokenExpiry = None\<rparr>"

theorem worker_labels_tell_workers_apart_witness:
  "\<exists>l. workerLabels [[on_worker ''abcdefgh-1'', on_worker ''abcdefgh-2'']] ''abcdefgh-1'' = Some l
    \<and> workerLabels [[on_worker ''abcdefgh-1'', on_worker ''abcdefgh-2'']] ''abcdefgh-2'' \<noteq> Some l"
proof -
  let ?js = "[[on_worker ''abcdefgh-1'', on_worker ''abcdefgh-2'']]"
  have j: "on_worker ''abcdefgh-1'' \<in> set (concat ?js)" by simp
  have a: "''abcdefgh-1'' = value_or_dash (j_WorkerID (on_worker ''abcdefgh-1''))"
    by (simp add: on_worker_def worker_job_def value_or_dash_def)
  have "''abcdefgh-2'' = value_or_dash (j_WorkerID (on_worker ''abcdefgh-2''))"
    by (simp add: on_worker_def worker_job_def value_or_dash_def)
  moreover have "on_worker ''abcdefgh-2'' \<in> set (concat ?js)" by simp
  ultimately have "''abcdefgh-2'' \<in> {value_or_dash (j_WorkerID k) |k. k \<in> set (concat ?js)} - {''abcdefgh-1''}"
    by blast
  then show ?thesis using worker_labels_tell_workers_apart [OF j a refl] by blast
qed

lemma char_of_nat_numerals:
  "char_of (48 :: nat) = CHR ''0''" "char_of (49 :: nat) = CHR ''1''" "char_of (50 :: nat) = CHR ''2''"
  "char_of (51 :: nat) = CHR ''3''" "char_of (52 :: nat) = CHR ''4''" "char_of (53 :: nat) = CHR ''5''"
  "char_of (54 :: nat) = CHR ''6''" "char_of (55 :: nat) = CHR ''7''" "char_of (56 :: nat) = CHR ''8''"
  "char_of (57 :: nat) = CHR ''9''"
  by code_simp+

text \<open>
  An expiry more than 2^63 nanoseconds (292 years) in the past saturates the difference, and its
  negation wraps around to itself: the time since the expiry is shown as negative.
\<close>

theorem expired_long_ago_wraps_around:
  assumes "parse e = Some at" "at - now \<le> - (2 ^ 63)"
  shows "tokenTimeRemaining parse (Some e) now = ''expired -2562047h47m16s ago''"
proof -
  have "sub_time at now = - (2 ^ 63)" using assms(2) by (simp add: sub_time_def)
  moreover have "neg_duration (- (2 ^ 63)) = - (2 ^ 63)" by (simp add: neg_duration_def signed_take_bit_eq_if_positive signed_take_bit_eq_if_negative)
  moreover have "truncate_second (- (2 ^ 63)) = - (9223372036 * second)" by (simp add: truncate_second_def second_def)
  moreover have "seconds_text 9223372036 = ''2562047h47m16s''"
    by (simp add: seconds_text_def itoa_nat.simps char_of_nat_numerals)
  then have "duration_text (- (9223372036 * second)) = ''-2562047h47m16s''"
    by (simp add: duration_text_def second_def)
  ultimately show ?thesis using assms(1) by (simp add: tokenTimeRemaining_def)
qed

end
