(* ===== verification/CliClient.thy ===== *)
theory CliClient
  imports ControllerClient LocalSocket JobTable GoPaths
begin

text \<open>
  The command line's HTTP client: cli/client.go, cli/local.go, cli/batch.go and \<open>fetchJobs\<close> of
  cli/list.go. The world of a command is the state of the network and what has been written to
  the two output streams; each stream takes a number of writes and fails from then on. What
  net/http does with a request is an argument (\<open>http_net\<close>): whether the request can be made, and
  the reply, with the value its body parses to (an object names no member twice).
\<close>

section \<open>The world\<close>

datatype net_error = NotExist string | Refused string | OtherFailure string

datatype cli_error =
    BadController
  | InvalidQueueName
  | NoStateDirectory
  | NoHomeDirectory
  | NewRequestError string
  | KeyRequired
  | TransportFailed string string net_error bool
  | ReadFailed string
  | ResponseExceeds nat
  | StatusOnly string string int
  | StatusWithBody string string string string
  | ReplyNotJSON
  | WriteFailed
  | BatchFailures string
  | Usage string
  | NoOutputFile string
  | NotConfirmed
  | CannotList cli_error cli_error
  | MasterKeyRequired string
  | BinaryError string
  | WorkerFailed string string
  | EnvRefused string
  | SetFailed string cli_error

record http_request =
  h_method :: string
  h_base :: string
  h_path :: string
  h_dial :: "string option"
  h_authorization :: "string option"
  h_body :: "json option"

datatype reply_body = BodyBroken string | BodyText string "json option"

datatype http_reply = NoReply net_error | HttpReply int string reply_body

record 'w http_net =
  refuses :: "string \<Rightarrow> string \<Rightarrow> string option"
  exchange :: "http_request \<Rightarrow> 'w \<Rightarrow> http_reply \<times> 'w"

record 'w world =
  net_state :: 'w
  stdout :: "string list"
  out_room :: nat
  diagnostic :: "string list"
  diag_room :: nat

type_synonym ('w, 'a) cli = "('w world, cli_error, 'a) op"

definition print_out :: "string \<Rightarrow> ('w, unit) cli" where
  "print_out s = (\<lambda>w. if length (stdout w) < out_room w then (Inr (), w\<lparr>stdout := stdout w @ [s]\<rparr>)
     else (Inl WriteFailed, w))"

definition print_diag :: "string \<Rightarrow> ('w, unit) cli" where
  "print_diag s = (\<lambda>w. if length (diagnostic w) < diag_room w then (Inr (), w\<lparr>diagnostic := diagnostic w @ [s]\<rparr>)
     else (Inl WriteFailed, w))"

text \<open>A write whose error is not looked at.\<close>

definition ignoring :: "('w, unit) cli \<Rightarrow> ('w, unit) cli" where
  "ignoring m = (\<lambda>w. (Inr (), snd (m w)))"

abbreviation line :: "string \<Rightarrow> string" where
  "line s \<equiv> s @ [CHR 0x0A]"

section \<open>Clients\<close>

type_synonym environ = "string \<rightharpoonup> string"

definition getenv :: "environ \<Rightarrow> string \<Rightarrow> string" where
  "getenv env name = (case env name of None \<Rightarrow> [] | Some v \<Rightarrow> v)"

definition controllerKey :: "environ \<Rightarrow> string" where
  "controllerKey env = (let key = trim_space (getenv env ''JOBD_MASTER_KEY'') in
     if key \<noteq> [] then key else trim_space (getenv env ''JOBD_WORKER_TOKEN''))"

text \<open>\<open>dials\<close> is the Unix socket that the transport of a local client connects to.\<close>

record cliClient =
  base :: string
  cli_key :: string
  is_local :: bool
  dials :: "string option"

definition newClient :: "environ \<Rightarrow> string \<Rightarrow> url option \<Rightarrow> string \<Rightarrow> cli_error + cliClient" where
  "newClient env address parsed queue = (case parsed of
     None \<Rightarrow> Inl BadController
   | Some u \<Rightarrow>
      if Scheme u \<noteq> ''http'' \<and> Scheme u \<noteq> ''https'' \<or> Host u = [] \<or> RawQuery u \<noteq> [] \<or> Fragment u \<noteq> []
      then Inl BadController
      else if \<not> queue_name queue then Inl InvalidQueueName
      else Inr \<lparr>base = trim_right address (CHR ''/'') @ ''/queues/'' @ queue, cli_key = controllerKey env,
        is_local = False, dials = None\<rparr>)"

text \<open>\<open>os.UserHomeDir\<close> on Unix.\<close>

definition user_home :: "environ \<Rightarrow> cli_error + string" where
  "user_home env = (if getenv env ''HOME'' = [] then Inl NoHomeDirectory else Inr (getenv env ''HOME''))"

definition newLocalClient :: "environ \<Rightarrow> string \<Rightarrow> cli_error + cliClient" where
  "newLocalClient env stateDir =
     (if stateDir = [] then Inl NoStateDirectory
      else case expand_home (user_home env) stateDir of
        Inl e \<Rightarrow> Inl e
      | Inr dir \<Rightarrow> Inr \<lparr>base = ''http://local'', cli_key = [], is_local = True,
          dials = Some (Join [dir, ''local'', ''control.sock''])\<rparr>)"

section \<open>One request\<close>

definition secret_path :: "string \<Rightarrow> bool" where
  "secret_path path \<longleftrightarrow> path = ''/env'' \<or> has_prefix path ''/env/'' \<or> has_prefix path ''/auth/''"

definition response_limit :: "cliClient \<Rightarrow> nat" where
  "response_limit c = (if is_local c then 192 * 2 ^ 20 else 2 ^ 20)"

definition check_reply :: "cliClient \<Rightarrow> string \<Rightarrow> string \<Rightarrow> http_reply \<Rightarrow> cli_error + json option" where
  "check_reply c verb path reply = (case reply of
     NoReply e \<Rightarrow> Inl (TransportFailed verb path e (verb \<noteq> ''GET''))
   | HttpReply code reason (BodyBroken e) \<Rightarrow> Inl (ReadFailed e)
   | HttpReply code reason (BodyText data parsed) \<Rightarrow>
      if response_limit c < length data then Inl (ResponseExceeds (response_limit c div 2 ^ 20))
      else if code < 200 \<or> 300 \<le> code then
        (if secret_path path then Inl (StatusOnly verb path code)
         else Inl (StatusWithBody verb path reason (trim_space data)))
      else Inr parsed)"

definition the_request :: "cliClient \<Rightarrow> string \<Rightarrow> string \<Rightarrow> json option \<Rightarrow> http_request" where
  "the_request c verb path body = \<lparr>h_method = verb, h_base = base c, h_path = path, h_dial = dials c,
     h_authorization = (if is_local c then None else Some (''Bearer '' @ cli_key c)), h_body = body\<rparr>"

definition raw_request :: "'w http_net \<Rightarrow> cliClient \<Rightarrow> string \<Rightarrow> string \<Rightarrow> json option \<Rightarrow> ('w, json option) cli" where
  "raw_request net c verb path body = (\<lambda>w.
     case refuses net verb (base c @ path) of
       Some e \<Rightarrow> (Inl (NewRequestError e), w)
     | None \<Rightarrow>
        if \<not> is_local c \<and> cli_key c = [] then (Inl KeyRequired, w)
        else (case exchange net (the_request c verb path body) (net_state w) of (reply, n) \<Rightarrow>
          (check_reply c verb path reply, w\<lparr>net_state := n\<rparr>)))"

text \<open>
  \<open>request\<close> with a result to decode into, and without. The bodies that the program sends always
  marshal; they are given as the values handed to \<open>json.Marshal\<close>, which replaces the invalid bytes
  of strings as it writes.
\<close>

definition request_for :: "'w http_net \<Rightarrow> cliClient \<Rightarrow> string \<Rightarrow> string \<Rightarrow> json option \<Rightarrow> (json \<Rightarrow> 'a option) \<Rightarrow> ('w, 'a) cli" where
  "request_for net c verb path body decode = bnd (raw_request net c verb path body) (\<lambda>parsed.
     case parsed of None \<Rightarrow> fail ReplyNotJSON
     | Some v \<Rightarrow> (case decode v of None \<Rightarrow> fail ReplyNotJSON | Some x \<Rightarrow> ret x))"

definition request_nil :: "'w http_net \<Rightarrow> cliClient \<Rightarrow> string \<Rightarrow> string \<Rightarrow> json option \<Rightarrow> ('w, unit) cli" where
  "request_nil net c verb path body = bnd (raw_request net c verb path body) (\<lambda>_. ret ())"

abbreviation empty_object :: json where
  "empty_object \<equiv> JObject []"

definition list_body :: "string \<Rightarrow> string list \<Rightarrow> json" where
  "list_body name xs = JObject [(name, JArray (map JString xs))]"

section \<open>Decoding replies\<close>

fun decode_members :: "(string \<Rightarrow> json \<Rightarrow> 'a \<Rightarrow> 'a option) \<Rightarrow> 'a \<Rightarrow> (string \<times> json) list \<Rightarrow> 'a option" where
  "decode_members field x [] = Some x"
| "decode_members field x ((k, v) # ms) =
     (case field k v x of None \<Rightarrow> None | Some y \<Rightarrow> decode_members field y ms)"

definition decode_struct :: "(string \<Rightarrow> json \<Rightarrow> 'a \<Rightarrow> 'a option) \<Rightarrow> 'a \<Rightarrow> json \<Rightarrow> 'a option" where
  "decode_struct field zero v = (case v of
     JNull \<Rightarrow> Some zero | JObject ms \<Rightarrow> decode_members field zero ms | _ \<Rightarrow> None)"

fun decode_all :: "(json \<Rightarrow> 'a option) \<Rightarrow> json list \<Rightarrow> 'a list option" where
  "decode_all dec [] = Some []"
| "decode_all dec (v # vs) = (case (dec v, decode_all dec vs) of (Some x, Some xs) \<Rightarrow> Some (x # xs) | _ \<Rightarrow> None)"

definition decode_slice :: "(json \<Rightarrow> 'a option) \<Rightarrow> json \<Rightarrow> 'a list option" where
  "decode_slice dec v = (case v of JNull \<Rightarrow> Some [] | JArray vs \<Rightarrow> decode_all dec vs | _ \<Rightarrow> None)"

text \<open>\<open>*string\<close>, \<open>*int\<close> and \<open>int\<close> fields.\<close>

definition decode_string_ptr :: "json \<Rightarrow> string option option" where
  "decode_string_ptr v = (case v of JNull \<Rightarrow> Some None | JString s \<Rightarrow> Some (Some s) | _ \<Rightarrow> None)"

definition decode_int_ptr :: "json \<Rightarrow> int option option" where
  "decode_int_ptr v = (case v of JNull \<Rightarrow> Some None
     | JNumber s \<Rightarrow> (case parse_int64 s of None \<Rightarrow> None | Some n \<Rightarrow> Some (Some n)) | _ \<Rightarrow> None)"

definition decode_int :: "int \<Rightarrow> json \<Rightarrow> int option" where
  "decode_int old v = (case v of JNull \<Rightarrow> Some old | JNumber s \<Rightarrow> parse_int64 s | _ \<Rightarrow> None)"

definition zero_job :: cliJob where
  "zero_job = \<lparr>j_ID = [], j_Status = [], j_Command = [], j_Hostname = None, j_WorkerID = None,
     j_OutputPath = None, j_ExitCode = None, j_StartedAt = None, j_FinishedAt = None, j_CancelRequested = 0\<rparr>"

definition job_field :: "string \<Rightarrow> json \<Rightarrow> cliJob \<Rightarrow> cliJob option" where
  "job_field k v j =
     (if same_name k ''id'' then map_option (\<lambda>x. j\<lparr>j_ID := x\<rparr>) (decode_string (j_ID j) v)
      else if same_name k ''status'' then map_option (\<lambda>x. j\<lparr>j_Status := x\<rparr>) (decode_string (j_Status j) v)
      else if same_name k ''command'' then map_option (\<lambda>x. j\<lparr>j_Command := x\<rparr>) (decode_slice (decode_string []) v)
      else if same_name k ''hostname'' then map_option (\<lambda>x. j\<lparr>j_Hostname := x\<rparr>) (decode_string_ptr v)
      else if same_name k ''worker_id'' then map_option (\<lambda>x. j\<lparr>j_WorkerID := x\<rparr>) (decode_string_ptr v)
      else if same_name k ''output_path'' then map_option (\<lambda>x. j\<lparr>j_OutputPath := x\<rparr>) (decode_string_ptr v)
      else if same_name k ''exit_code'' then map_option (\<lambda>x. j\<lparr>j_ExitCode := x\<rparr>) (decode_int_ptr v)
      else if same_name k ''started_at'' then map_option (\<lambda>x. j\<lparr>j_StartedAt := x\<rparr>) (decode_string_ptr v)
      else if same_name k ''finished_at'' then map_option (\<lambda>x. j\<lparr>j_FinishedAt := x\<rparr>) (decode_string_ptr v)
      else if same_name k ''cancel_requested'' then map_option (\<lambda>x. j\<lparr>j_CancelRequested := x\<rparr>) (decode_int (j_CancelRequested j) v)
      else Some j)"

definition decode_job :: "json \<Rightarrow> cliJob option" where
  "decode_job = decode_struct job_field zero_job"

section \<open>Results of batches\<close>

record 'a cliBatch =
  b_succeeded :: "'a list"
  b_failed :: "(string \<times> string) list"

definition failure_field :: "string \<Rightarrow> json \<Rightarrow> string \<times> string \<Rightarrow> (string \<times> string) option" where
  "failure_field k v f =
     (if same_name k ''id'' then map_option (\<lambda>x. (x, snd f)) (decode_string (fst f) v)
      else if same_name k ''error'' then map_option (\<lambda>x. (fst f, x)) (decode_string (snd f) v)
      else Some f)"

definition batch_field :: "(json \<Rightarrow> 'a option) \<Rightarrow> string \<Rightarrow> json \<Rightarrow> 'a cliBatch \<Rightarrow> 'a cliBatch option" where
  "batch_field dec k v b =
     (if same_name k ''succeeded'' then map_option (\<lambda>x. b\<lparr>b_succeeded := x\<rparr>) (decode_slice dec v)
      else if same_name k ''failed'' then
        map_option (\<lambda>x. b\<lparr>b_failed := x\<rparr>) (decode_slice (decode_struct failure_field ([], [])) v)
      else Some b)"

definition decode_batch :: "(json \<Rightarrow> 'a option) \<Rightarrow> json \<Rightarrow> 'a cliBatch option" where
  "decode_batch dec = decode_struct (batch_field dec) \<lparr>b_succeeded = [], b_failed = []\<rparr>"

definition batch_err :: "string \<Rightarrow> 'a cliBatch \<Rightarrow> ('w, unit) cli" where
  "batch_err action b = (if b_failed b = [] then ret ()
     else fail (BatchFailures (action @ '': '' @ itoa_nat (length (b_succeeded b)) @ '' succeeded, '' @
       itoa_nat (length (b_failed b)) @ '' failed: '' @
       join (map (\<lambda>(jid, e). jid @ '': '' @ e) (b_failed b)) ''; '')))"

section \<open>Listing\<close>

text \<open>
  The loop of \<open>fetchJobs\<close> over a page function. It has no bound of its own: it ends at the first
  page of fewer than 100 jobs, or at an error.
\<close>

partial_function (option) fetch_loop ::
    "(nat \<Rightarrow> ('s, 'e, 'a list) op) \<Rightarrow> nat \<Rightarrow> 'a list \<Rightarrow> 's \<Rightarrow> (('e + 'a list) \<times> 's) option" where
  "fetch_loop page offset acc s = (case page offset s of
     (Inl e, s') \<Rightarrow> Some (Inl e, s')
   | (Inr xs, s') \<Rightarrow> if length xs < 100 then Some (Inr (acc @ xs), s')
       else fetch_loop page (offset + 100) (acc @ xs) s')"

declare fetch_loop.simps [code]

definition page_field :: "string \<Rightarrow> json \<Rightarrow> cliJob list \<Rightarrow> cliJob list option" where
  "page_field k v js = (if same_name k ''jobs'' then decode_slice decode_job v else Some js)"

definition fetch_page :: "'w http_net \<Rightarrow> cliClient \<Rightarrow> nat \<Rightarrow> ('w, cliJob list) cli" where
  "fetch_page net c offset = request_for net c ''GET'' (''/jobs?limit=100&offset='' @ itoa_nat offset) None
     (decode_struct page_field [])"

definition fetchJobs :: "'w http_net \<Rightarrow> cliClient \<Rightarrow> 'w world \<Rightarrow> ((cli_error + cliJob list) \<times> 'w world) option" where
  "fetchJobs net c = fetch_loop (fetch_page net c) 0 []"

section \<open>Facts on the loop\<close>

lemma fetch_loop_keeps:
  fixes page :: "nat \<Rightarrow> ('s, 'e, 'a list) op"
  assumes "fetch_loop page offset acc s = Some y"
  shows "(\<forall>offset. keeps P (page offset)) \<longrightarrow> P s \<longrightarrow> P (snd y)"
proof (rule fetch_loop.raw_induct [where P = "\<lambda>page offset acc s y. (\<forall>offset. keeps P (page offset)) \<longrightarrow> P s \<longrightarrow> P (snd y)",
      OF _ assms], intro impI)
  fix loop :: "(nat \<Rightarrow> ('s, 'e, 'a list) op) \<Rightarrow> nat \<Rightarrow> 'a list \<Rightarrow> 's \<Rightarrow> (('e + 'a list) \<times> 's) option"
  fix page :: "nat \<Rightarrow> ('s, 'e, 'a list) op" and offset acc s y
  assume IH: "\<And>page offset acc s y. loop page offset acc s = Some y \<Longrightarrow>
      (\<forall>offset. keeps P (page offset)) \<longrightarrow> P s \<longrightarrow> P (snd y)"
    and step: "(case page offset s of (Inl e, s') \<Rightarrow> Some (Inl e, s')
      | (Inr xs, s') \<Rightarrow> if length xs < 100 then Some (Inr (acc @ xs), s') else loop page (offset + 100) (acc @ xs) s') = Some y"
    and keeps: "\<forall>offset. keeps P (page offset)" "P s"
  obtain r s1 where page: "page offset s = (r, s1)" by (rule prod.exhaust)
  with keeps have "P s1" by (metis keepsD snd_conv)
  with step page IH keeps(1) show "P (snd y)"
    by (cases r) (auto split: if_splits)
qed

text \<open>
  A source of pages: while its state is settled, the page at an offset inside its content is the next 100 elements of
  its content, and asking for it changes neither. Reading pages until one is short then ends and
  gives the whole content.
\<close>

locale paged =
  fixes page :: "nat \<Rightarrow> ('s, 'e, 'a list) op" and content :: "'s \<Rightarrow> 'a list" and settled :: "'s \<Rightarrow> bool"
  assumes page_content: "settled s \<Longrightarrow> offset \<le> length (content s) \<Longrightarrow> fst (page offset s) = Inr (take 100 (drop offset (content s)))"
    and page_settled: "settled s \<Longrightarrow> offset \<le> length (content s) \<Longrightarrow> settled (snd (page offset s)) \<and> content (snd (page offset s)) = content s"
begin

lemma fetch_loop_content:
  "settled s \<Longrightarrow> offset \<le> length (content s) \<Longrightarrow> \<exists>s'. fetch_loop page offset acc s = Some (Inr (acc @ drop offset (content s)), s')
     \<and> settled s' \<and> content s' = content s"
proof (induction "length (content s) - offset" arbitrary: offset acc s rule: less_induct)
  case less
  let ?xs = "take 100 (drop offset (content s))"
  obtain s1 where page: "page offset s = (Inr ?xs, s1)" "settled s1" "content s1 = content s"
    using page_content [OF less.prems] page_settled [OF less.prems] by (metis prod.collapse)
  show ?case
  proof (cases "length ?xs < 100")
    case True
    then have "?xs = drop offset (content s)" by simp
    with True page show ?thesis by (subst fetch_loop.simps) auto
  next
    case False
    then have "length (content s1) - (offset + 100) < length (content s) - offset" "offset + 100 \<le> length (content s1)"
      using page(3) by auto
    from less.hyps [OF this(1) page(2) this(2), of "acc @ ?xs"] page False
    have "\<exists>s'. fetch_loop page (offset + 100) (acc @ ?xs) s1 = Some (Inr (acc @ ?xs @ drop (offset + 100) (content s)), s')
        \<and> settled s' \<and> content s' = content s" by simp
    moreover have "?xs @ drop (offset + 100) (content s) = drop offset (content s)"
      by (metis add.commute append_take_drop_id drop_drop)
    moreover have "fetch_loop page offset acc s = fetch_loop page (offset + 100) (acc @ ?xs) s1"
      using page False by (subst fetch_loop.simps) (simp del: length_take length_drop)
    ultimately show ?thesis by metis
  qed
qed

end

end
