(* ===== verification/Daemon.thy ===== *)
theory Daemon
  imports Config CliClient
begin

text \<open>
  Starting, restarting and stopping the detached worker, worker/daemon.go. The machine is an
  argument: its network by timeout, its clock, its processes and the lock of the state directory are
  functions of the state \<open>'w\<close> of everything outside. The trace lists what the command does to others
  in order. Waiting for a worker has no bound of its own in the code but the clock, so the loops are
  functions into an option, where \<open>None\<close> is not returning.
\<close>

section \<open>The machine\<close>

datatype daemon_error =
    NewRequestFailed string
  | ConnectFailed net_error
  | BodyReadFailed string
  | ReplyTooLong
  | BadStatus string string string string
  | BadReply
  | HealthCheckFailed daemon_error
  | HealthStatus string
  | SystemFailed string
  | ExitedDuringStartup "string option" string
  | StartupTimedOut string
  | StopRequestFailed daemon_error
  | DidNotStop
  | BadSettings cc_error
  | UnknownAction string

datatype event = Asked string string | Spawned "string list" | Signalled | LockTaken | LockClosed | Printed string

record 'w host =
  rest :: 'w
  trace :: "event list"

datatype dir_status = DirFound | DirMissing | StatFailed string

datatype flock = LockFree | LockBusy | FlockFailed string

text \<open>
  \<open>call_error\<close> is what \<open>MkdirAll\<close>, the \<open>OpenFile\<close> of the log, the \<open>OpenFile\<close> of the lock and the
  write to the output return (0 to 3); \<open>child_exit\<close> what a receive from \<open>done\<close> would give;
  \<open>show_seconds\<close> is \<open>fmt.Sprint\<close> of a duration's \<open>Seconds()\<close>.
\<close>

record 'w machine =
  net_for :: "int \<Rightarrow> 'w http_net"
  clock :: "'w \<Rightarrow> int"
  pause :: "int \<Rightarrow> 'w \<Rightarrow> 'w"
  call_error :: "nat \<Rightarrow> string option"
  self_path :: "string + string"
  spawn :: "string list \<Rightarrow> 'w \<Rightarrow> (string + unit) \<times> 'w"
  child_exit :: "'w \<Rightarrow> string option option"
  signal_child :: "'w \<Rightarrow> 'w"
  dir_found :: "'w \<Rightarrow> dir_status"
  flock :: "'w \<Rightarrow> flock \<times> 'w"
  close_lock :: "'w \<Rightarrow> 'w"
  show_seconds :: "int \<Rightarrow> string"

type_synonym ('w, 'a) lifecycle = "'w host \<Rightarrow> ((daemon_error + 'a) \<times> 'w host) option"

definition logged :: "event \<Rightarrow> 'w host \<Rightarrow> 'w host" where
  "logged e h = h\<lparr>trace := trace h @ [e]\<rparr>"

definition millisecond :: int where
  "millisecond = 1000000"

section \<open>Requests\<close>

definition check_daemon_reply :: "string \<Rightarrow> string \<Rightarrow> http_reply \<Rightarrow> daemon_error + json option" where
  "check_daemon_reply verb path reply = (case reply of
     NoReply e \<Rightarrow> Inl (ConnectFailed e)
   | HttpReply code reason (BodyBroken e) \<Rightarrow> Inl (BodyReadFailed e)
   | HttpReply code reason (BodyText data parsed) \<Rightarrow>
      if 4096 < length data then Inl ReplyTooLong
      else if code \<noteq> 200 then Inl (BadStatus verb path reason (trim_space data))
      else Inr parsed)"

definition daemonRequest :: "'w machine \<Rightarrow> string \<Rightarrow> string \<Rightarrow> string \<Rightarrow> int \<Rightarrow> ('w host, daemon_error, json option) op" where
  "daemonRequest m dir verb path timeout = (\<lambda>h.
     case refuses (net_for m timeout) verb (''http://local'' @ path) of
       Some e \<Rightarrow> (Inl (NewRequestFailed e), h)
     | None \<Rightarrow>
        (case exchange (net_for m timeout) \<lparr>h_method = verb, h_base = ''http://local'', h_path = path,
            h_dial = Some (Join [dir, ''local'', ''control.sock'']), h_authorization = None, h_body = None\<rparr> (rest h) of
           (reply, w) \<Rightarrow> (check_daemon_reply verb path reply, logged (Asked verb path) (h\<lparr>rest := w\<rparr>))))"

text \<open>A result to decode into; an absent or other kind of value is an error of \<open>json.Unmarshal\<close>.\<close>

definition status_field :: "string \<Rightarrow> json \<Rightarrow> string \<Rightarrow> string option" where
  "status_field k v s = (if same_name k ''status'' then decode_string s v else Some s)"

definition health_of :: "json option \<Rightarrow> daemon_error + string" where
  "health_of parsed = (case parsed of None \<Rightarrow> Inl BadReply
   | Some v \<Rightarrow> (case decode_struct status_field [] v of None \<Rightarrow> Inl BadReply | Some s \<Rightarrow> Inr s))"

text \<open>\<open>errors.Is(err, os.ErrNotExist) || errors.Is(err, syscall.ECONNREFUSED)\<close>.\<close>

definition no_worker :: "daemon_error \<Rightarrow> bool" where
  "no_worker e = (case e of ConnectFailed n \<Rightarrow>
     (case n of NotExist _ \<Rightarrow> True | Refused _ \<Rightarrow> True | OtherFailure _ \<Rightarrow> False) | _ \<Rightarrow> False)"

definition workerAvailable :: "'w machine \<Rightarrow> string \<Rightarrow> ('w host, daemon_error, bool) op" where
  "workerAvailable m dir = (\<lambda>h. case daemonRequest m dir ''GET'' ''/health'' (1000 * millisecond) h of (r, h') \<Rightarrow>
     (case (case r of Inl e \<Rightarrow> Inl e | Inr parsed \<Rightarrow> health_of parsed) of
        Inl e \<Rightarrow> if no_worker e then Inr False else Inl (HealthCheckFailed e)
      | Inr s \<Rightarrow> if s = ''ok'' then Inr True else Inl (HealthStatus s), h'))"

section \<open>Waiting\<close>

text \<open>
  The loops of \<open>startWorker\<close> and \<open>stopWorker\<close>: a step that fails, succeeds or says again; the error
  of having reached the deadline; a sleep.
\<close>

partial_function (option) poll ::
    "('s \<Rightarrow> ('e + bool) \<times> 's) \<Rightarrow> ('s \<Rightarrow> 'e option) \<Rightarrow> ('s \<Rightarrow> 's) \<Rightarrow> 's \<Rightarrow> (('e + unit) \<times> 's) option" where
  "poll step late sleep s = (case step s of
     (Inl e, s') \<Rightarrow> Some (Inl e, s')
   | (Inr ready, s') \<Rightarrow> if ready then Some (Inr (), s')
       else (case late s' of Some e \<Rightarrow> Some (Inl e, s') | None \<Rightarrow> poll step late sleep (sleep s')))"

declare poll.simps [code]

definition sleep_for :: "'w machine \<Rightarrow> int \<Rightarrow> 'w host \<Rightarrow> 'w host" where
  "sleep_for m d h = h\<lparr>rest := pause m d (rest h)\<rparr>"

section \<open>Starting\<close>

definition log_path :: "string \<Rightarrow> string" where
  "log_path dir = Join [dir, ''worker.log'']"

definition worker_args :: "'w machine \<Rightarrow> config \<Rightarrow> string list" where
  "worker_args m c = [''--state-dir'', StateDir c, ''--controller'', Controller c, ''--queue'', Queue c,
     ''--poll-interval'', show_seconds m (PollInterval c), ''--heartbeat-interval'', show_seconds m (HeartbeatInterval c)]"

text \<open>One round, with what has been received of the child's exit.\<close>

type_synonym 'w launch = "string option option \<times> 'w host"

definition startup_step :: "'w machine \<Rightarrow> string \<Rightarrow> 'w launch \<Rightarrow> (daemon_error + bool) \<times> 'w launch" where
  "startup_step m dir = (\<lambda>(exit, h).
     let exit' = (case exit of None \<Rightarrow> child_exit m (rest h) | Some _ \<Rightarrow> exit) in
     case workerAvailable m dir h of (r, h') \<Rightarrow> (r, (exit', h')))"

definition startup_late :: "'w machine \<Rightarrow> string \<Rightarrow> int \<Rightarrow> 'w launch \<Rightarrow> daemon_error option" where
  "startup_late m dir deadline = (\<lambda>(exit, h). if deadline < clock m (rest h)
     then Some (case exit of Some err \<Rightarrow> ExitedDuringStartup err (log_path dir) | None \<Rightarrow> StartupTimedOut (log_path dir))
     else None)"

definition await_worker :: "'w machine \<Rightarrow> string \<Rightarrow> ('w, unit) lifecycle" where
  "await_worker m dir h = map_option (\<lambda>(r, (_, h')). (r, h'))
     (poll (startup_step m dir) (startup_late m dir (clock m (rest h) + 10000 * millisecond))
       (\<lambda>(exit, h). (exit, sleep_for m (25 * millisecond) h)) (None, h))"

text \<open>The deferred signal reaches the child when no worker has become ready.\<close>

definition startWorker :: "'w machine \<Rightarrow> config \<Rightarrow> ('w, unit) lifecycle" where
  "startWorker m c h = (case call_error m 0 of
     Some e \<Rightarrow> Some (Inl (SystemFailed e), h)
   | None \<Rightarrow> (case self_path m of
      Inl e \<Rightarrow> Some (Inl (SystemFailed e), h)
    | Inr binary \<Rightarrow> (case call_error m 1 of
       Some e \<Rightarrow> Some (Inl (SystemFailed e), h)
     | None \<Rightarrow>
        (let argv = binary # worker_args m c in
         case spawn m argv (rest h) of
           (Inl e, w) \<Rightarrow> Some (Inl (SystemFailed e), h\<lparr>rest := w\<rparr>)
         | (Inr _, w) \<Rightarrow>
            (case await_worker m (StateDir c) (logged (Spawned argv) (h\<lparr>rest := w\<rparr>)) of
               None \<Rightarrow> None
             | Some (Inr _, h') \<Rightarrow> Some (Inr (), h')
             | Some (Inl e, h') \<Rightarrow> Some (Inl e, logged Signalled (h'\<lparr>rest := signal_child m (rest h')\<rparr>)))))))"

definition ensureWorker :: "'w machine \<Rightarrow> config \<Rightarrow> ('w, unit) lifecycle" where
  "ensureWorker m c h = (case workerAvailable m (StateDir c) h of
     (Inl e, h') \<Rightarrow> Some (Inl e, h')
   | (Inr ready, h') \<Rightarrow> if ready then Some (Inr (), h') else startWorker m c h')"

section \<open>Stopping\<close>

definition try_lock :: "'w machine \<Rightarrow> 'w host \<Rightarrow> (daemon_error + bool) \<times> 'w host" where
  "try_lock m h = (case flock m (rest h) of
     (LockFree, w) \<Rightarrow> (Inr True, logged LockTaken (h\<lparr>rest := w\<rparr>))
   | (LockBusy, w) \<Rightarrow> (Inr False, h\<lparr>rest := w\<rparr>)
   | (FlockFailed e, w) \<Rightarrow> (Inl (SystemFailed e), h\<lparr>rest := w\<rparr>))"

definition lock_late :: "'w machine \<Rightarrow> int \<Rightarrow> 'w host \<Rightarrow> daemon_error option" where
  "lock_late m deadline h = (if deadline < clock m (rest h) then Some DidNotStop else None)"

definition await_lock :: "'w machine \<Rightarrow> ('w, unit) lifecycle" where
  "await_lock m h = poll (try_lock m) (lock_late m (clock m (rest h) + 30000 * millisecond)) (sleep_for m (50 * millisecond)) h"

definition closing :: "'w machine \<Rightarrow> ((daemon_error + unit) \<times> 'w host) option \<Rightarrow> ((daemon_error + unit) \<times> 'w host) option" where
  "closing m = map_option (\<lambda>(r, h). (r, logged LockClosed (h\<lparr>rest := close_lock m (rest h)\<rparr>)))"

definition stopWorker :: "'w machine \<Rightarrow> string \<Rightarrow> ('w, unit) lifecycle" where
  "stopWorker m dir h = (case dir_found m (rest h) of
     DirMissing \<Rightarrow> Some (Inr (), h)
   | StatFailed e \<Rightarrow> Some (Inl (SystemFailed e), h)
   | DirFound \<Rightarrow>
      (case call_error m 2 of
         Some e \<Rightarrow> Some (Inl (SystemFailed e), h)
       | None \<Rightarrow> closing m
          (case try_lock m h of
             (Inl e, h1) \<Rightarrow> Some (Inl e, h1)
           | (Inr taken, h1) \<Rightarrow>
              if taken then Some (Inr (), h1)
              else (case daemonRequest m dir ''POST'' ''/daemon/stop'' (15000 * millisecond) h1 of
                (Inl e, h2) \<Rightarrow> Some (Inl (StopRequestFailed e), h2)
              | (Inr _, h2) \<Rightarrow> await_lock m h2))))"

section \<open>Actions\<close>

definition and_then :: "('w, unit) lifecycle \<Rightarrow> ('w, unit) lifecycle \<Rightarrow> ('w, unit) lifecycle" where
  "and_then a b h = (case a h of
     None \<Rightarrow> None | Some (Inl e, h') \<Rightarrow> Some (Inl e, h') | Some (Inr _, h') \<Rightarrow> b h')"

definition say :: "'w machine \<Rightarrow> string \<Rightarrow> ('w, unit) lifecycle" where
  "say m s h = Some (case call_error m 3 of Some e \<Rightarrow> (Inl (SystemFailed e), h) | None \<Rightarrow> (Inr (), logged (Printed s) h))"

text \<open>\<open>manageWorker\<close>; \<open>token\<close> is \<open>JOBD_WORKER_TOKEN\<close> and \<open>parsed\<close> what \<open>url.Parse\<close> makes of the address.\<close>

definition check_settings :: "string \<Rightarrow> url option \<Rightarrow> config \<Rightarrow> cc_error option" where
  "check_settings token parsed c = (if trim_space token = [] then None
     else case NewControllerClient (Controller c) parsed token [] (Queue c) of Inl e \<Rightarrow> Some e | Inr _ \<Rightarrow> None)"

definition manageDaemon :: "'w machine \<Rightarrow> string \<Rightarrow> url option \<Rightarrow> config \<Rightarrow> ('w, unit) lifecycle" where
  "manageDaemon m token parsed c =
     (if Action c = ''start'' then ensureWorker m c
      else if Action c = ''restart'' then
        (case check_settings token parsed c of
           Some e \<Rightarrow> (\<lambda>h. Some (Inl (BadSettings e), h))
         | None \<Rightarrow> and_then (stopWorker m (StateDir c)) (and_then (startWorker m c)
             (say m (line (''Started jobd-worker. Logs: '' @ log_path (StateDir c))))))
      else if Action c = ''stop'' then
        and_then (stopWorker m (StateDir c)) (say m (line ''Stopped jobd-worker.''))
      else (\<lambda>h. Some (Inl (UnknownAction (Action c)), h)))"

section \<open>Waiting ends\<close>

text \<open>Where a loop stops, with what its steps and sleeps keep.\<close>

definition poll_end :: "('s \<Rightarrow> bool) \<Rightarrow> ('s \<Rightarrow> ('e + bool) \<times> 's) \<Rightarrow> ('s \<Rightarrow> 'e option) \<Rightarrow> ('e + unit) \<times> 's \<Rightarrow> bool" where
  "poll_end I step late y \<longleftrightarrow> (\<exists>s0. I s0 \<and> (case fst y of
     Inr _ \<Rightarrow> step s0 = (Inr True, snd y)
   | Inl e \<Rightarrow> step s0 = (Inl e, snd y) \<or> step s0 = (Inr False, snd y) \<and> late (snd y) = Some e))"

lemma poll_result:
  fixes step :: "'s \<Rightarrow> ('e + bool) \<times> 's"
  assumes "poll step late sleep s = Some y"
  shows "(\<forall>s s'. I s \<longrightarrow> step s = (Inr False, s') \<longrightarrow> I s') \<longrightarrow> (\<forall>s. I s \<longrightarrow> I (sleep s)) \<longrightarrow> I s \<longrightarrow> poll_end I step late y"
proof (rule poll.raw_induct [where P = "\<lambda>step late sleep s y. (\<forall>s s'. I s \<longrightarrow> step s = (Inr False, s') \<longrightarrow> I s') \<longrightarrow> (\<forall>s. I s \<longrightarrow> I (sleep s)) \<longrightarrow> I s \<longrightarrow> poll_end I step late y",
      OF _ assms], intro impI)
  fix loop :: "('s \<Rightarrow> ('e + bool) \<times> 's) \<Rightarrow> ('s \<Rightarrow> 'e option) \<Rightarrow> ('s \<Rightarrow> 's) \<Rightarrow> 's \<Rightarrow> (('e + unit) \<times> 's) option"
  fix step :: "'s \<Rightarrow> ('e + bool) \<times> 's" and late sleep s y
  assume IH: "\<And>step late sleep s y. loop step late sleep s = Some y \<Longrightarrow>
      (\<forall>s s'. I s \<longrightarrow> step s = (Inr False, s') \<longrightarrow> I s') \<longrightarrow> (\<forall>s. I s \<longrightarrow> I (sleep s)) \<longrightarrow> I s \<longrightarrow> poll_end I step late y"
    and eq: "(case step s of (Inl e, s') \<Rightarrow> Some (Inl e, s')
      | (Inr ready, s') \<Rightarrow> if ready then Some (Inr (), s')
          else (case late s' of None \<Rightarrow> loop step late sleep (sleep s') | Some e \<Rightarrow> Some (Inl e, s'))) = Some y"
    and keeps: "\<forall>s s'. I s \<longrightarrow> step s = (Inr False, s') \<longrightarrow> I s'" "\<forall>s. I s \<longrightarrow> I (sleep s)" and I: "I s"
  obtain q t where st: "step s = (q, t)" by (rule prod.exhaust)
  show "poll_end I step late y"
  proof (cases "q = Inr False \<and> late t = None")
    case True
    with st keeps I have "I (sleep t)" "loop step late sleep (sleep t) = Some y" using eq st by simp_all
    then show ?thesis using IH keeps by blast
  next
    case False
    with eq I st show ?thesis
      by (auto simp: poll_end_def split: sum.splits if_splits option.splits)
  qed
qed

lemma poll_last_step:
  "poll_end I step late (r, s') \<Longrightarrow> \<exists>s0 q. I s0 \<and> step s0 = (q, s') \<and> (r = Inr () \<longleftrightarrow> q = Inr True)"
  by (cases r) (force simp: poll_end_def)+

text \<open>A loop whose sleeps bring the deadline nearer returns.\<close>

lemma poll_returns:
  fixes rank :: "'s \<Rightarrow> nat"
  assumes "\<And>s s'. step s = (Inr False, s') \<Longrightarrow> late s' = None \<Longrightarrow> rank (sleep s') < rank s"
  shows "\<exists>r s'. poll step late sleep s = Some (r, s')"
proof (induction "rank s" arbitrary: s rule: less_induct)
  case less
  obtain q t where st: "step s = (q, t)" by (rule prod.exhaust)
  show ?case
  proof (cases "q = Inr False \<and> late t = None")
    case True
    then show ?thesis using less [OF assms [of s t]] st by (subst poll.simps) simp
  next
    case False
    then show ?thesis using st by (subst poll.simps) (auto split: sum.split option.split)
  qed
qed

text \<open>The clock of a real machine: sleeping takes the time it is asked to, and nothing turns it back.\<close>

definition steady :: "'w machine \<Rightarrow> bool" where
  "steady m \<longleftrightarrow> (\<forall>d w. clock m w + d \<le> clock m (pause m d w)) \<and>
     (\<forall>t h w. clock m w \<le> clock m (snd (exchange (net_for m t) h w))) \<and> (\<forall>w. clock m w \<le> clock m (snd (flock m w)))"

lemma workerAvailable_clock: "steady m \<Longrightarrow> clock m (rest h) \<le> clock m (rest (snd (workerAvailable m dir h)))"
  by (auto simp: steady_def workerAvailable_def daemonRequest_def logged_def split: prod.split option.split)
    (metis snd_conv)

lemma await_worker_returns:
  assumes "steady m"
  shows "\<exists>r h'. await_worker m dir h = Some (r, h')"
proof -
  define late where "late = clock m (rest h) + 10000 * millisecond"
  have "\<exists>r s'. poll (startup_step m dir) (startup_late m dir late) (\<lambda>(exit, h). (exit, sleep_for m (25 * millisecond) h)) (None, h) = Some (r, s')"
  proof (rule poll_returns [where rank = "\<lambda>l. nat (late + 1 - clock m (rest (snd l)))"])
    fix l l'
    assume s: "startup_step m dir l = (Inr False, l')" and d: "startup_late m dir late l' = None"
    obtain exit h exit' h' where l: "l = (exit, h)" "l' = (exit', h')" by (metis prod.exhaust)
    have "clock m (rest h) \<le> clock m (rest h')"
      using workerAvailable_clock [OF assms, of h dir] s by (auto simp: l startup_step_def Let_def split: prod.splits)
    moreover have "clock m (rest h') \<le> late" using d by (simp add: l startup_late_def split: if_splits)
    moreover have "clock m (rest h') + 25 * millisecond \<le> clock m (rest (sleep_for m (25 * millisecond) h'))"
      using assms by (simp add: steady_def sleep_for_def)
    ultimately show "nat (late + 1 - clock m (rest (snd (case l' of (exit, h) \<Rightarrow> (exit, sleep_for m (25 * millisecond) h)))))
        < nat (late + 1 - clock m (rest (snd l)))"
      by (simp add: l millisecond_def)
  qed
  then show ?thesis by (auto simp: await_worker_def late_def)
qed

lemma await_lock_returns:
  assumes "steady m"
  shows "\<exists>r h'. await_lock m h = Some (r, h')"
proof -
  define late where "late = clock m (rest h) + 30000 * millisecond"
  have "\<exists>r s'. poll (try_lock m) (lock_late m late) (sleep_for m (50 * millisecond)) h = Some (r, s')"
  proof (rule poll_returns [where rank = "\<lambda>h. nat (late + 1 - clock m (rest h))"])
    fix g h'
    assume s: "try_lock m g = (Inr False, h')" and l: "lock_late m late h' = None"
    have "clock m (rest g) \<le> clock m (rest h')"
      using assms s unfolding steady_def by (auto simp: try_lock_def split: prod.splits flock.splits) (metis snd_conv)
    moreover have "clock m (rest h') + 50 * millisecond \<le> clock m (rest (sleep_for m (50 * millisecond) h'))"
      using assms by (simp add: steady_def sleep_for_def)
    ultimately show "nat (late + 1 - clock m (rest (sleep_for m (50 * millisecond) h'))) < nat (late + 1 - clock m (rest g))"
      using l by (simp add: millisecond_def lock_late_def split: if_splits)
  qed
  then show ?thesis by (simp add: await_lock_def late_def)
qed

section \<open>What is done to others, and when\<close>

abbreviation health_check :: event where
  "health_check \<equiv> Asked ''GET'' ''/health''"

abbreviation stop_request :: event where
  "stop_request \<equiv> Asked ''POST'' ''/daemon/stop''"

text \<open>The events between two states are among a set.\<close>

definition only :: "event set \<Rightarrow> 'w host \<Rightarrow> 'w host \<Rightarrow> bool" where
  "only E h h' \<longleftrightarrow> (\<exists>evs. trace h' = trace h @ evs \<and> set evs \<subseteq> E)"

lemma only_refl [simp]: "trace h' = trace h \<Longrightarrow> only E h h'"
  by (simp add: only_def)

lemma only_trans: "only E h h' \<Longrightarrow> only E h' h'' \<Longrightarrow> only E h h''"
  by (fastforce simp: only_def)

lemma only_logged: "only E h h' \<Longrightarrow> e \<in> E \<Longrightarrow> trace h'' = trace h' @ [e] \<Longrightarrow> only E h h''"
  by (fastforce simp: only_def)

lemma daemonRequest_events: "daemonRequest m dir verb path t h = (r, h') \<Longrightarrow>
    trace h' = trace h \<and> (\<exists>e. r = Inl e) \<or> trace h' = trace h @ [Asked verb path]"
  by (auto simp: daemonRequest_def logged_def split: option.splits prod.splits)

lemma workerAvailable_events: "workerAvailable m dir h = (r, h') \<Longrightarrow>
    trace h' = trace h \<and> r \<noteq> Inr True \<or> trace h' = trace h @ [health_check]"
  by (auto simp: workerAvailable_def no_worker_def split: prod.splits sum.splits if_splits dest: daemonRequest_events)

lemma workerAvailable_only: "only {health_check} h (snd (workerAvailable m dir h))"
  using workerAvailable_events [of m dir h "fst (workerAvailable m dir h)" "snd (workerAvailable m dir h)"]
  by (auto simp: only_def)

lemma await_worker_events:
  assumes "await_worker m dir h = Some (r, h')"
  shows "only {health_check} h h' \<and> (r = Inr () \<longrightarrow>
    (\<exists>h0. only {health_check} h h0 \<and> workerAvailable m dir h0 = (Inr True, h')))"
proof -
  let ?I = "\<lambda>l. only {health_check} h (snd l)"
  have step: "?I l'" if "?I l" "startup_step m dir l = (q, l')" for l q l'
    using only_trans [OF that(1) workerAvailable_only, of m dir] that(2)
    by (cases l) (auto simp: startup_step_def Let_def split: prod.splits)
  have sleep: "?I (case l of (exit, h) \<Rightarrow> (exit, sleep_for m d h))" if "?I l" for d and l :: "string option option \<times> 'a host"
    using that by (cases l) (auto simp: sleep_for_def only_def)
  from assms obtain exit where p: "poll (startup_step m dir) (startup_late m dir (clock m (rest h) + 10000 * millisecond))
       (\<lambda>(exit, h). (exit, sleep_for m (25 * millisecond) h)) (None, h) = Some (r, (exit, h'))"
    by (auto simp: await_worker_def)
  have "poll_end ?I (startup_step m dir) (startup_late m dir (clock m (rest h) + 10000 * millisecond)) (r, (exit, h'))"
    using poll_result [OF p, of ?I] step sleep by fastforce
  from poll_last_step [OF this] obtain l q where l: "?I l" "startup_step m dir l = (q, (exit, h'))" "r = Inr () \<longleftrightarrow> q = Inr True"
    by blast
  have "workerAvailable m dir (snd l) = (q, h')"
    using l(2) by (cases l) (auto simp: startup_step_def Let_def split: prod.splits)
  with l step [OF l(1,2)] show ?thesis by auto
qed

lemma await_lock_events:
  assumes "await_lock m h = Some (r, h')"
  shows "trace h' = trace h \<and> r \<noteq> Inr () \<or> trace h' = trace h @ [LockTaken] \<and> r = Inr ()"
proof -
  have step: "if q = Inr True then trace g' = trace g @ [LockTaken] else trace g' = trace g" if "try_lock m g = (q, g')" for g q g'
    using that by (auto simp: try_lock_def logged_def split: prod.splits flock.splits)
  let ?I = "\<lambda>g. trace g = trace h"
  have "poll_end ?I (try_lock m) (lock_late m (clock m (rest h) + 30000 * millisecond)) (r, h')"
    using poll_result [OF assms [unfolded await_lock_def], of ?I] step by (fastforce simp: sleep_for_def)
  from poll_last_step [OF this] obtain g q where "trace g = trace h" "try_lock m g = (q, h')" "r = Inr () \<longleftrightarrow> q = Inr True"
    by blast
  with step [of g q h'] show ?thesis by (auto split: if_splits)
qed

text \<open>The events of starting: the child, health checks, and the signal when there was no healthy worker.\<close>

lemma startWorker_events:
  assumes "startWorker m c h = Some (r, h')"
  shows "(r \<noteq> Inr () \<and> trace h' = trace h) \<or> (\<exists>argv evs. trace h' = trace h @ Spawned argv # evs \<and>
    (case r of Inr _ \<Rightarrow> set evs \<subseteq> {health_check} \<and> (\<exists>h0. workerAvailable m (StateDir c) h0 = (Inr True, h'))
     | Inl _ \<Rightarrow> \<exists>evs'. evs = evs' @ [Signalled] \<and> set evs' \<subseteq> {health_check}))"
proof (cases "trace h' = trace h \<and> r \<noteq> Inr ()")
  case False
  then obtain argv w s h1 where s: "await_worker m (StateDir c) (logged (Spawned argv) (h\<lparr>rest := w\<rparr>)) = Some (s, h1)"
      and end_: "case s of Inr _ \<Rightarrow> r = Inr () \<and> h' = h1 | Inl e \<Rightarrow> r = Inl e \<and> trace h' = trace h1 @ [Signalled]"
    using assms by (auto simp: startWorker_def logged_def Let_def split: option.splits sum.splits prod.splits)
  from await_worker_events [OF s] obtain evs where "trace h1 = trace h @ Spawned argv # evs" "set evs \<subseteq> {health_check}"
      "s = Inr () \<longrightarrow> (\<exists>h0. workerAvailable m (StateDir c) h0 = (Inr True, h1))"
    by (auto simp: only_def logged_def)
  with end_ show ?thesis by (cases s) auto
qed blast

lemma try_lock_events: "try_lock m h = (q, h') \<Longrightarrow> trace h' = (if q = Inr True then trace h @ [LockTaken] else trace h)"
  by (auto simp: try_lock_def logged_def split: prod.splits flock.splits)

text \<open>The events of stopping; a success has seen the lock free, or no state directory.\<close>

definition stopped_by :: "'w machine \<Rightarrow> 'w host \<Rightarrow> event list \<Rightarrow> bool" where
  "stopped_by m h evs \<longleftrightarrow> evs = [] \<and> dir_found m (rest h) = DirMissing \<or>
     (\<exists>p. evs = p @ [LockTaken, LockClosed] \<and> set p \<subseteq> {stop_request})"

lemma stopWorker_events:
  assumes "stopWorker m dir h = Some (r, h')"
  obtains evs where "trace h' = trace h @ evs" "set evs \<subseteq> {stop_request, LockTaken, LockClosed}"
    "r = Inr () \<Longrightarrow> stopped_by m h evs"
proof (cases "dir_found m (rest h) = DirFound \<and> call_error m 2 = None")
  case False
  then have "trace h' = trace h @ []" "r = Inr () \<Longrightarrow> stopped_by m h []"
    using assms by (auto simp: stopWorker_def stopped_by_def split: dir_status.splits option.splits)
  with that [of "[]"] show ?thesis by simp
next
  case True
  obtain q h1 where q: "try_lock m h = (q, h1)" by (rule prod.exhaust)
  obtain d h2 where d: "daemonRequest m dir ''POST'' ''/daemon/stop'' (15000 * millisecond) h1 = (d, h2)" by (rule prod.exhaust)
  have t1: "trace h1 = (if q = Inr True then trace h @ [LockTaken] else trace h)" by (rule try_lock_events [OF q])
  show ?thesis
  proof (cases "q = Inr True")
    case True
    then have "r = Inr ()" "trace h' = trace h @ [LockTaken, LockClosed]"
      using assms q t1 \<open>dir_found m (rest h) = DirFound \<and> call_error m 2 = None\<close> by (auto simp: stopWorker_def closing_def logged_def)
    with that [of "[LockTaken, LockClosed]"] show ?thesis by (simp add: stopped_by_def)
  next
    case waiting: False
    show ?thesis
    proof (cases "q = Inr False \<and> (\<exists>x. d = Inr x)")
      case False
      then obtain e where "r = Inl e" "trace h' = (if q = Inr False then trace h2 else trace h1) @ [LockClosed]"
        using assms q d True waiting by (cases q; cases d) (auto simp: stopWorker_def closing_def logged_def)
      with daemonRequest_events [OF d] t1 waiting that [of "[LockClosed]"] that [of "[stop_request, LockClosed]"]
      show ?thesis by (auto split: if_splits)
    next
      case asked: True
      then obtain h3 where l: "await_lock m h2 = Some (r, h3)" "trace h' = trace h3 @ [LockClosed]"
        using assms q d True by (auto simp: stopWorker_def closing_def logged_def)
      have "trace h2 = trace h @ [stop_request]" using daemonRequest_events [OF d] t1 asked by auto
      with await_lock_events [OF l(1)] l(2) that [of "[stop_request, LockClosed]"] that [of "[stop_request, LockTaken, LockClosed]"]
      show ?thesis by (auto simp: stopped_by_def)
    qed
  qed
qed

section \<open>The actions\<close>

lemma startWorker_returns: "steady m \<Longrightarrow> \<exists>r h'. startWorker m c h = Some (r, h')"
proof -
  assume "steady m"
  then obtain w q where "await_worker m (StateDir c) g = Some (q g, w g)" for g
    using await_worker_returns [of m "StateDir c"] by metis
  then show ?thesis by (auto simp: startWorker_def Let_def split: option.split sum.split prod.split)
qed

lemma stopWorker_returns: "steady m \<Longrightarrow> \<exists>r h'. stopWorker m dir h = Some (r, h')"
proof -
  assume "steady m"
  then obtain w q where "await_lock m g = Some (q g, w g)" for g
    using await_lock_returns [of m] by metis
  then show ?thesis by (auto simp: stopWorker_def closing_def split: dir_status.split option.split sum.split prod.split)
qed

lemma and_then_returns:
  "\<exists>r h'. a h = Some (r, h') \<Longrightarrow> (\<And>h. \<exists>r h'. b h = Some (r, h')) \<Longrightarrow> \<exists>r h'. and_then a b h = Some (r, h')"
  by (auto simp: and_then_def split: sum.split)

lemma say_events: "say m s h = Some (r, h') \<Longrightarrow> r = Inr () \<and> trace h' = trace h @ [Printed s] \<or> r \<noteq> Inr () \<and> trace h' = trace h"
  by (auto simp: say_def logged_def split: option.splits)

text \<open>C27. Every action of the worker's command line returns on a machine whose clock runs: the waiting
  for a started worker ends at its deadline of ten seconds at the latest, the waiting for the lock at
  its deadline of thirty.\<close>

theorem daemon_actions_return:
  assumes "steady m"
  shows "\<exists>r h'. manageDaemon m token parsed c h = Some (r, h')"
proof -
  have say: "\<exists>r h'. say m s h = Some (r, h')" for s h by (auto simp: say_def split: option.split)
  have "\<exists>r h'. ensureWorker m c h = Some (r, h')"
    using startWorker_returns [OF assms, of c] by (auto simp: ensureWorker_def split: prod.split sum.split)
  moreover have "\<exists>r h'. and_then (stopWorker m (StateDir c)) k h = Some (r, h')" if "\<And>h. \<exists>r h'. k h = Some (r, h')" for k
    using stopWorker_returns [OF assms] that by (rule and_then_returns)
  moreover have "\<exists>r h'. and_then (startWorker m c) (say m s) g = Some (r, h')" for s g
    using startWorker_returns [OF assms] say by (rule and_then_returns)
  ultimately show ?thesis using say by (auto simp: manageDaemon_def split: option.split)
qed

lemma started_once:
  assumes none: "\<forall>x. Spawned x \<notin> set us \<union> set vs" and eq: "us @ Spawned a # vs = pre @ Spawned b # later"
  shows "pre = us \<and> b = a \<and> later = vs"
proof -
  from eq obtain zs where "us = pre @ zs \<and> zs @ Spawned a # vs = Spawned b # later \<or> us @ zs = pre \<and> Spawned a # vs = zs @ Spawned b # later"
    by (auto simp: append_eq_append_conv2)
  moreover have "Spawned a \<notin> set us" "Spawned b \<notin> set us" "Spawned b \<notin> set vs" using none by auto
  ultimately show ?thesis by (cases zs) auto
qed

text \<open>A successful start is a child and one or more health checks.\<close>

lemma startWorker_success:
  assumes "startWorker m c h = Some (Inr (), h')"
  obtains argv checks where "trace h' = trace h @ Spawned argv # checks" "set checks = {health_check}"
proof -
  have "\<exists>argv evs. trace h' = trace h @ Spawned argv # evs \<and> set evs \<subseteq> {health_check} \<and> (\<exists>h0. workerAvailable m (StateDir c) h0 = (Inr True, h'))"
    using startWorker_events [OF assms] by simp
  then obtain argv evs h0 where evs: "trace h' = trace h @ Spawned argv # evs" "set evs \<subseteq> {health_check}"
      and last: "workerAvailable m (StateDir c) h0 = (Inr True, h')" by blast
  have "last (trace h') = health_check" using workerAvailable_events [OF last] by auto
  with evs have "evs \<noteq> []" by auto
  with evs have "set evs = {health_check}" by (cases evs) auto
  with evs(1) that show ?thesis by blast
qed

text \<open>A start and its message: nothing is started, or one child with health checks after it.\<close>

lemma start_then_say:
  assumes "and_then (startWorker m c) (say m msg) h = Some (r, h')"
  obtains "trace h' = trace h" "r \<noteq> Inr ()"
  | argv tail where "trace h' = trace h @ Spawned argv # tail" "\<forall>x. Spawned x \<notin> set tail"
      "r = Inr () \<Longrightarrow> \<exists>checks. tail = checks @ [Printed msg] \<and> set checks = {health_check}"
proof -
  obtain s h2 where start: "startWorker m c h = Some (s, h2)" using assms by (auto simp: and_then_def split: option.splits)
  show ?thesis
  proof (cases s)
    case (Inl e)
    then have r: "r \<noteq> Inr ()" "h' = h2" using assms start by (auto simp: and_then_def)
    from startWorker_events [OF start] Inl consider "trace h2 = trace h"
      | argv evs where "trace h2 = trace h @ Spawned argv # evs @ [Signalled]" "set evs \<subseteq> {health_check}"
      by auto
    then show ?thesis
    proof cases
      case (2 argv evs)
      with r that(2) [of argv "evs @ [Signalled]"] show ?thesis by auto
    qed (use r that(1) in simp)
  next
    case (Inr u)
    then obtain argv checks where checks: "trace h2 = trace h @ Spawned argv # checks" "set checks = {health_check}"
      using startWorker_success [of m c h h2] start by auto
    have "say m msg h2 = Some (r, h')" using assms start Inr by (auto simp: and_then_def)
    from say_events [OF this] checks that(2) [of argv "checks @ [Printed msg]"] that(2) [of argv checks]
    show ?thesis by auto
  qed
qed


section \<open>A machine\<close>

text \<open>A clock, an older worker and a new one; the older one holds the lock until it is told to stop.\<close>

definition example_net :: "(int \<times> bool \<times> bool) http_net" where
  "example_net = \<lparr>refuses = (\<lambda>_ _. None), exchange = (\<lambda>r (t, old, new).
     if h_path r = ''/daemon/stop'' then (HttpReply 200 ''200 OK'' (BodyText ''{}'' (Some (JObject []))), (t, False, new))
     else if old \<or> new then (HttpReply 200 ''200 OK'' (BodyText ''{}'' (Some (JObject [(''status'', JString ''ok'')]))), (t, old, new))
     else (NoReply (Refused ''refused''), (t, old, new)))\<rparr>"

definition example_machine :: "(int \<times> bool \<times> bool) machine" where
  "example_machine = \<lparr>net_for = (\<lambda>_. example_net), clock = fst, pause = (\<lambda>d (t, old, new). (t + d, old, new)),
     call_error = (\<lambda>_. None), self_path = Inr ''/b/jobd-worker'', spawn = (\<lambda>_ (t, old, new). (Inr (), (t, old, True))),
     child_exit = (\<lambda>_. None), signal_child = (\<lambda>(t, old, new). (t, old, False)), dir_found = (\<lambda>_. DirFound),
     flock = (\<lambda>(t, old, new). (if old then LockBusy else LockFree, (t, old, new))), close_lock = (\<lambda>w. w),
     show_seconds = (\<lambda>_. ''5'')\<rparr>"

definition restart_config :: config where
  "restart_config = \<lparr>Action = ''restart'', Controller = ''http://c'', Queue = ''q'', StateDir = ''/d'', LocalPersist = False,
     PollInterval = 5000000000, HeartbeatInterval = 5000000000\<rparr>"

definition restarted_trace :: "event list" where
  "restarted_trace = [stop_request, LockTaken, LockClosed,
     Spawned (''/b/jobd-worker'' # worker_args example_machine restart_config), health_check,
     Printed (line (''Started jobd-worker. Logs: '' @ log_path ''/d''))]"

lemma example_restart:
  "manageDaemon example_machine [] None restart_config \<lparr>rest = (0, True, False), trace = []\<rparr> =
     Some (Inr (), \<lparr>rest = (0, False, True), trace = restarted_trace\<rparr>)"
  unfolding restarted_trace_def by code_simp

lemma example_steady: "steady example_machine"
  by (auto simp: steady_def example_machine_def example_net_def)

theorem daemon_actions_return_witness:
  "\<exists>r h'. manageDaemon example_machine [] None restart_config \<lparr>rest = (0, False, False), trace = []\<rparr> = Some (r, h')"
  by (rule daemon_actions_return [OF example_steady])


end
