(* ===== verification/CliJobs.thy ===== *)
theory CliJobs
  imports CliClient
begin

text \<open>
  The actions of the command line on jobs and workers: cli/jobs.go, \<open>listCombined\<close> and
  \<open>printJobs\<close> of cli/list.go, cli/worker.go, \<open>listWorkers\<close> of cli/worker_list.go. A listing may
  need any number of pages, so an action is a function into an option of a result, where \<open>None\<close>
  is not returning.
\<close>

section \<open>The system\<close>

text \<open>
  What a command reads of the machine it runs on: the environment (as \<open>os.Environ\<close> lists it and
  as \<open>os.LookupEnv\<close> reads it), the paths of the program itself and of the worker's binary, how a
  process ends and what it writes, the clock and the tables of the library.
\<close>

record process =
  p_error :: "string option"
  p_out :: "string list"
  p_diag :: "string list"

record 'w system =
  sys_net :: "'w http_net"
  sys_environ :: "string list"
  sys_env :: environ
  sys_self :: "string + string"
  sys_executable :: "string \<Rightarrow> bool"
  sys_lookpath :: "string + string"
  sys_run :: "string list \<Rightarrow> string list \<Rightarrow> 'w \<Rightarrow> process \<times> 'w"
  sys_url :: "string \<Rightarrow> url option"
  sys_time :: "string \<Rightarrow> int option"
  sys_printable :: "rune \<Rightarrow> bool"
  sys_now :: int

type_synonym 'w act = "'w world \<Rightarrow> ((cli_error + unit) \<times> 'w world) option"

definition total :: "('w, unit) cli \<Rightarrow> 'w act" where
  "total m = (\<lambda>w. Some (m w))"

definition then_do :: "('w world \<Rightarrow> ((cli_error + 'a) \<times> 'w world) option) \<Rightarrow> ('a \<Rightarrow> 'w act) \<Rightarrow> 'w act" where
  "then_do m k = (\<lambda>w. case m w of None \<Rightarrow> None
     | Some (Inl e, w') \<Rightarrow> Some (Inl e, w') | Some (Inr x, w') \<Rightarrow> k x w')"

text \<open>The text of an error, where a command prints it as a warning.\<close>

fun net_text :: "net_error \<Rightarrow> string" where
  "net_text (NotExist e) = e"
| "net_text (Refused e) = e"
| "net_text (OtherFailure e) = e"

fun error_message :: "cli_error \<Rightarrow> string" where
  "error_message BadController = ''controller must be an HTTP(S) URL without a query or fragment''"
| "error_message InvalidQueueName = ''invalid queue name''"
| "error_message NoStateDirectory = ''state directory must not be empty''"
| "error_message NoHomeDirectory = ''$HOME is not defined''"
| "error_message (NewRequestError e) = e"
| "error_message KeyRequired = ''JOBD_MASTER_KEY or JOBD_WORKER_TOKEN is required''"
| "error_message (TransportFailed verb path e unknown) = verb @ '' '' @ path @ '': '' @ net_text e @
     (if unknown then '' (mutation outcome may be unknown; inspect the queue before retrying)'' else [])"
| "error_message (ReadFailed e) = e"
| "error_message (ResponseExceeds n) = ''response exceeds '' @ itoa_nat n @ '' MiB''"
| "error_message (StatusOnly verb path code) = verb @ '' '' @ path @ '': HTTP '' @ itoa code"
| "error_message (StatusWithBody verb path reason text) = verb @ '' '' @ path @ '': '' @ reason @ '': '' @ text"
| "error_message ReplyNotJSON = ''invalid JSON''"
| "error_message WriteFailed = ''write error''"
| "error_message (BatchFailures text) = text"
| "error_message (Usage text) = text"
| "error_message (NoOutputFile jid) = ''job '' @ jid @ '' has no reported output file yet''"
| "error_message NotConfirmed = ''removal cancelled; confirmation did not match''"
| "error_message (CannotList r l) = ''cannot list jobs: remote queue: '' @ error_message r @
     line '''' @ ''local queue: '' @ error_message l"
| "error_message (MasterKeyRequired what) = ''JOBD_MASTER_KEY is required to '' @ what"
| "error_message (BinaryError e) = e"
| "error_message (WorkerFailed action e) = ''jobd-worker '' @ action @ '': '' @ e"
| "error_message (EnvRefused text) = text"
| "error_message (SetFailed name e) = ''set '' @ name @
     '' failed (earlier assignments may already be saved): '' @ error_message e"

section \<open>The local worker\<close>

definition workerBinary :: "'w system \<Rightarrow> cli_error + string" where
  "workerBinary sys = (case sys_self sys of
     Inl e \<Rightarrow> Inl (BinaryError e)
   | Inr self \<Rightarrow>
      (let candidate = Join [Dir self, ''jobd-worker''] in
       if sys_executable sys candidate then Inr candidate
       else case sys_lookpath sys of
         Inl e \<Rightarrow> Inl (BinaryError (''jobd-worker not found beside jobd or in PATH; install both binaries: '' @ e))
       | Inr binary \<Rightarrow> Inr binary))"

definition worker_environ :: "string list \<Rightarrow> string list" where
  "worker_environ entries = filter (\<lambda>e. \<not> has_prefix e ''JOBD_MASTER_KEY='') entries"

text \<open>\<open>manageWorker\<close>; with \<open>quiet\<close> the output goes to \<open>io.Discard\<close>.\<close>

definition manageWorker :: "'w system \<Rightarrow> bool \<Rightarrow> string \<Rightarrow> string \<Rightarrow> string \<Rightarrow> ('w, unit) cli" where
  "manageWorker sys quiet action address queue = (case workerBinary sys of
     Inl e \<Rightarrow> fail e
   | Inr binary \<Rightarrow> (\<lambda>w.
      case sys_run sys [binary, action, ''--controller'', address, ''--queue'', queue]
          (worker_environ (sys_environ sys)) (net_state w) of (p, n) \<Rightarrow>
        (case p_error p of None \<Rightarrow> Inr () | Some e \<Rightarrow> Inl (WorkerFailed action e),
         w\<lparr>net_state := n, stdout := stdout w @ (if quiet then [] else p_out p),
           diagnostic := diagnostic w @ p_diag p\<rparr>)))"

section \<open>Actions on one queue\<close>

definition printJobs :: "'w system \<Rightarrow> cliJob list list \<Rightarrow> ('w, unit) cli" where
  "printJobs sys listings = print_out (job_table (sys_time sys) (sys_printable sys) (sys_now sys) listings)"

definition job_actions :: "string list" where
  "job_actions = [''-l'', ''-C'', ''-retry'', ''-u'', ''-r'', ''-o'', ''-k'', ''-U'']"

text \<open>The checks of the first switch of \<open>runJobs\<close>.\<close>

definition job_usage :: "string \<Rightarrow> string list \<Rightarrow> cli_error option" where
  "job_usage action args =
     (if action \<in> {''-l'', ''-C''} \<and> args \<noteq> [] then Some (Usage (action @ '' takes no arguments''))
      else if action \<in> {''-o'', ''-k''} \<and> 1 < length args then Some (Usage (action @ '' takes at most one job ID''))
      else if action = ''-U'' \<and> length args \<noteq> 2 then Some (Usage ''use -U ID1 ID2'')
      else None)"

definition submit_command :: "string \<Rightarrow> string list \<Rightarrow> cli_error + string list" where
  "submit_command action args =
     (if action \<noteq> ''--'' \<and> has_prefix action ''-'' then Inl (Usage (''unknown action '' @ action @ ''; use -h for help''))
      else let argv = (if action = ''--'' then args else action # args) in
        if argv = [] \<or> trim_space (hd argv) = [] then Inl (Usage ''command must not be empty'') else Inr argv)"

definition submit_action :: "'w system \<Rightarrow> cliClient \<Rightarrow> string list \<Rightarrow> ('w, unit) cli" where
  "submit_action sys c argv =
     bnd (request_for (sys_net sys) c ''POST'' ''/jobs'' (Some (list_body ''command'' argv)) decode_job)
       (\<lambda>j. print_out (line (j_ID j)))"

definition count_field :: "string \<Rightarrow> string \<Rightarrow> json \<Rightarrow> int \<Rightarrow> int option" where
  "count_field name k v n = (if same_name k name then decode_int n v else Some n)"

definition batch_request :: "'w system \<Rightarrow> cliClient \<Rightarrow> string \<Rightarrow> string list \<Rightarrow> (string \<Rightarrow> string) \<Rightarrow> ('w, unit) cli" where
  "batch_request sys c action names report =
     bnd (request_for (sys_net sys) c ''POST'' (''/jobs/'' @ action) (Some (list_body ''ids'' names)) (decode_batch (decode_string [])))
       (\<lambda>b. bnd (print_out (line (report (itoa_nat (length (b_succeeded b)))))) (\<lambda>_. batch_err action b))"

definition requeued :: "string \<Rightarrow> string" where
  "requeued n = ''Requeued '' @ n @ '' failed job(s).''"

definition retry_action :: "'w system \<Rightarrow> cliClient \<Rightarrow> string list \<Rightarrow> ('w, unit) cli" where
  "retry_action sys c args =
     (if args \<noteq> [] then batch_request sys c ''retry'' args requeued
      else bnd (request_for (sys_net sys) c ''POST'' ''/jobs/retry-all'' (Some empty_object) (decode_struct (count_field ''retried'') 0))
        (\<lambda>n. print_out (line (requeued (itoa n)))))"

text \<open>The job that an action without an identifier is about, and the one named by an argument.\<close>

definition selected_job :: "'w system \<Rightarrow> cliClient \<Rightarrow> string \<Rightarrow> string list \<Rightarrow> ('w, cliJob) cli" where
  "selected_job sys c action args = (case args of
     [] \<Rightarrow> request_for (sys_net sys) c ''GET''
       (''/jobs/latest?kind='' @ (if action = ''-o'' \<or> action = ''-k'' then ''run'' else ''added'')) None decode_job
   | a # _ \<Rightarrow> ret (zero_job\<lparr>j_ID := a\<rparr>))"

definition cancel_action :: "'w system \<Rightarrow> cliClient \<Rightarrow> cliJob \<Rightarrow> ('w, unit) cli" where
  "cancel_action sys c j =
     bnd (request_nil (sys_net sys) c ''POST'' (''/jobs/'' @ PathEscape (j_ID j) @ ''/cancel'') (Some empty_object))
       (\<lambda>_. print_out (line (''Cancellation requested for '' @ j_ID j)))"

definition remove_action :: "'w system \<Rightarrow> cliClient \<Rightarrow> string list \<Rightarrow> cliJob \<Rightarrow> ('w, unit) cli" where
  "remove_action sys c args j =
     (if length args \<le> 1 then request_nil (sys_net sys) c ''DELETE'' (''/jobs/'' @ PathEscape (j_ID j)) None
      else batch_request sys c ''remove'' args (\<lambda>n. ''Removed '' @ n @ '' job(s).''))"

definition urgent_action :: "'w system \<Rightarrow> cliClient \<Rightarrow> string list \<Rightarrow> cliJob \<Rightarrow> ('w, unit) cli" where
  "urgent_action sys c args j =
     batch_request sys c ''urgent'' (if args = [] then [j_ID j] else args) (\<lambda>n. ''Prioritized '' @ n @ '' queued job(s).'')"

definition output_action :: "'w system \<Rightarrow> cliClient \<Rightarrow> string list \<Rightarrow> cliJob \<Rightarrow> ('w, unit) cli" where
  "output_action sys c args j =
     bnd (if args = [] then ret j
          else request_for (sys_net sys) c ''GET'' (''/jobs/'' @ PathEscape (j_ID j)) None (decode_struct job_field j))
       (\<lambda>j. case j_OutputPath j of
          None \<Rightarrow> fail (NoOutputFile (j_ID j))
        | Some path \<Rightarrow> if path = [] then fail (NoOutputFile (j_ID j))
            else bnd (ignoring (print_diag (line (''Output on worker '' @ value_or_dash (j_WorkerID j) @ '' (host '' @
                go_quote (sys_printable sys) (value_or_dash (j_Hostname j)) @ ''); file is not downloaded.''))))
              (\<lambda>_. print_out (line path)))"

definition swap_body :: "string list \<Rightarrow> json" where
  "swap_body args = JObject [(''first'', JString (args ! 0)), (''second'', JString (args ! 1))]"

definition list_action :: "'w system \<Rightarrow> cliClient \<Rightarrow> 'w act" where
  "list_action sys c = then_do (fetchJobs (sys_net sys) c) (\<lambda>js. total (printJobs sys [js]))"

definition runJobs :: "'w system \<Rightarrow> cliClient \<Rightarrow> string \<Rightarrow> string list \<Rightarrow> 'w act" where
  "runJobs sys c action args = (case job_usage action args of
     Some e \<Rightarrow> total (fail e)
   | None \<Rightarrow>
      if action \<notin> set job_actions then
        total (case submit_command action args of Inl e \<Rightarrow> fail e | Inr argv \<Rightarrow> submit_action sys c argv)
      else if action = ''-retry'' then total (retry_action sys c args)
      else if action = ''-l'' then list_action sys c
      else if action = ''-C'' then total (request_nil (sys_net sys) c ''POST'' ''/jobs/clear'' (Some empty_object))
      else if action = ''-U'' then total (request_nil (sys_net sys) c ''POST'' ''/jobs/swap'' (Some (swap_body args)))
      else total (bnd (selected_job sys c action args) (\<lambda>j.
        if action = ''-k'' then cancel_action sys c j
        else if action = ''-r'' then remove_action sys c args j
        else if action = ''-u'' then urgent_action sys c args j
        else output_action sys c args j)))"

section \<open>Both queues\<close>

record cliOptions =
  o_address :: string
  o_queue :: string
  o_stateDir :: string
  o_local :: bool

definition fetch_from :: "'w system \<Rightarrow> cli_error + cliClient \<Rightarrow> 'w world \<Rightarrow> ((cli_error + cliJob list) \<times> 'w world) option" where
  "fetch_from sys client = (case client of Inl e \<Rightarrow> (\<lambda>w. Some (Inl e, w)) | Inr c \<Rightarrow> fetchJobs (sys_net sys) c)"

definition local_absent :: "cli_error \<Rightarrow> bool" where
  "local_absent e = (case e of TransportFailed _ _ n _ \<Rightarrow>
     (case n of NotExist _ \<Rightarrow> True | Refused _ \<Rightarrow> True | OtherFailure _ \<Rightarrow> False) | _ \<Rightarrow> False)"

definition jobs_of :: "cli_error + cliJob list \<Rightarrow> cliJob list" where
  "jobs_of r = (case r of Inl _ \<Rightarrow> [] | Inr js \<Rightarrow> js)"

definition warn_unavailable :: "string \<Rightarrow> cli_error + cliJob list \<Rightarrow> ('w, unit) cli" where
  "warn_unavailable which r = (case r of Inr _ \<Rightarrow> ret ()
   | Inl e \<Rightarrow> ignoring (print_diag (line (''Warning: '' @ which @ '' queue unavailable: '' @ error_message e))))"

definition show_combined :: "'w system \<Rightarrow> cli_error + cliJob list \<Rightarrow> cli_error + cliJob list \<Rightarrow> ('w, unit) cli" where
  "show_combined sys remote local = (case (remote, local) of
     (Inl r, Inl l) \<Rightarrow> fail (CannotList r l)
   | _ \<Rightarrow> bnd (warn_unavailable ''remote'' remote) (\<lambda>_.
       bnd (case local of Inl e \<Rightarrow> if local_absent e then ret () else warn_unavailable ''local'' local | _ \<Rightarrow> ret ()) (\<lambda>_.
         printJobs sys [jobs_of remote, jobs_of local])))"

definition listCombined :: "'w system \<Rightarrow> cliOptions \<Rightarrow> 'w act" where
  "listCombined sys opts =
     (case newClient (sys_env sys) (o_address opts) (sys_url sys (o_address opts)) (o_queue opts) of
        Inl e \<Rightarrow> total (fail e)
      | Inr remote \<Rightarrow> (\<lambda>w. case fetchJobs (sys_net sys) remote w of
          None \<Rightarrow> None
        | Some (rs, w1) \<Rightarrow>
            (case fetch_from sys (newLocalClient (sys_env sys) (o_stateDir opts)) w1 of
               None \<Rightarrow> None
             | Some (ls, w2) \<Rightarrow> Some (show_combined sys rs ls w2))))"

section \<open>Choosing the queue\<close>

definition no_key_warning :: string where
  "no_key_warning = ''Warning: neither JOBD_MASTER_KEY nor JOBD_WORKER_TOKEN is set; using local mode. Set JOBD_WORKER_TOKEN and run jobd worker restart to enable controller jobs.''"

definition runAction :: "'w system \<Rightarrow> cliOptions \<Rightarrow> string \<Rightarrow> string list \<Rightarrow> 'w act" where
  "runAction sys opts action args =
     (let key = controllerKey (sys_env sys) in
      if action \<notin> set (''--'' # job_actions) \<and> has_prefix action ''-''
        then total (fail (Usage (''unknown action '' @ action @ ''; use -h for help'')))
      else if action = ''-l'' \<and> args \<noteq> [] then total (fail (Usage ''-l takes no arguments''))
      else if \<not> o_local opts \<and> action = ''-l'' \<and> key \<noteq> [] then listCombined sys opts
      else (\<lambda>w. let w0 = (if key = [] \<and> action = ''-l'' then snd (ignoring (print_diag (line no_key_warning)) w) else w) in
        if o_local opts \<or> key = [] then
          (case manageWorker sys True ''--start'' (o_address opts) (o_queue opts) w0 of
             (Inl e, w1) \<Rightarrow> Some (Inl e, w1)
           | (Inr _, w1) \<Rightarrow> (case newLocalClient (sys_env sys) (o_stateDir opts) of
               Inl e \<Rightarrow> Some (Inl e, w1) | Inr c \<Rightarrow> runJobs sys c action args w1))
        else (case newClient (sys_env sys) (o_address opts) (sys_url sys (o_address opts)) (o_queue opts) of
               Inl e \<Rightarrow> Some (Inl e, w0) | Inr c \<Rightarrow> runJobs sys c action args w0)))"

section \<open>Removing everything\<close>

text \<open>\<open>bufio.NewReader(io.LimitReader(input, 256)).ReadString('\n')\<close>: \<open>None\<close> when it ends without a newline.\<close>

definition read_answer :: "string \<Rightarrow> string option" where
  "read_answer input = (let s = take 256 input in
     if CHR 0x0A \<in> set s then Some (takeWhile (\<lambda>c. c \<noteq> CHR 0x0A) s @ [CHR 0x0A]) else None)"

definition confirmed :: "string \<Rightarrow> bool" where
  "confirmed input = (case read_answer input of None \<Rightarrow> False
   | Some ans \<Rightarrow> trim_suffix (trim_suffix ans [CHR 0x0A]) [CHR 0x0D] = ''yes'')"

definition removed_field :: "string \<Rightarrow> json \<Rightarrow> int \<times> int \<Rightarrow> (int \<times> int) option" where
  "removed_field k v r =
     (if same_name k ''removed'' then map_option (\<lambda>n. (n, snd r)) (decode_int (fst r) v)
      else if same_name k ''kept_running'' then map_option (\<lambda>n. (fst r, n)) (decode_int (snd r) v)
      else Some r)"

definition removal_question :: "string \<Rightarrow> string" where
  "removal_question target = line (''Remove ALL queued and finished jobs from '' @ target @ ''?'') @
     line ''Running jobs, queue secrets, and output files will be kept. This cannot be undone.'' @
     ''Type '' @ [CHR 0x22] @ ''yes'' @ [CHR 0x22] @ '' to confirm: ''"

definition removeAllJobs :: "'w system \<Rightarrow> cliOptions \<Rightarrow> string \<Rightarrow> ('w, unit) cli" where
  "removeAllJobs sys opts input =
     (let here = (o_local opts \<or> controllerKey (sys_env sys) = []);
          target = (if here then ''local queue at '' @ go_quote (sys_printable sys) (o_stateDir opts)
            else ''queue '' @ go_quote (sys_printable sys) (o_queue opts) @ '' on '' @ o_address opts)
      in case (if here then newLocalClient (sys_env sys) (o_stateDir opts)
            else newClient (sys_env sys) (o_address opts) (sys_url sys (o_address opts)) (o_queue opts)) of
        Inl e \<Rightarrow> fail e
      | Inr c \<Rightarrow> bnd (print_diag (removal_question target)) (\<lambda>_.
          if \<not> confirmed input then fail NotConfirmed
          else bnd (if here then manageWorker sys True ''--start'' (o_address opts) (o_queue opts) else ret ()) (\<lambda>_.
            bnd (request_for (sys_net sys) c ''POST'' ''/jobs/remove-all'' (Some empty_object) (decode_struct removed_field (0, 0)))
              (\<lambda>(removed, kept). print_out (line (''Removed '' @ itoa removed @ '' job(s); kept '' @ itoa kept @ '' running job(s).''))))))"

section \<open>Workers\<close>

definition worker_field :: "string \<Rightarrow> json \<Rightarrow> cliWorker \<Rightarrow> cliWorker option" where
  "worker_field k v x =
     (if same_name k ''worker_id'' then map_option (\<lambda>s. x\<lparr>w_WorkerID := s\<rparr>) (decode_string (w_WorkerID x) v)
      else if same_name k ''hostname'' then map_option (\<lambda>s. x\<lparr>w_Hostname := s\<rparr>) (decode_string (w_Hostname x) v)
      else if same_name k ''token_expired_time'' then map_option (\<lambda>s. x\<lparr>w_TokenExpiry := s\<rparr>) (decode_string_ptr v)
      else Some x)"

definition decode_worker :: "json \<Rightarrow> cliWorker option" where
  "decode_worker = decode_struct worker_field \<lparr>w_WorkerID = [], w_Hostname = [], w_TokenExpiry = None\<rparr>"

definition workers_field :: "string \<Rightarrow> json \<Rightarrow> cliWorker list \<Rightarrow> cliWorker list option" where
  "workers_field k v ws = (if same_name k ''workers'' then decode_slice decode_worker v else Some ws)"

definition master_key :: "environ \<Rightarrow> bool" where
  "master_key env \<longleftrightarrow> trim_space (getenv env ''JOBD_MASTER_KEY'') \<noteq> []"

definition listWorkers :: "'w system \<Rightarrow> cliClient \<Rightarrow> ('w, unit) cli" where
  "listWorkers sys c =
     (if \<not> master_key (sys_env sys) then fail (MasterKeyRequired ''list workers'')
      else bnd (request_for (sys_net sys) c ''GET'' ''/workers'' None (decode_struct workers_field []))
        (\<lambda>ws. print_out (worker_table (sys_time sys) (sys_printable sys) (sys_now sys) ws)))"

text \<open>\<open>setWorkersPaused\<close>; the reply's workers have the members \<open>worker_id\<close> and \<open>hostname\<close>.\<close>

definition paused_field :: "string \<Rightarrow> json \<Rightarrow> string \<times> string \<Rightarrow> (string \<times> string) option" where
  "paused_field k v p =
     (if same_name k ''worker_id'' then map_option (\<lambda>s. (s, snd p)) (decode_string (fst p) v)
      else if same_name k ''hostname'' then map_option (\<lambda>s. (fst p, s)) (decode_string (snd p) v)
      else Some p)"

fun print_all :: "string list \<Rightarrow> ('w, unit) cli" where
  "print_all [] = ret ()"
| "print_all (s # ss) = bnd (print_out s) (\<lambda>_. print_all ss)"

definition setWorkersPaused :: "'w system \<Rightarrow> cliClient \<Rightarrow> string list \<Rightarrow> bool \<Rightarrow> ('w, unit) cli" where
  "setWorkersPaused sys c names paused =
     (if \<not> master_key (sys_env sys) then fail (MasterKeyRequired ''pause or resume workers'')
      else let action = (if paused then ''pause'' else ''resume''); state = (if paused then ''paused'' else ''enabled'') in
        bnd (request_for (sys_net sys) c ''POST'' (''/workers/'' @ action) (Some (list_body ''ids'' names))
            (decode_batch (decode_struct paused_field ([], []))))
          (\<lambda>b. bnd (print_all (map (\<lambda>(wid, host). line (''Worker '' @ wid @ '' ('' @ go_quote (sys_printable sys) host @
              ''): new remote assignments '' @ state @ ''.'')) (b_succeeded b)))
            (\<lambda>_. batch_err action b)))"

end
