(* ===== verification/CliEnv.thy ===== *)
theory CliEnv
  imports CliJobs
begin

text \<open>
  The secrets of a queue on the command line, cli/env.go: reading values from the terminal or
  from a pipe, and the requests of \<open>env list\<close>, \<open>env set\<close> and \<open>env delete\<close>. The terminal is given
  by what there is to read: the bytes of the input, which lines are taken from, and what
  successive calls of \<open>term.ReadPassword\<close> return (an end of the list is a failing call).
\<close>

section \<open>Reading values\<close>

definition name_char :: "char \<Rightarrow> bool" where
  "name_char c \<longleftrightarrow> in_range 65 90 c \<or> in_range 97 122 c \<or> c = CHR ''_''"

text \<open>The regular expression \<open>^[A-Za-z_][A-Za-z0-9_]{0,127}$\<close>.\<close>

definition validName :: "string \<Rightarrow> bool" where
  "validName s = (case s of [] \<Rightarrow> False
   | c # cs \<Rightarrow> name_char c \<and> list_all (\<lambda>d. name_char d \<or> in_range 48 57 d) cs \<and> length cs \<le> 127)"

definition valid_value :: "string \<Rightarrow> bool" where
  "valid_value v \<longleftrightarrow> length v \<le> 4096 \<and> valid_utf8 v \<and> \<not> contains_nul v"

record terminal =
  tty_input :: string
  tty_secrets :: "string option list"
  prompts :: "string list"
  prompt_room :: nat

type_synonym 'a tty = "(terminal, cli_error, 'a) op"

definition prompt :: "string \<Rightarrow> unit tty" where
  "prompt s = (\<lambda>t. if length (prompts t) < prompt_room t then (Inr (), t\<lparr>prompts := prompts t @ [s]\<rparr>) else (Inl WriteFailed, t))"

text \<open>
  \<open>Scan\<close> and \<open>Text\<close> of the scanner: a line without its end, \<open>None\<close> at the end of the input or
  when the line and its newline do not fit in the buffer of 4099 bytes.
\<close>

definition next_line :: "string \<Rightarrow> (string \<times> string) option" where
  "next_line s = (if s = [] then None
     else let l = takeWhile (\<lambda>c. c \<noteq> CHR 0x0A) s in
       if 4098 < length l then None else Some (trim_suffix l [CHR 0x0D], drop (Suc (length l)) s))"

lemma next_line_shorter: "next_line s = Some (l, rest) \<Longrightarrow> length rest < length s"
  by (auto simp: next_line_def Let_def split: if_splits)

text \<open>\<open>strings.ToLower\<close>, as far as the answers compared with go: nothing but capital letters becomes one of their letters.\<close>

definition lower :: "string \<Rightarrow> string" where
  "lower s = map (\<lambda>c. if in_range 65 90 c then char_of (byte c + 32) else c) s"

lemma prompt_input: "(r, t') = prompt s t \<Longrightarrow> tty_input t' = tty_input t"
  by (auto simp: prompt_def split: if_splits)

text \<open>The inner loop of \<open>readConfirmedEnvValue\<close>: whether the value is to be saved.\<close>

function ask_save :: "string \<Rightarrow> bool tty" where
  "ask_save name t = (case prompt ''Save? [Y/n] '' t of
     (Inl e, t1) \<Rightarrow> (Inl e, t1)
   | (Inr _, t1) \<Rightarrow>
      (case next_line (tty_input t1) of
         None \<Rightarrow> (Inl (EnvRefused (''confirmation cancelled for '' @ name @ ''; no secrets saved'')), t1)
       | Some (l, rest) \<Rightarrow>
          (let a = lower (trim_space l); t2 = t1\<lparr>tty_input := rest\<rparr> in
           if a \<in> {[], ''y'', ''yes''} then (Inr True, t2)
           else if a \<in> {''n'', ''no''} then (Inr False, t2)
           else ask_save name t2)))"
  by pat_completeness auto

termination
  by (relation "measure (\<lambda>(name, t). length (tty_input t))") (auto dest!: next_line_shorter prompt_input)

declare ask_save.simps [simp del]

definition envValuePreview :: "(rune \<Rightarrow> bool) \<Rightarrow> string \<Rightarrow> string" where
  "envValuePreview printable v = (let rs = runes v in
     ''Received '' @ itoa_nat (length rs) @ '' characters'' @
     (if 12 < length rs then '': '' @ go_quote printable (string_of_runes (take 4 rs) @ encode_rune 8230 @
        string_of_runes (drop (length rs - 4) rs)) else []))"

definition hidden_error :: "string \<Rightarrow> cli_error" where
  "hidden_error name = EnvRefused (''unable to read hidden value for '' @ name)"

text \<open>The outer loop, over the values that are typed.\<close>

fun read_confirmed :: "(rune \<Rightarrow> bool) \<Rightarrow> string \<Rightarrow> string option list \<Rightarrow> (string \<times> string option list) tty" where
  "read_confirmed printable name [] =
     bnd (prompt (name @ '' (hidden; press Enter): '')) (\<lambda>_. bnd (prompt (line [])) (\<lambda>_. fail (hidden_error name)))"
| "read_confirmed printable name (secret # secrets) =
     bnd (prompt (name @ '' (hidden; press Enter): '')) (\<lambda>_. bnd (prompt (line [])) (\<lambda>_.
       case secret of None \<Rightarrow> fail (hidden_error name)
       | Some v \<Rightarrow>
          if \<not> valid_value v then fail (EnvRefused ''value must be UTF-8 without NUL, at most 4096 bytes'')
          else bnd (prompt (line (envValuePreview printable v))) (\<lambda>_.
            bnd (ask_save name) (\<lambda>save. if save then ret (v, secrets) else read_confirmed printable name secrets))))"

definition readConfirmedEnvValue :: "(rune \<Rightarrow> bool) \<Rightarrow> string \<Rightarrow> string tty" where
  "readConfirmedEnvValue printable name = (\<lambda>t. case read_confirmed printable name (tty_secrets t) t of
     (Inl e, t') \<Rightarrow> (Inl e, t') | (Inr (v, secrets), t') \<Rightarrow> (Inr v, t'\<lparr>tty_secrets := secrets\<rparr>))"

definition read_piped :: "string \<Rightarrow> string tty" where
  "read_piped name = bnd (prompt (name @ '' (press Enter): '')) (\<lambda>_ t. case next_line (tty_input t) of
     None \<Rightarrow> (Inl (EnvRefused (''unable to read value for '' @ name @ '': expected a line of at most 4096 UTF-8 bytes'')), t)
   | Some (l, rest) \<Rightarrow> (Inr l, t\<lparr>tty_input := rest\<rparr>))"

fun check_names :: "nat \<Rightarrow> string list \<Rightarrow> cli_error option" where
  "check_names i [] = None"
| "check_names i (arg # args) = (if \<not> validName (fst (cut arg (CHR ''='')))
     then Some (EnvRefused (''assignment '' @ itoa_nat i @ '' must have a valid variable name'')) else check_names (Suc i) args)"

fun read_values :: "bool \<Rightarrow> (rune \<Rightarrow> bool) \<Rightarrow> string list \<Rightarrow> string list tty" where
  "read_values tty printable [] = ret []"
| "read_values tty printable (arg # args) =
     bnd (if CHR ''='' \<in> set arg then ret arg
          else bnd (if tty then readConfirmedEnvValue printable arg else read_piped arg) (\<lambda>v. ret (arg @ ''='' @ v)))
       (\<lambda>a. bnd (read_values tty printable args) (\<lambda>rest. ret (a # rest)))"

definition readEnvAssignments :: "bool \<Rightarrow> (rune \<Rightarrow> bool) \<Rightarrow> string list \<Rightarrow> string list tty" where
  "readEnvAssignments tty printable args = (case check_names 1 args of
     Some e \<Rightarrow> fail e | None \<Rightarrow> read_values tty printable args)"

section \<open>The actions\<close>

definition names_field :: "string \<Rightarrow> json \<Rightarrow> string list \<Rightarrow> string list option" where
  "names_field k v ns = (if same_name k ''names'' then decode_slice (decode_string []) v else Some ns)"

fun parse_assignments :: "nat \<Rightarrow> string list \<Rightarrow> cli_error + (string \<times> string) list" where
  "parse_assignments i [] = Inr []"
| "parse_assignments i (arg # args) = (case cut arg (CHR ''='') of (name, v, ok) \<Rightarrow>
     if \<not> ok \<or> \<not> validName name then
       Inl (EnvRefused (''assignment '' @ itoa_nat i @ '' must be KEY=VALUE with a valid variable name''))
     else if \<not> valid_value v then
       Inl (EnvRefused (''assignment '' @ itoa_nat i @ '' value must be UTF-8 without NUL, at most 4096 bytes''))
     else (case parse_assignments (Suc i) args of Inl e \<Rightarrow> Inl e | Inr rest \<Rightarrow> Inr ((name, v) # rest)))"

fun put_all :: "'w http_net \<Rightarrow> cliClient \<Rightarrow> (string \<times> string) list \<Rightarrow> ('w, unit) cli" where
  "put_all net c [] = ret ()"
| "put_all net c ((name, v) # rest) = (\<lambda>w.
     case request_nil net c ''PUT'' (''/env/'' @ PathEscape name) (Some (JObject [(''value'', JString v)])) w of
       (Inl e, w') \<Rightarrow> (Inl (SetFailed name e), w') | (Inr _, w') \<Rightarrow> put_all net c rest w')"

definition env_guard :: "cliClient \<Rightarrow> cli_error option" where
  "env_guard c = (if is_local c \<or> \<not> has_prefix (base c) ''https://''
       then Some (EnvRefused ''queue environment requires a remote HTTPS controller'')
     else if cli_key c = [] then Some (EnvRefused ''JOBD_MASTER_KEY is required (JOBD_WORKER_TOKEN worker tokens cannot manage env)'')
     else None)"

definition runEnv :: "'w http_net \<Rightarrow> cliClient \<Rightarrow> string \<Rightarrow> string list \<Rightarrow> ('w, unit) cli" where
  "runEnv net c action args = (case env_guard c of
     Some e \<Rightarrow> fail e
   | None \<Rightarrow>
      if action = ''list'' then
        (if args \<noteq> [] then fail (Usage ''env list takes no arguments'')
         else bnd (request_for net c ''GET'' ''/env'' None (decode_struct names_field [])) (\<lambda>ns. print_all (map line ns)))
      else if action = ''set'' then
        (if args = [] then fail (Usage ''set requires one or more KEY=VALUE assignments'')
         else case parse_assignments 1 args of Inl e \<Rightarrow> fail e | Inr assignments \<Rightarrow> put_all net c assignments)
      else case args of
        [name] \<Rightarrow>
          if \<not> validName name then fail (Usage (action @ '' requires one valid variable name''))
          else if action = ''delete'' then request_nil net c ''DELETE'' (''/env/'' @ PathEscape name) None
          else fail (Usage ''unknown environment action'')
      | _ \<Rightarrow> fail (Usage (action @ '' requires one valid variable name'')))"

section \<open>What the guards let through\<close>

text \<open>\<open>env set\<close> splits an argument at its first equals sign, so what was typed is what is sent.\<close>

lemma validName_no_equals: "validName name \<Longrightarrow> CHR ''='' \<notin> set name"
  by (cases name) (auto simp: validName_def name_char_def in_range_def list_all_iff)

lemma cut_assignment: "validName name \<Longrightarrow> cut (name @ ''='' @ v) (CHR ''='') = (name, v, True)"
  using cut_at [OF validName_no_equals, of name v] by simp

definition assignment :: "string \<times> string \<Rightarrow> string" where
  "assignment a = fst a @ ''='' @ snd a"

lemma parse_assignments_ok:
  "list_all (\<lambda>a. validName (fst a) \<and> valid_value (snd a)) as \<Longrightarrow> parse_assignments i (map assignment as) = Inr as"
  by (induction as arbitrary: i) (auto simp: assignment_def cut_assignment [simplified])

section \<open>Values do not show\<close>

text \<open>
  Two networks answer alike when they have the same failures and status codes for requests that
  differ at most in their bodies; the texts of their replies may be anything that a client reads
  in full, the request's own body included. The states of the networks are related by \<open>R\<close>.
\<close>

definition but_body :: "http_request \<Rightarrow> http_request" where
  "but_body h = h\<lparr>h_body := None\<rparr>"

fun alike :: "nat \<Rightarrow> http_reply \<Rightarrow> http_reply \<Rightarrow> bool" where
  "alike n (NoReply e) (NoReply f) \<longleftrightarrow> e = f"
| "alike n (HttpReply a _ (BodyBroken e)) (HttpReply b _ (BodyBroken f)) \<longleftrightarrow> a = b \<and> e = f"
| "alike n (HttpReply a _ (BodyText s _)) (HttpReply b _ (BodyText t _)) \<longleftrightarrow> a = b \<and> length s \<le> n \<and> length t \<le> n"
| "alike n _ _ \<longleftrightarrow> False"

definition answers_alike :: "'v http_net \<Rightarrow> 'w http_net \<Rightarrow> ('v \<Rightarrow> 'w \<Rightarrow> bool) \<Rightarrow> bool" where
  "answers_alike net1 net2 R \<longleftrightarrow> refuses net1 = refuses net2 \<and>
     (\<forall>n1 n2 h1 h2. R n1 n2 \<and> but_body h1 = but_body h2 \<longrightarrow>
       alike (2 ^ 20) (fst (exchange net1 h1 n1)) (fst (exchange net2 h2 n2)) \<and>
       R (snd (exchange net1 h1 n1)) (snd (exchange net2 h2 n2)))"

definition twin_worlds :: "('v \<Rightarrow> 'w \<Rightarrow> bool) \<Rightarrow> 'v world \<Rightarrow> 'w world \<Rightarrow> bool" where
  "twin_worlds R w1 w2 \<longleftrightarrow> R (net_state w1) (net_state w2) \<and> stdout w1 = stdout w2 \<and> out_room w1 = out_room w2 \<and>
     diagnostic w1 = diagnostic w2 \<and> diag_room w1 = diag_room w2"

definition same_outcome :: "('v \<Rightarrow> 'w \<Rightarrow> bool) \<Rightarrow> (cli_error + unit) \<times> 'v world \<Rightarrow> (cli_error + unit) \<times> 'w world \<Rightarrow> bool" where
  "same_outcome R r1 r2 \<longleftrightarrow> fst r1 = fst r2 \<and> twin_worlds R (snd r1) (snd r2)"

lemma check_reply_alike:
  assumes "alike (2 ^ 20) r1 r2" "secret_path path"
  shows "map_sum id (\<lambda>_. ()) (check_reply c verb path r1) = map_sum id (\<lambda>_. ()) (check_reply c verb path r2)"
  using assms by (cases "(2 ^ 20 :: nat, r1, r2)" rule: alike.cases) (auto simp: check_reply_def response_limit_def)

lemma request_nil_alike:
  assumes nets: "answers_alike net1 net2 R" and w: "twin_worlds R w1 w2" and path: "secret_path path"
  shows "same_outcome R (request_nil net1 c verb path b1 w1) (request_nil net2 c verb path b2 w2)"
proof -
  let ?h1 = "the_request c verb path b1" and ?h2 = "the_request c verb path b2"
  obtain r1 n1 r2 n2 where ex: "exchange net1 ?h1 (net_state w1) = (r1, n1)" "exchange net2 ?h2 (net_state w2) = (r2, n2)"
    by (metis prod.collapse)
  have "but_body ?h1 = but_body ?h2" by (simp add: but_body_def the_request_def)
  moreover have "R (net_state w1) (net_state w2)" using w by (simp add: twin_worlds_def)
  ultimately have "alike (2 ^ 20) (fst (r1, n1)) (fst (r2, n2)) \<and> R (snd (r1, n1)) (snd (r2, n2))"
    using nets unfolding answers_alike_def ex [symmetric] by blast
  then have twin: "alike (2 ^ 20) r1 r2" "R n1 n2" by simp_all
  have refuses: "refuses net2 = refuses net1" using nets by (simp add: answers_alike_def)
  from check_reply_alike [OF twin(1) path, of c verb] show ?thesis
    using w ex twin(2) unfolding request_nil_def raw_request_def bnd_def same_outcome_def twin_worlds_def refuses
    by (cases "check_reply c verb path r1"; cases "check_reply c verb path r2") (auto split: option.split)
qed

lemma secret_env_path: "secret_path (''/env/'' @ s)"
  by (simp add: secret_path_def has_prefix_def)

lemma put_all_alike:
  assumes nets: "answers_alike net1 net2 R"
  shows "map fst as = map fst bs \<Longrightarrow> twin_worlds R w1 w2 \<Longrightarrow> same_outcome R (put_all net1 c as w1) (put_all net2 c bs w2)"
proof (induction as arbitrary: bs w1 w2)
  case (Cons a as)
  then obtain name u v bs' where [simp]: "a = (name, u)" "bs = (name, v) # bs'" and rest: "map fst as = map fst bs'"
    by (cases a; cases bs) auto
  have outcome: "same_outcome R
      (request_nil net1 c ''PUT'' (''/env/'' @ PathEscape name) (Some (JObject [(''value'', JString u)])) w1)
      (request_nil net2 c ''PUT'' (''/env/'' @ PathEscape name) (Some (JObject [(''value'', JString v)])) w2)"
    by (rule request_nil_alike [OF nets Cons.prems(2) secret_env_path])
  obtain r v1 s v2 where req:
      "request_nil net1 c ''PUT'' (''/env/'' @ PathEscape name) (Some (JObject [(''value'', JString u)])) w1 = (r, v1)"
      "request_nil net2 c ''PUT'' (''/env/'' @ PathEscape name) (Some (JObject [(''value'', JString v)])) w2 = (s, v2)"
    by (metis prod.collapse)
  with outcome have rs: "s = r" "twin_worlds R v1 v2" by (simp_all add: same_outcome_def)
  show ?case
  proof (cases r)
    case (Inl e)
    with req rs show ?thesis by (simp add: same_outcome_def)
  next
    case (Inr x)
    with Cons.IH [OF rest rs(2)] req rs(1) show ?thesis by simp
  qed
qed (simp add: same_outcome_def)

section \<open>Properties\<close>

definition good_assignment :: "string \<Rightarrow> bool" where
  "good_assignment a = (case cut a (CHR ''='') of (name, v, ok) \<Rightarrow> ok \<and> validName name \<and> valid_value v)"

lemma parse_assignments_Inr: "parse_assignments i args = Inr as \<Longrightarrow> list_all good_assignment args"
  by (induction i args arbitrary: as rule: parse_assignments.induct)
    (auto simp: good_assignment_def split: prod.splits if_splits sum.splits)


definition https_client :: cliClient where
  "https_client = \<lparr>base = ''https://c/queues/default'', cli_key = ''k'', is_local = False, dials = None\<rparr>"



text \<open>A controller that fails and repeats the beginning of what it was sent.\<close>

definition sent_value :: "http_request \<Rightarrow> string" where
  "sent_value h = (case h_body h of Some (JObject [(_, JString v)]) \<Rightarrow> v | _ \<Rightarrow> [])"

definition echo_net :: "unit http_net" where
  "echo_net = \<lparr>refuses = \<lambda>_ _. None,
     exchange = \<lambda>h n. (HttpReply 500 ''500'' (BodyText (take 100 (sent_value h)) None), n)\<rparr>"

definition echo_world :: "unit world" where
  "echo_world = \<lparr>net_state = (), stdout = [], out_room = 9, diagnostic = [], diag_room = 9\<rparr>"


end
