(* ===== verification/CliLocal.thy ===== *)
theory CliLocal
  imports CliJobs
begin

text \<open>
  The command line against the worker's control socket: the network of a client of the local
  queue is the server of worker/local_socket.go, and the theory composes the two. A request's
  path goes through net/http as it is escaped (\<open>ServeMux\<close> redirects a path that is not clean and
  unescapes it segment by segment), its body through encoding/json, and so does the reply.
\<close>

section \<open>JSON text\<close>

text \<open>The compact text of a value; a number is its literal.\<close>

fun marshal :: "json \<Rightarrow> string" where
  "marshal JNull = ''null''"
| "marshal (JBool b) = (if b then ''true'' else ''false'')"
| "marshal (JNumber n) = n"
| "marshal (JString s) = json_string s"
| "marshal (JArray vs) = ''['' @ join (map marshal vs) '','' @ '']''"
| "marshal (JObject ms) = ''{'' @ join (map (\<lambda>(k, v). json_string k @ '':'' @ marshal v) ms) '','' @ ''}''"

text \<open>What the other side reads of a value that was marshalled: strings are valid UTF-8.\<close>

fun wire :: "json \<Rightarrow> json" where
  "wire (JString s) = JString (coerce_utf8 s)"
| "wire (JArray vs) = JArray (map wire vs)"
| "wire (JObject ms) = JObject (map (\<lambda>(k, v). (coerce_utf8 k, wire v)) ms)"
| "wire v = v"

section \<open>Paths and queries\<close>

fun unescape :: "string \<Rightarrow> string option" where
  "unescape [] = Some []"
| "unescape (c # cs) = (if c = CHR ''%'' then
      (case cs of a # b # ds \<Rightarrow>
         (case (hex_value a, hex_value b) of
            (Some x, Some y) \<Rightarrow> map_option (\<lambda>s. char_of (16 * x + y) # s) (unescape ds)
          | _ \<Rightarrow> None)
       | _ \<Rightarrow> None)
    else map_option (\<lambda>s. c # s) (unescape cs))"

text \<open>A segment that cannot be unescaped is taken as it is.\<close>

definition segment :: "string \<Rightarrow> string" where
  "segment s = (case unescape s of None \<Rightarrow> s | Some t \<Rightarrow> t)"

definition clean_segment :: "string \<Rightarrow> bool" where
  "clean_segment s \<longleftrightarrow> s \<notin> {[], ''.'', ''..''}"

fun query_parts :: "string \<Rightarrow> string list" where
  "query_parts [] = [[]]"
| "query_parts (c # cs) = (if c = CHR ''&'' then [] # query_parts cs
     else (c # hd (query_parts cs)) # tl (query_parts cs))"

text \<open>The queries the command line writes have nothing to unescape.\<close>

definition parse_query :: "string \<Rightarrow> (string \<times> string) list" where
  "parse_query q = map (\<lambda>p. case cut p (CHR ''='') of (k, v, _) \<Rightarrow> (k, v)) (filter (\<lambda>p. p \<noteq> []) (query_parts q))"

section \<open>Replies\<close>

definition opt_member :: "string \<Rightarrow> json option \<Rightarrow> (string \<times> json) list" where
  "opt_member name v = (case v of None \<Rightarrow> [] | Some x \<Rightarrow> [(name, x)])"

definition nonempty :: "string \<Rightarrow> json option" where
  "nonempty s = (if s = [] then None else Some (JString s))"

text \<open>\<open>Job\<close> of worker/job.go with its tags; \<open>show_time\<close> is how a \<open>time.Time\<close> marshals.\<close>

definition job_json :: "(int \<Rightarrow> string) \<Rightarrow> job \<Rightarrow> json" where
  "job_json show_time j = JObject ([(''id'', JString (ID j)), (''status'', JString (Status j)),
      (''command'', JArray (map JString (Command j))), (''created_at'', JString (show_time (CreatedAt j)))]
    @ opt_member ''started_at'' (map_option (\<lambda>t. JString (show_time t)) (StartedAt j))
    @ opt_member ''finished_at'' (map_option (\<lambda>t. JString (show_time t)) (FinishedAt j))
    @ opt_member ''worker_id'' (nonempty (WorkerID j)) @ opt_member ''hostname'' (nonempty (Hostname j))
    @ opt_member ''output_path'' (nonempty (OutputPath j))
    @ opt_member ''exit_code'' (map_option (\<lambda>n. JNumber (itoa n)) (ExitCode j))
    @ opt_member ''error'' (nonempty (Error j))
    @ [(''cancel_requested'', JNumber (itoa (CancelRequested j)))])"

definition response_json :: "(int \<Rightarrow> string) \<Rightarrow> (lq_error \<Rightarrow> string) \<Rightarrow> response \<Rightarrow> json" where
  "response_json show_time show_error r = (case r of
     ROk \<Rightarrow> JObject [(''status'', JString ''ok'')]
   | RStopping \<Rightarrow> JObject [(''ok'', JBool True)]
   | RJob j \<Rightarrow> job_json show_time j
   | RJobs js \<Rightarrow> JObject [(''jobs'', JArray (map (job_json show_time) js))]
   | RNothing \<Rightarrow> JNull
   | RRemoved x \<Rightarrow> JObject [(''removed'', JNumber (itoa_nat (Removed x))), (''kept_running'', JNumber (itoa_nat (KeptRunning x)))]
   | RRetried n \<Rightarrow> JObject [(''retried'', JNumber (itoa_nat n))]
   | RBatched b \<Rightarrow> JObject [(''succeeded'', JArray (map JString (succeeded b))),
       (''failed'', JArray (map (\<lambda>f. JObject [(''id'', JString (failure_id f)), (''error'', JString (show_error (failure_error f)))]) (failed b)))])"

section \<open>The socket as a network\<close>

text \<open>
  The server, the path of its socket, and a count of the requests it has handled, which selects
  the time and the driver failures each meets. \<open>mux_reply\<close> is what \<open>ServeMux\<close> answers on its own.
\<close>

record 'c socket =
  server :: "'c LocalSocket.server"
  socket_path :: string
  handled :: nat

record 'c setting =
  callback :: "(string \<Rightarrow> 'c \<Rightarrow> 'c) option"
  times :: "nat \<Rightarrow> int"
  driver :: "nat \<Rightarrow> nat \<Rightarrow> faults"
  show_time :: "int \<Rightarrow> string"
  show_error :: "lq_error \<Rightarrow> string"
  mux_reply :: "http_request \<Rightarrow> http_reply"

definition body_of :: "json option \<Rightarrow> body" where
  "body_of b = (case b of None \<Rightarrow> \<lparr>body_values = [], clean_end = True\<rparr>
   | Some v \<Rightarrow> if 2 * 2 ^ 20 < length (marshal v) then \<lparr>body_values = [], clean_end = False\<rparr>
       else \<lparr>body_values = [wire v], clean_end = True\<rparr>)"

definition to_server :: "'c setting \<Rightarrow> nat \<Rightarrow> http_request \<Rightarrow> request" where
  "to_server env n h = (case cut (h_path h) (CHR ''?'') of (path, query, _) \<Rightarrow>
     \<lparr>req_method = h_method h, req_path = map segment (path_parts (drop 1 path)), req_query = parse_query query,
       req_body = body_of (h_body h), req_time = times env n, req_faults = driver env n\<rparr>)"

definition from_server :: "'c setting \<Rightarrow> http_request \<Rightarrow> reply \<Rightarrow> http_reply" where
  "from_server env h r = (case r of
     MuxAnswer \<Rightarrow> mux_reply env h
   | Reply code None \<Rightarrow> HttpReply (int code) ''503 Service Unavailable'' (BodyText (line ''worker is stopping'') None)
   | Reply code (Some (Inl e)) \<Rightarrow>
       HttpReply (int code) (if code = 404 then ''404 Not Found'' else ''400 Bad Request'') (BodyText (line (show_error env e)) None)
   | Reply code (Some (Inr x)) \<Rightarrow>
       (let v = response_json (show_time env) (show_error env) x in
        HttpReply (int code) ''200 OK'' (BodyText (line (marshal v)) (Some (wire v)))))"

definition local_exchange :: "'c setting \<Rightarrow> http_request \<Rightarrow> 'c socket \<Rightarrow> http_reply \<times> 'c socket" where
  "local_exchange env h s =
     (if h_dial h \<noteq> Some (socket_path s) then (NoReply (NotExist ''no such file or directory''), s)
      else if \<not> list_all clean_segment (path_parts (drop 1 (fst (cut (h_path h) (CHR ''?''))))) then (mux_reply env h, s)
      else case serve (callback env) (to_server env (handled s) h) (server s) of (r, srv) \<Rightarrow>
        (from_server env h r, s\<lparr>server := srv, handled := Suc (handled s)\<rparr>))"

definition local_net :: "'c setting \<Rightarrow> 'c socket http_net" where
  "local_net env = \<lparr>refuses = \<lambda>_ _. None, exchange = local_exchange env\<rparr>"

section \<open>What every action keeps of the network\<close>

text \<open>
  The contract between the actions and the network they talk to: whatever a single exchange keeps
  of the network's state, every action keeps. It is all the actions do to it.
\<close>

locale safe_net =
  fixes net :: "'w http_net" and good :: "'w \<Rightarrow> bool"
  assumes exchange_good: "good n \<Longrightarrow> good (snd (exchange net h n))"
begin

definition fine :: "'w world \<Rightarrow> bool" where
  "fine w = good (net_state w)"

lemma keeps_print_out [intro]: "keeps fine (print_out s)"
  by (simp add: keeps_def fine_def print_out_def)

lemma keeps_print_diag [intro]: "keeps fine (print_diag s)"
  by (simp add: keeps_def fine_def print_diag_def)

lemma keeps_ignoring [intro]: "keeps fine m \<Longrightarrow> keeps fine (ignoring m)"
  by (simp add: keeps_def ignoring_def)

lemma keeps_raw_request [intro]: "keeps fine (raw_request net c verb path body)"
proof -
  have "good n" if "exchange net h m = (reply, n)" "good m" for h m reply n
    using that exchange_good by (metis snd_conv)
  then show ?thesis
    by (auto simp: keeps_def fine_def raw_request_def split: option.split prod.split)
qed

lemma keeps_request_for [intro]: "keeps fine (request_for net c verb path body dec)"
  unfolding request_for_def by (auto split: option.split)

lemma keeps_request_nil [intro]: "keeps fine (request_nil net c verb path body)"
  unfolding request_nil_def by auto

lemma keeps_batch_err [intro]: "keeps fine (batch_err action b)"
  by (simp add: batch_err_def)

lemma keeps_each:
  "sys_net sys = net \<Longrightarrow> keeps fine (submit_action sys c argv)"
  "sys_net sys = net \<Longrightarrow> keeps fine (batch_request sys c action names report)"
  "sys_net sys = net \<Longrightarrow> keeps fine (retry_action sys c args)"
  "sys_net sys = net \<Longrightarrow> keeps fine (selected_job sys c action args)"
  "sys_net sys = net \<Longrightarrow> keeps fine (cancel_action sys c j)"
  "sys_net sys = net \<Longrightarrow> keeps fine (remove_action sys c args j)"
  "sys_net sys = net \<Longrightarrow> keeps fine (urgent_action sys c args j)"
  "sys_net sys = net \<Longrightarrow> keeps fine (output_action sys c args j)"
  "keeps fine (printJobs sys listings)"
proof -
  assume net: "sys_net sys = net"
  show batch: "keeps fine (batch_request sys c action names report)" for action names report
    unfolding batch_request_def net by blast
  show "keeps fine (submit_action sys c argv)"
    unfolding submit_action_def net by blast
  show "keeps fine (retry_action sys c args)"
    unfolding retry_action_def net using batch by (auto simp: net)
  show "keeps fine (selected_job sys c action args)"
    unfolding selected_job_def net by (auto split: list.split)
  show "keeps fine (cancel_action sys c j)"
    unfolding cancel_action_def net by blast
  show "keeps fine (remove_action sys c args j)"
    unfolding remove_action_def net using batch by (auto simp: net)
  show "keeps fine (urgent_action sys c args j)"
    unfolding urgent_action_def by (rule batch)
  show "keeps fine (output_action sys c args j)"
    unfolding output_action_def net by (intro keeps_bnd keeps_if) (auto split: option.split)
qed (auto simp: printJobs_def)

lemma fetchJobs_fine: "fetchJobs net c w = Some y \<Longrightarrow> fine w \<Longrightarrow> fine (snd y)"
  using fetch_loop_keeps [of "fetch_page net c" 0 "[]" w y fine]
  by (auto simp: fetchJobs_def fetch_page_def)

lemma runJobs_fine:
  assumes net: "sys_net sys = net" and "runJobs sys c action args w = Some y" "fine w"
  shows "fine (snd y)"
proof -
  have total: "total m w = Some y \<Longrightarrow> keeps fine m \<Longrightarrow> fine (snd y)" for m
    using assms(3) by (auto simp: total_def keeps_def)
  have list: "list_action sys c w = Some y \<Longrightarrow> fine (snd y)"
    using keepsD [OF keeps_each(9)] fetchJobs_fine [of c w] assms(3)
    by (auto simp: list_action_def then_do_def total_def net split: option.splits prod.splits sum.splits)
  show ?thesis
    using assms(2) unfolding runJobs_def net
    by (auto split: option.splits if_splits sum.splits dest!: total list intro!: keeps_bnd keeps_each net)
qed

end

text \<open>The socket keeps the table well formed and the running rows as they are.\<close>

definition socket_fine :: "row list \<Rightarrow> 'c socket \<Rightarrow> bool" where
  "socket_fine rs s \<longleftrightarrow> wf_queue (srv_queue (server s)) \<and> runs (srv_queue (server s)) = rs"

lemma serve_queue:
  "wf_queue (srv_queue s) \<Longrightarrow> wf_queue (srv_queue (snd (serve cancel r s))) \<and>
     runs (srv_queue (snd (serve cancel r s))) = runs (srv_queue s)"
  by (rule client_reaches_runs [OF _ serve_client])

lemma local_exchange_server:
  "server (snd (local_exchange env h s)) = server s \<or>
   server (snd (local_exchange env h s)) = snd (serve (callback env) (to_server env (handled s) h) (server s))"
  by (simp add: local_exchange_def split: prod.split)

interpretation local_socket: safe_net "local_net env" "socket_fine rs" for env :: "'c setting" and rs
proof
  fix n :: "'c socket" and h
  assume "socket_fine rs n"
  then show "socket_fine rs (snd (exchange (local_net env) h n))"
    using local_exchange_server [of env h n] serve_queue [of "server n" "callback env" "to_server env (handled n) h"]
    by (auto simp: socket_fine_def local_net_def)
qed

section \<open>Paths come back\<close>

lemma hex_value_upper [simp]: "d < 16 \<Longrightarrow> hex_value (upper_hex d) = Some d"
  by (auto simp: hex_value_def in_range_def byte_upper_hex)

lemma unescape_PathEscape [simp]: "unescape (PathEscape s) = Some s"
proof (induction s)
  case (Cons c s)
  have "16 * (byte c div 16) + byte c mod 16 = byte c" by simp
  moreover have "char_of (byte c) = c" by (rule char_of_char)
  ultimately show ?case
    using Cons percent_not_safe by (cases "path_safe c") (auto simp: PathEscape_Cons)
qed simp

lemma segment_PathEscape [simp]: "segment (PathEscape s) = s"
  by (simp add: segment_def)

lemma segment_plain: "CHR ''%'' \<notin> set s \<Longrightarrow> segment s = s"
proof -
  have "CHR ''%'' \<notin> set s \<Longrightarrow> unescape s = Some s" by (induction s) auto
  then show "CHR ''%'' \<notin> set s \<Longrightarrow> segment s = s" by (simp add: segment_def)
qed

lemma PathEscape_plain: "list_all path_safe s \<Longrightarrow> PathEscape s = s"
  by (induction s) (simp_all add: PathEscape_Cons)

lemma clean_PathEscape: "clean_segment (PathEscape s) \<longleftrightarrow> clean_segment s"
proof -
  have same: "PathEscape t = t \<Longrightarrow> PathEscape s = t \<longleftrightarrow> s = t" for t
    by (metis PathEscape_inj)
  have "PathEscape ''.'' = ''.''" "PathEscape ''..'' = ''..''"
    by (simp_all add: PathEscape_plain path_safe_def)
  then have "PathEscape s = ''.'' \<longleftrightarrow> s = ''.''" "PathEscape s = ''..'' \<longleftrightarrow> s = ''..''"
    by (auto intro: same [THEN iffD1] same [THEN iffD2])
  moreover have "PathEscape s = [] \<longleftrightarrow> s = []" by (rule same) simp
  ultimately show ?thesis unfolding clean_segment_def by simp
qed

lemma question_not_in_PathEscape: "CHR ''?'' \<notin> set (PathEscape s)"
proof (induction s)
  case (Cons c s)
  have "CHR ''?'' \<noteq> upper_hex d" if "d < 16" for d
  proof
    assume "CHR ''?'' = upper_hex d"
    then have "byte (upper_hex d) = byte (CHR ''?'')" by simp
    then show False using byte_upper_hex [OF that] by (simp split: if_splits)
  qed
  moreover have "\<not> path_safe (CHR ''?'')" by (simp add: path_safe_def in_range_def)
  ultimately show ?case using Cons by (auto simp: PathEscape_Cons)
qed simp

section \<open>One request to the socket\<close>

text \<open>A local client that reaches this socket while its worker is not stopping.\<close>

definition reaches :: "cliClient \<Rightarrow> 'c socket \<Rightarrow> bool" where
  "reaches c s \<longleftrightarrow> is_local c \<and> dials c = Some (socket_path s) \<and> \<not> stopping (server s)"

abbreviation queue_of :: "'c socket world \<Rightarrow> localQueue" where
  "queue_of w \<equiv> srv_queue (server (net_state w))"

lemma raw_request_local:
  assumes c: "reaches c (net_state w)" and path: "path = CHR ''/'' # join segs ''/''" "segs \<noteq> []"
    and segs: "\<forall>s \<in> set segs. CHR ''/'' \<notin> set s \<and> CHR ''?'' \<notin> set s \<and> clean_segment s"
  shows "raw_request (local_net env) c verb path body w =
    (case serve (callback env)
        \<lparr>req_method = verb, req_path = map segment segs, req_query = [], req_body = body_of body,
          req_time = times env (handled (net_state w)), req_faults = driver env (handled (net_state w))\<rparr>
        (server (net_state w)) of (r, srv) \<Rightarrow>
      (check_reply c verb path (from_server env (the_request c verb path body) r),
       w\<lparr>net_state := (net_state w)\<lparr>server := srv, handled := Suc (handled (net_state w))\<rparr>\<rparr>))"
proof -
  have "set (join segs ''/'') \<subseteq> \<Union> (set ` set segs) \<union> {CHR ''/''}"
    by (induction segs "''/''" rule: join.induct) auto
  then have "CHR ''?'' \<notin> set path" using path segs by auto
  moreover have "path_parts (join segs ''/'') = segs" using segs path(2) by (intro path_parts_join) auto
  moreover have "parse_query [] = []" by (simp add: parse_query_def)
  ultimately show ?thesis
    using c segs path by (simp add: raw_request_def local_net_def local_exchange_def reaches_def the_request_def
        cut_none to_server_def list_all_iff split: prod.split)
qed

text \<open>An exchange whose reply is empty, or an error.\<close>

lemma serve_handle:
  assumes "route (req_method r) (req_path r) = Some rt" "rt \<noteq> RStop" "\<not> stopping s"
    and "handle cancel r rt (srv_queue s, srv_cancel s) = (res, (q', c'))"
  shows "serve cancel r s = (Reply (case res of Inl e \<Rightarrow> status_of e | Inr _ \<Rightarrow> 200) (Some res),
     s\<lparr>srv_queue := q', srv_cancel := c'\<rparr>)"
  using assms by (cases rt) (simp_all add: serve_def)

lemma check_reply_error:
  "isl (check_reply c verb path (from_server env h (Reply (status_of e) (Some (Inl e)))))"
  by (simp add: from_server_def check_reply_def status_of_def)

lemma check_reply_value:
  assumes "length (marshal (response_json (show_time env) (show_error env) x)) < response_limit c"
  shows "check_reply c verb path (from_server env h (Reply 200 (Some (Inr x))))
    = Inr (Some (wire (response_json (show_time env) (show_error env) x)))"
  using assms by (simp add: from_server_def check_reply_def Let_def)

lemma limit_positive: "5 < response_limit c"
  by (simp add: response_limit_def)

definition silent :: "lq_error + response \<Rightarrow> bool" where
  "silent res \<longleftrightarrow> res = Inr RNothing \<or> isl res"

lemma request_nil_local:
  assumes c: "reaches c (net_state w)" and path: "path = CHR ''/'' # join segs ''/''" "segs \<noteq> []"
    and segs: "\<forall>s \<in> set segs. CHR ''/'' \<notin> set s \<and> CHR ''?'' \<notin> set s \<and> clean_segment s"
    and route: "route verb (map segment segs) = Some rt" "rt \<noteq> RStop"
    and handle: "handle (callback env)
        \<lparr>req_method = verb, req_path = map segment segs, req_query = [], req_body = body_of body,
          req_time = times env (handled (net_state w)), req_faults = driver env (handled (net_state w))\<rparr>
        rt (queue_of w, srv_cancel (server (net_state w))) = (res, (q', c'))"
    and silent: "silent res"
  shows "\<exists>u w'. request_nil (local_net env) c verb path body w = (u, w') \<and> queue_of w' = q' \<and>
    (isl u \<longleftrightarrow> isl res) \<and> stdout w' = stdout w \<and> out_room w' = out_room w"
proof -
  let ?r = "\<lparr>req_method = verb, req_path = map segment segs, req_query = [], req_body = body_of body,
      req_time = times env (handled (net_state w)), req_faults = driver env (handled (net_state w))\<rparr>"
  have live: "\<not> stopping (server (net_state w))" using c by (simp add: reaches_def)
  have serve: "serve (callback env) ?r (server (net_state w)) =
      (Reply (case res of Inl e \<Rightarrow> status_of e | Inr _ \<Rightarrow> 200) (Some res),
       (server (net_state w))\<lparr>srv_queue := q', srv_cancel := c'\<rparr>)"
    using route handle by (intro serve_handle [OF _ route(2) live]) simp_all
  note raw = raw_request_local [OF c path segs, of env verb body, unfolded serve, simplified]
  show ?thesis
  proof (cases res)
    case (Inl e)
    with check_reply_error [of c verb path env "the_request c verb path body" e] show ?thesis
      by (auto simp: request_nil_def bnd_def raw isl_def)
  next
    case (Inr x)
    with silent have x: "x = RNothing" by (simp add: silent_def)
    have "check_reply c verb path (from_server env (the_request c verb path body) (Reply 200 (Some (Inr RNothing)))) = Inr (Some JNull)"
      using limit_positive [of c] by (subst check_reply_value) (simp_all add: response_json_def)
    with Inr x show ?thesis by (simp add: request_nil_def bnd_def raw)
  qed
qed

lemma on_queue_silent: "silent (fst (on_queue m nothing s))"
  by (cases s) (simp add: silent_def on_queue_def isl_def split: prod.split sum.split)

lemma on_queue_split:
  "on_queue m f (q, c) = (map_sum id f (fst (m q)), (snd (m q), c))"
  by (simp add: on_queue_def split: prod.split sum.split)

section \<open>Actions on the local queue\<close>

text \<open>The action carries out the operation \<open>m\<close> of the queue, and fails just when it does.\<close>

definition performs :: "'c socket system \<Rightarrow> cliClient \<Rightarrow> string \<Rightarrow> string list \<Rightarrow> 'c socket world \<Rightarrow>
    ((lq_error + 'a) \<times> localQueue) \<Rightarrow> bool" where
  "performs sys c action args w done_by \<longleftrightarrow> (\<exists>res w'. runJobs sys c action args w = Some (res, w') \<and>
     queue_of w' = snd done_by \<and> (isl res \<longleftrightarrow> isl (fst done_by)))"

lemma isl_map_sum [simp]: "isl (map_sum f g x) = isl x"
  by (cases x) simp_all

lemma silent_nothing [simp]: "silent (map_sum id nothing x)"
  by (cases x) (simp_all add: silent_def)

text \<open>Segments that stand for themselves, and escaped identifiers, are taken as they are.\<close>

definition literal :: "string \<Rightarrow> bool" where
  "literal s \<longleftrightarrow> s \<noteq> [] \<and> list_all (\<lambda>c. in_range 97 122 c \<or> c = CHR ''-'') s"

definition sound_segment :: "string \<Rightarrow> bool" where
  "sound_segment s \<longleftrightarrow> CHR ''/'' \<notin> set s \<and> CHR ''?'' \<notin> set s \<and> clean_segment s"

lemma literal_simps: "literal s \<Longrightarrow> sound_segment s" "literal s \<Longrightarrow> segment s = s"
proof -
  assume s: "literal s"
  then have "CHR ''/'' \<notin> set s" "CHR ''?'' \<notin> set s" "CHR ''%'' \<notin> set s" "CHR ''.'' \<notin> set s"
    by (auto simp: literal_def list_all_iff in_range_def)
  with s show "sound_segment s" "segment s = s"
    by (auto simp: sound_segment_def clean_segment_def literal_def intro: segment_plain)
qed

lemma sound_PathEscape [simp]: "sound_segment (PathEscape s) \<longleftrightarrow> clean_segment s"
  by (simp add: sound_segment_def slash_not_in_PathEscape question_not_in_PathEscape clean_PathEscape)

lemma literals [simp]: "literal ''jobs''" "literal ''clear''" "literal ''swap''" "literal ''cancel''"
  by (simp_all add: literal_def in_range_def)

lemmas segment_simps = literal_simps segment_PathEscape

lemma request_local_op:
  assumes "reaches c (net_state w)" "path = CHR ''/'' # join segs ''/''" "segs \<noteq> []" "list_all sound_segment segs"
    and "route verb (map segment segs) = Some rt" "rt \<noteq> RStop"
    and "\<And>r. req_faults r = driver env (handled (net_state w)) \<Longrightarrow> req_body r = body_of body \<Longrightarrow>
      handle (callback env) r rt = on_queue m nothing"
  shows "\<exists>u w'. request_nil (local_net env) c verb path body w = (u, w') \<and> queue_of w' = snd (m (queue_of w)) \<and>
    (isl u \<longleftrightarrow> isl (fst (m (queue_of w)))) \<and> stdout w' = stdout w \<and> out_room w' = out_room w"
proof -
  let ?r = "\<lparr>req_method = verb, req_path = map segment segs, req_query = [], req_body = body_of body,
      req_time = times env (handled (net_state w)), req_faults = driver env (handled (net_state w))\<rparr>"
  have "handle (callback env) ?r rt (queue_of w, srv_cancel (server (net_state w))) =
      (map_sum id nothing (fst (m (queue_of w))), (snd (m (queue_of w)), srv_cancel (server (net_state w))))"
    by (subst assms(7)) (simp_all add: on_queue_split)
  from request_nil_local [OF assms(1-3) _ assms(5,6) this] assms(4) show ?thesis
    by (simp add: list_all_iff sound_segment_def)
qed

lemma clear_performs:
  assumes "reaches c (net_state w)" "sys_net sys = local_net env"
  shows "performs sys c ''-C'' [] w (clear (driver env (handled (net_state w)) 0) (queue_of w))"
proof -
  have "\<exists>u w'. request_nil (local_net env) c ''POST'' ''/jobs/clear'' (Some empty_object) w = (u, w') \<and>
      queue_of w' = snd (clear (driver env (handled (net_state w)) 0) (queue_of w)) \<and>
      (isl u \<longleftrightarrow> isl (fst (clear (driver env (handled (net_state w)) 0) (queue_of w)))) \<and>
      stdout w' = stdout w \<and> out_room w' = out_room w"
    by (rule request_local_op [OF assms(1), of _ "[''jobs'', ''clear'']" _ RClear])
      (simp_all add: route_def segment_simps handle_def)
  then show ?thesis
    by (auto simp: performs_def runJobs_def job_usage_def job_actions_def total_def assms(2))
qed

lemma remove_performs:
  assumes "reaches c (net_state w)" "sys_net sys = local_net env" "clean_segment a"
  shows "performs sys c ''-r'' [a] w (remove (driver env (handled (net_state w)) 0) a (queue_of w))"
proof -
  have "\<exists>u w'. request_nil (local_net env) c ''DELETE'' (''/jobs/'' @ PathEscape a) None w = (u, w') \<and>
      queue_of w' = snd (remove (driver env (handled (net_state w)) 0) a (queue_of w)) \<and>
      (isl u \<longleftrightarrow> isl (fst (remove (driver env (handled (net_state w)) 0) a (queue_of w)))) \<and>
      stdout w' = stdout w \<and> out_room w' = out_room w"
    using assms(3) by (intro request_local_op [OF assms(1), of _ "[''jobs'', PathEscape a]" _ "RRemove a"])
      (auto simp: route_def segment_simps handle_def clean_segment_def)
  then show ?thesis
    by (auto simp: performs_def runJobs_def job_usage_def job_actions_def total_def assms(2) selected_job_def
        bnd_def remove_action_def zero_job_def)
qed

text \<open>The members of the bodies are told apart by their names.\<close>

definition member_name :: "string \<Rightarrow> bool" where
  "member_name s \<longleftrightarrow> list_all (\<lambda>c. in_range 97 122 c \<or> c = CHR ''_'') s"

lemma fold_member_name: "member_name s \<Longrightarrow> map fold_rune (runes s) = map of_char s"
proof (induction s)
  case (Cons c s)
  then have c: "byte c < 128" "fold_rune (byte c) = byte c"
    by (auto simp: member_name_def in_range_def fold_rune_def)
  then have "runes (c # s) = byte c # runes s"
    using runes_encode [of "byte c" s] by (simp add: encode_scalar_def scalar_def)
  with Cons c show ?case by (simp add: member_name_def)
qed simp

lemma same_member: "member_name a \<Longrightarrow> member_name b \<Longrightarrow> same_name a b \<longleftrightarrow> a = b"
proof -
  assume "member_name a" "member_name b"
  then have "same_name a b \<longleftrightarrow> map (of_char :: char \<Rightarrow> nat) a = map of_char b"
    by (simp add: same_name_def fold_member_name)
  also have "\<dots> \<longleftrightarrow> a = b" by (rule inj_map_eq_map) (simp add: inj_def)
  finally show ?thesis .
qed

lemma member_names [simp]:
  "member_name ''id''" "member_name ''status''" "member_name ''command''" "member_name ''created_at''"
  "member_name ''started_at''" "member_name ''finished_at''" "member_name ''worker_id''" "member_name ''hostname''"
  "member_name ''output_path''" "member_name ''exit_code''" "member_name ''error''" "member_name ''cancel_requested''"
  "member_name ''jobs''" "member_name ''first''" "member_name ''second''" "member_name ''ids''"
  by (simp_all add: member_name_def in_range_def)

lemma bnd_lift_Inr [simp]: "bnd (lift_sum (Inr x)) k = k x"
  by (simp add: bnd_def fun_eq_iff)

lemma body_of_small: "length (marshal v) \<le> 2 * 2 ^ 20 \<Longrightarrow> body_of (Some v) = \<lparr>body_values = [wire v], clean_end = True\<rparr>"
  by (simp add: body_of_def)

lemma decode_swap_body:
  assumes "valid_utf8 a" "valid_utf8 b" "length a + length b \<le> 100000"
  shows "decode_swap (body_of (Some (swap_body [a, b]))) = Inr (a, b)"
proof -
  have "length (json_string ''first'') \<le> 32" "length (json_string ''second'') \<le> 38"
    using length_json_string [of "''first''"] length_json_string [of "''second''"] by simp_all
  then have "length (marshal (swap_body [a, b])) \<le> 2 * 2 ^ 20"
    using assms(3) length_json_string [of a] length_json_string [of b] by (simp add: swap_body_def)
  with assms show ?thesis
    by (simp add: body_of_small decode_swap_def decodeLocalBody_def swap_body_def same_member
        decode_string_def)
qed

lemma swap_performs:
  assumes "reaches c (net_state w)" "sys_net sys = local_net env"
    and ab: "a \<noteq> []" "b \<noteq> []" "valid_utf8 a" "valid_utf8 b" "length a + length b \<le> 100000"
  shows "performs sys c ''-U'' [a, b] w (reorder (driver env (handled (net_state w)) 0) a b (queue_of w))"
proof -
  have "\<exists>u w'. request_nil (local_net env) c ''POST'' ''/jobs/swap'' (Some (swap_body [a, b])) w = (u, w') \<and>
      queue_of w' = snd (reorder (driver env (handled (net_state w)) 0) a b (queue_of w)) \<and>
      (isl u \<longleftrightarrow> isl (fst (reorder (driver env (handled (net_state w)) 0) a b (queue_of w)))) \<and>
      stdout w' = stdout w \<and> out_room w' = out_room w"
    by (rule request_local_op [OF assms(1), of _ "[''jobs'', ''swap'']" _ RSwap])
      (simp_all add: route_def segment_simps handle_def decode_swap_body [OF ab(3-5)] ab(1,2))
  then show ?thesis
    by (auto simp: performs_def runJobs_def job_usage_def job_actions_def total_def assms(2))
qed

lemma cancel_performs:
  assumes c: "reaches c (net_state w)" and "sys_net sys = local_net env" "clean_segment a"
    and room: "length (stdout w) < out_room w"
    and r: "requestCancel (driver env (handled (net_state w)) 0) (callback env) a
      (queue_of w, srv_cancel (server (net_state w))) = (res, (q', c'))"
  shows "performs sys c ''-k'' [a] w (res, q')"
proof -
  have "list_all sound_segment [''jobs'', PathEscape a, ''cancel'']"
    using assms(3) by (simp add: segment_simps)
  then have segs: "\<forall>s \<in> set [''jobs'', PathEscape a, ''cancel'']. CHR ''/'' \<notin> set s \<and> CHR ''?'' \<notin> set s \<and> clean_segment s"
    by (simp add: sound_segment_def)
  have "\<exists>u w'. request_nil (local_net env) c ''POST'' (''/jobs/'' @ PathEscape a @ ''/cancel'') (Some empty_object) w = (u, w') \<and>
      queue_of w' = q' \<and> (isl u \<longleftrightarrow> isl (map_sum id nothing res)) \<and> stdout w' = stdout w \<and> out_room w' = out_room w"
    (is "\<exists>u w'. ?sent u w' \<and> _")
    using assms(3) by (intro request_nil_local [OF c _ _ segs, of _ _ "RCancel a"])
      (auto simp: route_def segment_simps handle_def clean_segment_def bnd_def r split: sum.split)
  then obtain u w' where sent: "?sent u w'" and w': "queue_of w' = q'" "isl u \<longleftrightarrow> isl res"
      "stdout w' = stdout w" "out_room w' = out_room w" by auto
  show ?thesis
  proof (cases u)
    case (Inl e)
    with sent w' show ?thesis
      by (simp add: performs_def runJobs_def job_usage_def job_actions_def total_def assms(2) selected_job_def
          bnd_def cancel_action_def zero_job_def)
  next
    case (Inr x)
    with sent w' room show ?thesis
      by (simp add: performs_def runJobs_def job_usage_def job_actions_def total_def assms(2) selected_job_def
          bnd_def cancel_action_def zero_job_def print_out_def)
  qed
qed

end
