(* ===== verification/CliLocalProps.thy ===== *)
theory CliLocalProps
  imports CliLocal
begin

text \<open>
  What the command line does to the local queue and shows of it, from end to end: jobs come back
  from the socket as they are stored, a listing is the whole queue in its order, an action is the
  operation of the queue that it names, and a submitted command becomes a waiting job.
\<close>

section \<open>A job survives the reply\<close>

lemma parse_itoa: "int64 n \<Longrightarrow> parse_int64 (itoa n) = Some n"
proof (cases "0 \<le> n")
  case False
  assume "int64 n"
  moreover have "has_prefix (itoa n) ''-''" "drop 1 (itoa n) = itoa_nat (nat (- n))"
    using False by (simp_all add: itoa_def has_prefix_def)
  ultimately show ?thesis
    using False by (simp add: parse_int64_def int64_def)
qed (simp add: parse_int64_itoa int64_def)

definition text_ptr :: "string \<Rightarrow> string option" where
  "text_ptr s = (if s = [] then None else Some (coerce_utf8 s))"

definition cli_view :: "(int \<Rightarrow> string) \<Rightarrow> job \<Rightarrow> cliJob" where
  "cli_view st j = \<lparr>j_ID = coerce_utf8 (ID j), j_Status = coerce_utf8 (Status j),
     j_Command = map coerce_utf8 (Command j), j_Hostname = text_ptr (Hostname j), j_WorkerID = text_ptr (WorkerID j),
     j_OutputPath = text_ptr (OutputPath j), j_ExitCode = ExitCode j,
     j_StartedAt = map_option (\<lambda>t. coerce_utf8 (st t)) (StartedAt j),
     j_FinishedAt = map_option (\<lambda>t. coerce_utf8 (st t)) (FinishedAt j), j_CancelRequested = CancelRequested j\<rparr>"

lemma decode_members_append:
  "decode_members field x (ms @ ns) = (case decode_members field x ms of None \<Rightarrow> None
     | Some y \<Rightarrow> decode_members field y ns)"
  by (induction field x ms rule: decode_members.induct) (auto split: option.split)

lemma decode_members_opt:
  "decode_members field x (map (\<lambda>(k, v). (coerce_utf8 k, wire v)) (opt_member name p)) =
     (case p of None \<Rightarrow> Some x | Some v \<Rightarrow> field (coerce_utf8 name) (wire v) x)"
  by (simp add: opt_member_def split: option.split)

lemma decode_all_strings: "decode_all (decode_string []) (map (\<lambda>s. JString (f s)) ss) = Some (map f ss)"
  by (induction ss) (simp_all add: decode_string_def)

lemma job_fields:
  "job_field ''id'' v j = map_option (\<lambda>x. j\<lparr>j_ID := x\<rparr>) (decode_string (j_ID j) v)"
  "job_field ''status'' v j = map_option (\<lambda>x. j\<lparr>j_Status := x\<rparr>) (decode_string (j_Status j) v)"
  "job_field ''command'' v j = map_option (\<lambda>x. j\<lparr>j_Command := x\<rparr>) (decode_slice (decode_string []) v)"
  "job_field ''created_at'' v j = Some j" "job_field ''error'' v j = Some j"
  "job_field ''hostname'' v j = map_option (\<lambda>x. j\<lparr>j_Hostname := x\<rparr>) (decode_string_ptr v)"
  "job_field ''worker_id'' v j = map_option (\<lambda>x. j\<lparr>j_WorkerID := x\<rparr>) (decode_string_ptr v)"
  "job_field ''output_path'' v j = map_option (\<lambda>x. j\<lparr>j_OutputPath := x\<rparr>) (decode_string_ptr v)"
  "job_field ''exit_code'' v j = map_option (\<lambda>x. j\<lparr>j_ExitCode := x\<rparr>) (decode_int_ptr v)"
  "job_field ''started_at'' v j = map_option (\<lambda>x. j\<lparr>j_StartedAt := x\<rparr>) (decode_string_ptr v)"
  "job_field ''finished_at'' v j = map_option (\<lambda>x. j\<lparr>j_FinishedAt := x\<rparr>) (decode_string_ptr v)"
  "job_field ''cancel_requested'' v j = map_option (\<lambda>x. j\<lparr>j_CancelRequested := x\<rparr>) (decode_int (j_CancelRequested j) v)"
  by (simp_all add: job_field_def same_member)

lemma decode_slice_strings:
  "decode_slice (decode_string []) (JArray (map (\<lambda>s. JString (f s)) ss)) = Some (map f ss)"
  by (simp add: decode_slice_def decode_all_strings)

lemma decode_job_json:
  assumes "\<And>n. ExitCode j = Some n \<Longrightarrow> int64 n" "int64 (CancelRequested j)"
  shows "decode_job (wire (job_json st j)) = Some (cli_view st j)"
proof -
  have "map (wire \<circ> JString) ss = map (\<lambda>s. JString (coerce_utf8 s)) ss" for ss by simp
  then show ?thesis
    using assms
    by (cases "ExitCode j")
      (auto simp: decode_job_def decode_struct_def job_json_def decode_members_append decode_members_opt
        job_fields decode_slice_strings decode_string_def decode_string_ptr_def decode_int_ptr_def decode_int_def
        parse_itoa nonempty_def cli_view_def text_ptr_def zero_job_def comp_def split: option.split)
qed

section \<open>Submitting\<close>

lemma length_join: "length (join ws sep) \<le> sum_list (map length ws) + length sep * length ws"
  by (induction ws sep rule: join.induct) simp_all

lemma length_local_id: "0 \<le> n \<Longrightarrow> n \<le> max_int64 \<Longrightarrow> length (local_id n) \<le> 25"
proof -
  assume n: "0 \<le> n" "n \<le> max_int64"
  then have "nat n < 10 ^ Suc 18" by (simp add: max_int64_def)
  from length_itoa_nat [OF this] n show ?thesis by (simp add: local_id_def itoa_def)
qed

lemma marshal_string_array: "marshal (JArray (map JString ss)) = marshal_strings ss"
  by (simp add: marshal_strings_def comp_def)

lemma command_size_sum: "command_size n argv = Inr m \<Longrightarrow> m = n + sum_list (map length argv)"
  by (induction n argv rule: command_size.induct) (auto split: if_splits)

lemma check_command_size:
  "check_command argv = Inr () \<Longrightarrow> argv \<noteq> [] \<and> trim_space (hd argv) \<noteq> [] \<and>
     sum_list (map length argv) \<le> 262144 \<and> length argv \<le> 4096"
  by (auto simp: check_command_def split: if_splits sum.splits dest!: command_size_sum)

lemma small_command: "check_command argv = Inr () \<Longrightarrow> length (marshal_strings argv) \<le> 1600000"
  using check_command_size [of argv] length_marshal_strings [of argv] by simp

section \<open>Replies fit\<close>

text \<open>
  A client of the socket reads 192 MiB, which is meant to hold 100 commands of 256 KiB, escaped up
  to sixfold, with their metadata. It does when the metadata of a job is at most 60000 bytes.
\<close>

definition metadata :: "(int \<Rightarrow> string) \<Rightarrow> job \<Rightarrow> nat" where
  "metadata st j = length (ID j) + length (Status j) + length (st (CreatedAt j))
     + (case StartedAt j of None \<Rightarrow> 0 | Some t \<Rightarrow> length (st t)) + (case FinishedAt j of None \<Rightarrow> 0 | Some t \<Rightarrow> length (st t))
     + length (WorkerID j) + length (Hostname j) + length (OutputPath j) + length (Error j)"

definition job_fits :: "(int \<Rightarrow> string) \<Rightarrow> job \<Rightarrow> bool" where
  "job_fits st j \<longleftrightarrow> check_command (Command j) = Inr () \<and> metadata st j \<le> 60000 \<and>
     int64 (CancelRequested j) \<and> (\<forall>n. ExitCode j = Some n \<longrightarrow> int64 n)"

definition member_size :: "string \<times> json \<Rightarrow> nat" where
  "member_size m = length (json_string (fst m)) + length (marshal (snd m)) + 2"

lemma marshal_object: "length (marshal (JObject ms)) \<le> 2 + sum_list (map member_size ms)"
proof -
  have "sum_list (map (length \<circ> (\<lambda>(k, v). json_string k @ '':'' @ marshal v)) ms) + length ms \<le> sum_list (map member_size ms)"
    by (induction ms) (auto simp: member_size_def)
  then show ?thesis
    using length_join [of "map (\<lambda>(k, v). json_string k @ '':'' @ marshal v) ms" "'',''"] by simp
qed

lemma member_sizes:
  "member_size (k, JString s) \<le> 6 * length k + 6 * length s + 6"
  "sum_list (map member_size (opt_member k (nonempty s))) \<le> 6 * length k + 6 * length s + 6"
  "int64 n \<Longrightarrow> member_size (k, JNumber (itoa n)) \<le> 6 * length k + 24"
  using length_json_string [of k] length_json_string [of s] length_itoa [of n]
  by (simp_all add: member_size_def opt_member_def nonempty_def)

lemma member_size_time:
  "sum_list (map member_size (opt_member k (map_option (\<lambda>t. JString (st t)) p)))
     \<le> 6 * length k + 6 * (case p of None \<Rightarrow> 0 | Some t \<Rightarrow> length (st t)) + 6"
  using member_sizes(1) [of k "st (the p)"] by (cases p) (simp_all add: opt_member_def)

lemma member_size_code:
  "(\<And>n. p = Some n \<Longrightarrow> int64 n) \<Longrightarrow>
   sum_list (map member_size (opt_member k (map_option (\<lambda>n. JNumber (itoa n)) p))) \<le> 6 * length k + 24"
  using member_sizes(3) [of "the p" k] by (cases p) (simp_all add: opt_member_def)

lemma marshal_job:
  assumes "job_fits st j"
  shows "length (marshal (job_json st j)) \<le> 1970000"
proof -
  let ?ms = "[(''id'', JString (ID j)), (''status'', JString (Status j)),
      (''command'', JArray (map JString (Command j))), (''created_at'', JString (st (CreatedAt j)))]"
  from assms have fits: "length (marshal_strings (Command j)) \<le> 1600000" "metadata st j \<le> 60000"
      "int64 (CancelRequested j)" "\<And>n. ExitCode j = Some n \<Longrightarrow> int64 n"
    by (auto simp: job_fits_def small_command)
  have "member_size (''command'', JArray (map JString (Command j))) \<le> 1600046"
    using fits(1) length_json_string [of "''command''"] by (simp add: member_size_def marshal_string_array del: marshal.simps)
  then have first: "sum_list (map member_size ?ms) \<le> 1600300 + 6 * (length (ID j) + length (Status j) + length (st (CreatedAt j)))"
    using member_sizes(1) [of "''id''" "ID j"] member_sizes(1) [of "''status''" "Status j"]
      member_sizes(1) [of "''created_at''" "st (CreatedAt j)"] by simp
  show ?thesis
    using marshal_object [of "?ms @ opt_member ''started_at'' (map_option (\<lambda>t. JString (st t)) (StartedAt j))
        @ opt_member ''finished_at'' (map_option (\<lambda>t. JString (st t)) (FinishedAt j))
        @ opt_member ''worker_id'' (nonempty (WorkerID j)) @ opt_member ''hostname'' (nonempty (Hostname j))
        @ opt_member ''output_path'' (nonempty (OutputPath j))
        @ opt_member ''exit_code'' (map_option (\<lambda>n. JNumber (itoa n)) (ExitCode j))
        @ opt_member ''error'' (nonempty (Error j))
        @ [(''cancel_requested'', JNumber (itoa (CancelRequested j)))]"]
      first member_size_time [where k = "''started_at''" and st = st and p = "StartedAt j"]
      member_size_time [where k = "''finished_at''" and st = st and p = "FinishedAt j"]
      member_sizes(2) [of "''worker_id''" "WorkerID j"] member_sizes(2) [of "''hostname''" "Hostname j"]
      member_sizes(2) [of "''output_path''" "OutputPath j"] member_sizes(2) [of "''error''" "Error j"]
      member_size_code [where p = "ExitCode j" and k = "''exit_code''", OF fits(4)] member_sizes(3) [OF fits(3), of "''cancel_requested''"] fits(2)
    unfolding job_json_def metadata_def map_append sum_list_append by (simp del: marshal.simps)
qed

lemma page_fits:
  assumes "length js \<le> 100" "\<And>j. j \<in> set js \<Longrightarrow> job_fits st j" "is_local c"
  shows "length (marshal (response_json st se (RJobs js))) < response_limit c"
proof -
  have "sum_list (map (length \<circ> (marshal \<circ> job_json st)) js) \<le> 1970000 * length js"
    using assms(2) marshal_job by (induction js) (auto intro: add_mono)
  then have "length (join (map (marshal \<circ> job_json st) js) '','') \<le> 1970001 * length js"
    using length_join [of "map (marshal \<circ> job_json st) js" "'',''"] by simp
  then show ?thesis
    using assms(1,3) length_json_string [of "''jobs''"] by (simp add: response_json_def response_limit_def comp_def)
qed

text \<open>The reply to a submission: a waiting job, none of whose later fields is set.\<close>

lemma queued_job:
  assumes "wf_queue q" "r \<in> set (jobs q)" "Status (job_of r) = ''queued''"
  shows "StartedAt (job_of r) = None \<and> FinishedAt (job_of r) = None \<and> WorkerID (job_of r) = [] \<and>
    Hostname (job_of r) = [] \<and> OutputPath (job_of r) = [] \<and> ExitCode (job_of r) = None \<and> Error (job_of r) = [] \<and>
    CancelRequested (job_of r) = 0"
proof -
  from assms(1,2) have wf: "wf_row q r" by (rule wf_rowD)
  then obtain argv where argv: "unmarshal_strings (command r) = Some argv" by (auto simp: wf_row_def)
  with assms(3) have "status_text (status r) = status_text Queued" by (simp add: job_of_simps)
  then have "status r = Queued" by (simp only: status_text_inj)
  with wf argv show ?thesis by (auto simp: wf_row_def row_shape_def job_of_def scanLocalJob_def)
qed

text \<open>An exchange that returns a value, with or without a query.\<close>

lemma set_join: "set (join ws sep) \<subseteq> \<Union> (set ` set ws) \<union> set sep"
  by (induction ws sep rule: join.induct) auto

definition split_url :: "string list \<Rightarrow> string option \<Rightarrow> string" where
  "split_url segs query = CHR ''/'' # join segs ''/'' @ (case query of None \<Rightarrow> [] | Some q \<Rightarrow> CHR ''?'' # q)"

definition query_of :: "string option \<Rightarrow> (string \<times> string) list" where
  "query_of query = (case query of None \<Rightarrow> [] | Some q \<Rightarrow> parse_query q)"

lemma request_for_local:
  assumes c: "reaches c (net_state w)" and segs: "segs \<noteq> []" "list_all sound_segment segs"
    and route: "route verb (map segment segs) = Some rt" "rt \<noteq> RStop"
    and handle: "handle (callback env)
        \<lparr>req_method = verb, req_path = map segment segs, req_query = query_of query, req_body = body_of body,
          req_time = times env (handled (net_state w)), req_faults = driver env (handled (net_state w))\<rparr>
        rt (queue_of w, srv_cancel (server (net_state w))) = (Inr x, (q', c'))"
    and fits: "length (marshal (response_json (show_time env) (show_error env) x)) < response_limit c"
    and dec: "dec (wire (response_json (show_time env) (show_error env) x)) = Some v"
  shows "request_for (local_net env) c verb (split_url segs query) body dec w = (Inr v,
    w\<lparr>net_state := (net_state w)\<lparr>server := (server (net_state w))\<lparr>srv_queue := q', srv_cancel := c'\<rparr>,
      handled := Suc (handled (net_state w))\<rparr>\<rparr>)"
proof -
  let ?r = "\<lparr>req_method = verb, req_path = map segment segs, req_query = query_of query, req_body = body_of body,
      req_time = times env (handled (net_state w)), req_faults = driver env (handled (net_state w))\<rparr>"
  have "\<not> stopping (server (net_state w))" using c by (simp add: reaches_def)
  then have serve: "serve (callback env) ?r (server (net_state w)) =
      (Reply 200 (Some (Inr x)), (server (net_state w))\<lparr>srv_queue := q', srv_cancel := c'\<rparr>)"
    using serve_handle [of ?r rt "server (net_state w)" "callback env"] route handle by simp
  have sound: "\<forall>s \<in> set segs. CHR ''/'' \<notin> set s \<and> CHR ''?'' \<notin> set s \<and> clean_segment s"
    using segs(2) by (simp add: list_all_iff sound_segment_def)
  then have "CHR ''?'' \<notin> set (CHR ''/'' # join segs ''/'')" using set_join [of segs "''/''"] by auto
  then have cut: "cut (split_url segs query) (CHR ''?'') = (CHR ''/'' # join segs ''/'', case query of None \<Rightarrow> [] | Some q \<Rightarrow> q, query \<noteq> None)"
    using cut_none [of "CHR ''?''" "CHR ''/'' # join segs ''/''"] cut_at [of "CHR ''?''" "CHR ''/'' # join segs ''/''"]
    by (cases query) (simp_all add: split_url_def)
  moreover have "path_parts (join segs ''/'') = segs" using sound segs(1) by (intro path_parts_join) auto
  moreover have "parse_query (case query of None \<Rightarrow> [] | Some q \<Rightarrow> q) = query_of query"
    by (simp add: query_of_def parse_query_def split: option.split)
  ultimately have "local_exchange env (the_request c verb (split_url segs query) body) (net_state w) =
      (from_server env (the_request c verb (split_url segs query) body) (Reply 200 (Some (Inr x))),
       (net_state w)\<lparr>server := (server (net_state w))\<lparr>srv_queue := q', srv_cancel := c'\<rparr>, handled := Suc (handled (net_state w))\<rparr>)"
    using c sound serve by (auto simp: local_exchange_def the_request_def reaches_def to_server_def list_all_iff)
  then show ?thesis
    using c dec check_reply_value [where x = x and c = c and env = env, OF fits]
    by (simp add: request_for_def raw_request_def bnd_def local_net_def reaches_def)
qed

lemma decode_list_body:
  assumes "length (marshal (list_body name ss)) \<le> 2 * 2 ^ 20" "member_name name" "ss \<noteq> []"
  shows "decode_list name (body_of (Some (list_body name ss))) = Inr (map coerce_utf8 ss)"
proof -
  have "valid_utf8 name" if "member_name name" for name
    using that by (induction name) (auto simp: member_name_def in_range_def)
  then have name: "coerce_utf8 name = name" using assms(2) by simp
  obtain v vs where v: "map (\<lambda>s. JString (coerce_utf8 s)) ss = v # vs" using assms(3) by (cases ss) auto
  have "decode_strings ([], []) (JArray (map (\<lambda>s. JString (coerce_utf8 s)) ss)) = Some (map coerce_utf8 ss, map coerce_utf8 ss)"
    using decode_elements_strings [of "map coerce_utf8 ss"] v by (simp add: decode_strings_def comp_def)
  with assms(1) name show ?thesis
    by (simp add: body_of_small decode_list_def decodeLocalBody_def list_body_def comp_def)
qed

lemma wf_last: "wf_queue q \<Longrightarrow> 0 \<le> last_sequence q \<and> last_sequence q \<le> max_int64"
  by (simp add: wf_queue_def)

lemma valid_ascii: "list_all (\<lambda>c. byte c < 128) s \<Longrightarrow> valid_utf8 s"
  by (induction s) simp_all

lemma valid_local_id: "0 \<le> n \<Longrightarrow> valid_utf8 (local_id n)"
proof -
  assume "0 \<le> n"
  moreover have "list_all (\<lambda>c. byte c < 128) (itoa_nat m)" for m
    using itoa_nat_digits [of _ m] by (fastforce simp: list_all_iff is_digit_def in_range_def)
  ultimately show ?thesis by (simp add: local_id_def itoa_def valid_ascii)
qed

text \<open>The reply that carries a waiting job fits into what a local client reads, and is read as the job.\<close>

lemma queued_job_reply:
  assumes r: "wf_queue q" "r \<in> set (jobs q)" "Status (job_of r) = ''queued''" "ID (job_of r) = local_id n" "1 \<le> n" "n \<le> max_int64"
    and cmd: "check_command (Command (job_of r)) = Inr ()" and short: "\<And>t. length (show_time env t) \<le> 64" and c: "is_local c"
  shows "length (marshal (job_json (show_time env) (job_of r))) < response_limit c"
    "decode_job (wire (job_json (show_time env) (job_of r))) = Some (cli_view (show_time env) (job_of r))"
proof -
  have fresh: "StartedAt (job_of r) = None" "FinishedAt (job_of r) = None" "WorkerID (job_of r) = []"
      "Hostname (job_of r) = []" "OutputPath (job_of r) = []" "ExitCode (job_of r) = None" "Error (job_of r) = []"
      "CancelRequested (job_of r) = 0"
    using queued_job [OF r(1-3)] by auto
  have "length (ID (job_of r)) \<le> 25" using r(5,6) by (auto simp: r(4) intro!: length_local_id)
  with fresh r(3) cmd short [of "CreatedAt (job_of r)"] have "job_fits (show_time env) (job_of r)"
    by (simp add: job_fits_def metadata_def int64_def max_int64_def)
  from marshal_job [OF this] show "length (marshal (job_json (show_time env) (job_of r))) < response_limit c"
    using c by (simp add: response_limit_def)
  show "decode_job (wire (job_json (show_time env) (job_of r))) = Some (cli_view (show_time env) (job_of r))"
    using fresh by (intro decode_job_json) (simp_all add: int64_def max_int64_def)
qed

lemma submit_from_cli:
  assumes c: "reaches c (net_state w)" "is_local c" and sys: "sys_net sys = local_net env"
    and wf: "wf_queue (queue_of w)" "last_sequence (queue_of w) < max_int64"
    and argv: "check_command argv = Inr ()" "list_all valid_utf8 argv"
    and quiet: "driver env (handled (net_state w)) 0 = no_faults" "\<And>t. length (show_time env t) \<le> 64"
    and room: "length (stdout w) < out_room w"
  shows "\<exists>w' r. submit_action sys c argv w = (Inr (), w') \<and>
    stdout w' = stdout w @ [line (local_id (last_sequence (queue_of w) + 1))] \<and> wf_queue (queue_of w') \<and>
    r \<in> set (jobs (queue_of w')) \<and> sequence r = last_sequence (queue_of w) + 1 \<and> Command (job_of r) = argv \<and>
    waiting (queue_of w') = waiting (queue_of w) @ [last_sequence (queue_of w) + 1]"
proof -
  let ?n = "last_sequence (queue_of w) + 1"
  let ?req = "\<lparr>req_method = ''POST'', req_path = map segment [''jobs''], req_query = query_of None,
      req_body = body_of (Some (list_body ''command'' argv)),
      req_time = times env (handled (net_state w)), req_faults = driver env (handled (net_state w))\<rparr>"
  have same: "map coerce_utf8 argv = argv" using argv(2) by (induction argv) simp_all
  obtain r q' where r: "submit no_faults (times env (handled (net_state w))) argv (queue_of w) = (Inr (job_of r), q')"
      "wf_queue q'" "r \<in> set (jobs q')" "sequence r = ?n" "ID (job_of r) = local_id ?n" "Status (job_of r) = ''queued''"
      "Command (job_of r) = argv" "waiting q' = waiting (queue_of w) @ [?n]"
    using submit_appends [OF wf(1) argv(1) wf(2), of "times env (handled (net_state w))"] same by auto
  have body: "length (marshal (list_body ''command'' argv)) \<le> 2 * 2 ^ 20"
  proof -
    have "marshal (list_body ''command'' argv) = ''{'' @ json_string ''command'' @ '':'' @ marshal_strings argv @ ''}''"
      by (simp add: list_body_def marshal_strings_def comp_def)
    then show ?thesis using small_command [OF argv(1)] length_json_string [of "''command''"] by simp
  qed
  have "argv \<noteq> []" using check_command_size [OF argv(1)] by simp
  from decode_list_body [OF body _ this] same
  have dec: "decode_list ''command'' (body_of (Some (list_body ''command'' argv))) = Inr argv" by simp
  have handle: "handle (callback env) ?req RSubmit (queue_of w, srv_cancel (server (net_state w)))
      = (Inr (RJob (job_of r)), (q', srv_cancel (server (net_state w))))"
    using dec quiet(1) r(1) by (simp add: handle_def on_queue_def)
  have "1 \<le> ?n" "?n \<le> max_int64" using wf wf_last [OF wf(1)] by simp_all
  note reply = queued_job_reply [OF r(2,3,6,5) this, of env c]
  have sent: "request_for (local_net env) c ''POST'' (split_url [''jobs''] None) (Some (list_body ''command'' argv)) decode_job w =
      (Inr (cli_view (show_time env) (job_of r)),
       w\<lparr>net_state := (net_state w)\<lparr>server := (server (net_state w))\<lparr>srv_queue := q', srv_cancel := srv_cancel (server (net_state w))\<rparr>,
        handled := Suc (handled (net_state w))\<rparr>\<rparr>)"
    using reply argv(1) quiet(2) c(2) r(7) by (intro request_for_local [OF c(1) _ _ _ _ handle]) (simp_all add: route_def segment_simps response_json_def)
  have "j_ID (cli_view (show_time env) (job_of r)) = local_id ?n"
    using r(5) valid_local_id [of ?n] wf_last [OF wf(1)] by (simp add: cli_view_def)
  with sent r room show ?thesis
    by (simp add: submit_action_def sys bnd_def split_url_def print_out_def) blast
qed

section \<open>Listing\<close>

lemma query_parts_plain: "CHR ''&'' \<notin> set s \<Longrightarrow> query_parts s = [s]"
  by (induction s) auto

lemma query_parts_append: "CHR ''&'' \<notin> set s \<Longrightarrow> query_parts (s @ CHR ''&'' # t) = s # query_parts t"
  by (induction s) auto

lemma not_in_itoa: "\<not> is_digit c \<Longrightarrow> c \<notin> set (itoa_nat n)"
  using itoa_nat_digits by blast

lemma page_query:
  "parse_query (''limit=100&offset='' @ itoa_nat n) = [(''limit'', ''100''), (''offset'', itoa_nat n)]"
proof -
  have nd: "\<not> is_digit (CHR ''&'')" "\<not> is_digit (CHR ''='')" by (simp_all add: is_digit_def in_range_def)
  have whole: "''limit=100&offset='' @ itoa_nat n = ''limit=100'' @ CHR ''&'' # (''offset='' @ itoa_nat n)" by simp
  have first: "query_parts (''limit=100'' @ CHR ''&'' # (''offset='' @ itoa_nat n)) = ''limit=100'' # query_parts (''offset='' @ itoa_nat n)"
    by (rule query_parts_append) simp
  have second: "query_parts (''offset='' @ itoa_nat n) = [''offset='' @ itoa_nat n]"
    by (rule query_parts_plain) (simp add: not_in_itoa [OF nd(1)])
  have parts: "query_parts (''limit=100&offset='' @ itoa_nat n) = [''limit=100'', ''offset='' @ itoa_nat n]"
    unfolding whole first second by (rule refl)
  have cuts: "cut ''limit=100'' (CHR ''='') = (''limit'', ''100'', True)"
      "cut (''offset='' @ itoa_nat n) (CHR ''='') = (''offset'', itoa_nat n, True)"
    using cut_at [of "CHR ''=''" "''limit''" "''100''"] cut_at [of "CHR ''=''" "''offset''" "itoa_nat n"] by simp_all
  show ?thesis
    unfolding parse_query_def parts by (simp add: cuts [simplified])
qed

lemma page_of_query:
  assumes "int n \<le> max_int64"
  shows "page_of [(''limit'', ''100''), (''offset'', itoa_nat n)] = Inr (100, int n)"
proof -
  have "parse_int64 ''100'' = Some 100" by code_simp
  moreover have "parse_int64 (itoa_nat n) = Some (int n)"
    using parse_int64_itoa [of "int n"] assms by (simp add: itoa_def)
  ultimately show ?thesis by (simp add: page_of_def page_value_def query_get_def)
qed

definition local_listing :: "(int \<Rightarrow> string) \<Rightarrow> localQueue \<Rightarrow> cliJob list" where
  "local_listing st q = map (cli_view st \<circ> job_of) (list_order (jobs q))"

text \<open>
  A queue at rest whose jobs can be listed: no driver failures, and jobs within the sizes above.
\<close>

definition listable :: "'c setting \<Rightarrow> cliClient \<Rightarrow> 'c socket world \<Rightarrow> bool" where
  "listable env c w \<longleftrightarrow> reaches c (net_state w) \<and> is_local c \<and> wf_queue (queue_of w) \<and> (\<forall>n. driver env n 0 = no_faults) \<and>
     list_all (\<lambda>r. job_fits (show_time env) (job_of r)) (jobs (queue_of w))"

lemma sorted_ints_length:
  "sorted_wrt (<) xs \<Longrightarrow> \<forall>x \<in> set xs. lo \<le> x \<and> x \<le> hi \<Longrightarrow> 0 \<le> hi + 1 - lo \<Longrightarrow> int (length xs) \<le> hi + 1 - lo"
proof -
  assume xs: "sorted_wrt (<) xs" "\<forall>x \<in> set xs. lo \<le> x \<and> x \<le> hi" "0 \<le> hi + 1 - lo"
  then have "length xs = card (set xs)" by (simp add: distinct_card strict_sorted_iff)
  also have "\<dots> \<le> card {lo..hi}" using xs(2) by (intro card_mono) auto
  finally show ?thesis using xs(3) by simp
qed

lemma length_jobs: "wf_queue q \<Longrightarrow> int (length (jobs q)) \<le> max_int64"
proof -
  assume wf: "wf_queue q"
  then have "int (length (map sequence (jobs q))) \<le> last_sequence q + 1 - 1"
    by (intro sorted_ints_length) (auto simp: wf_queue_def wf_row_def list_all_iff)
  with wf show ?thesis by (simp add: wf_queue_def)
qed

lemma decode_all_jobs:
  "(\<And>j. j \<in> set js \<Longrightarrow> decode_job (wire (f j)) = Some (g j)) \<Longrightarrow> decode_all decode_job (map (wire \<circ> f) js) = Some (map g js)"
  by (induction js) simp_all

lemma decode_page:
  assumes "\<And>j. j \<in> set js \<Longrightarrow> decode_job (wire (job_json st j)) = Some (cli_view st j)"
  shows "decode_struct page_field [] (wire (response_json st se (RJobs js))) = Some (map (cli_view st) js)"
  using decode_all_jobs [of js "job_json st" "cli_view st"] assms
  by (simp add: response_json_def decode_struct_def page_field_def same_member decode_slice_def comp_def)

lemma fetch_page_local:
  assumes w: "listable env c w" and offset: "offset \<le> length (local_listing (show_time env) (queue_of w))"
  shows "\<exists>w'. fetch_page (local_net env) c offset w = (Inr (take 100 (drop offset (local_listing (show_time env) (queue_of w)))), w') \<and>
    listable env c w' \<and> queue_of w' = queue_of w \<and> stdout w' = stdout w \<and> out_room w' = out_room w"
proof -
  let ?q = "queue_of w" and ?st = "show_time env"
  let ?rows = "sql_limit 100 (int offset) (list_order (jobs ?q))"
  let ?query = "Some (''limit=100&offset='' @ itoa_nat offset)"
  let ?req = "\<lparr>req_method = ''GET'', req_path = map segment [''jobs''], req_query = query_of ?query,
      req_body = body_of None, req_time = times env (handled (net_state w)), req_faults = driver env (handled (net_state w))\<rparr>"
  from w have l: "reaches c (net_state w)" "wf_queue ?q" "driver env (handled (net_state w)) 0 = no_faults" "is_local c"
    by (auto simp: listable_def)
  have job: "job_fits ?st (job_of r)" if "r \<in> set ?rows" for r
    using w that set_sql_limit [of 100 "int offset" "list_order (jobs ?q)"]
    by (auto simp: list_order_def listable_def list_all_iff)
  have fits: "length (marshal (response_json ?st (show_error env) (RJobs (map job_of ?rows)))) < response_limit c"
    using job by (intro page_fits [OF _ _ l(4)]) (auto simp: sql_limit_def)
  have "int offset \<le> max_int64"
    using offset length_jobs [OF l(2)] by (simp add: local_listing_def list_order_def)
  then have handle: "handle (callback env) ?req RList (?q, srv_cancel (server (net_state w))) =
      (Inr (RJobs (map job_of ?rows)), (?q, srv_cancel (server (net_state w))))"
    using list_jobs_eq [OF l(2), of 100 "int offset"] l(3) page_query [of offset] page_of_query [of offset]
    by (simp add: handle_def query_of_def on_queue_def)
  have "decode_job (wire (job_json ?st (job_of r))) = Some (cli_view ?st (job_of r))" if "r \<in> set ?rows" for r
    using job [OF that] by (intro decode_job_json) (auto simp: job_fits_def)
  then have dec: "decode_struct page_field [] (wire (response_json ?st (show_error env) (RJobs (map job_of ?rows))))
      = Some (map (cli_view ?st) (map job_of ?rows))"
    by (intro decode_page) auto
  have page: "map (cli_view ?st) (map job_of ?rows) = take 100 (drop offset (local_listing ?st ?q))"
    by (simp add: sql_limit_def local_listing_def take_map drop_map)
  have url: "''/jobs?limit=100&offset='' @ itoa_nat offset = split_url [''jobs''] ?query" by (simp add: split_url_def)
  let ?w' = "w\<lparr>net_state := (net_state w)\<lparr>server := (server (net_state w))\<lparr>srv_queue := ?q,
      srv_cancel := srv_cancel (server (net_state w))\<rparr>, handled := Suc (handled (net_state w))\<rparr>\<rparr>"
  have "fetch_page (local_net env) c offset w = (Inr (map (cli_view ?st) (map job_of ?rows)), ?w')"
    unfolding fetch_page_def url
    by (rule request_for_local [where rt = RList and x = "RJobs (map job_of ?rows)", OF l(1)])
      (use handle fits dec in \<open>simp_all add: route_def segment_simps\<close>)
  moreover have "listable env c ?w'" using w by (simp add: listable_def reaches_def)
  ultimately show ?thesis unfolding page by (intro exI [of _ ?w']) simp
qed

text \<open>Nothing but the count of handled requests changes from page to page.\<close>

definition listing_of :: "'c setting \<Rightarrow> cliClient \<Rightarrow> localQueue \<Rightarrow> string list \<Rightarrow> nat \<Rightarrow> 'c socket world \<Rightarrow> bool" where
  "listing_of env c q out room w \<longleftrightarrow> listable env c w \<and> queue_of w = q \<and> stdout w = out \<and> out_room w = room"

interpretation local_pages: paged "fetch_page (local_net env) c" "\<lambda>w. local_listing (show_time env) (queue_of w)"
    "listing_of env c q out room"
  for env :: "'c setting" and c q out room
proof
  fix s :: "'c socket world" and offset
  assume s: "listing_of env c q out room s" "offset \<le> length (local_listing (show_time env) (queue_of s))"
  from fetch_page_local [of env c s offset] s
  show "fst (fetch_page (local_net env) c offset s) = Inr (take 100 (drop offset (local_listing (show_time env) (queue_of s))))"
    and "listing_of env c q out room (snd (fetch_page (local_net env) c offset s)) \<and>
      local_listing (show_time env) (queue_of (snd (fetch_page (local_net env) c offset s))) = local_listing (show_time env) (queue_of s)"
    by (auto simp: listing_of_def)
qed

lemma list_action_local:
  assumes w: "listable env c w" "sys_net sys = local_net env" and room: "length (stdout w) < out_room w"
  shows "\<exists>w'. runJobs sys c ''-l'' [] w = Some (Inr (), w') \<and> queue_of w' = queue_of w \<and>
    stdout w' = stdout w @ [job_table (sys_time sys) (sys_printable sys) (sys_now sys) [local_listing (show_time env) (queue_of w)]]"
proof -
  have "listing_of env c (queue_of w) (stdout w) (out_room w) w" using w(1) by (simp add: listing_of_def)
  from local_pages.fetch_loop_content [OF this, of 0 "[]"]
  obtain w' where w': "fetchJobs (local_net env) c w = Some (Inr (local_listing (show_time env) (queue_of w)), w')"
      "queue_of w' = queue_of w" "stdout w' = stdout w" "out_room w' = out_room w"
    by (auto simp: fetchJobs_def listing_of_def)
  with room show ?thesis
    by (simp add: runJobs_def job_usage_def job_actions_def list_action_def then_do_def total_def w(2) printJobs_def print_out_def)
qed

lemma runJobs_submits:
  assumes c: "reaches c (net_state w)" "is_local c" "sys_net sys = local_net env" "length (stdout w) < out_room w"
    and wf: "wf_queue (queue_of w)" "last_sequence (queue_of w) < max_int64"
    and action: "action \<notin> set job_actions" "submit_command action args = Inr argv"
    and argv: "check_command argv = Inr ()" "list_all valid_utf8 argv"
    and quiet: "driver env (handled (net_state w)) 0 = no_faults" "\<And>t. length (show_time env t) \<le> 64"
  shows "\<exists>w' r. runJobs sys c action args w = Some (Inr (), w') \<and>
    stdout w' = stdout w @ [line (local_id (last_sequence (queue_of w) + 1))] \<and> wf_queue (queue_of w') \<and>
    r \<in> set (jobs (queue_of w')) \<and> sequence r = last_sequence (queue_of w) + 1 \<and> Command (job_of r) = argv \<and>
    waiting (queue_of w') = waiting (queue_of w) @ [last_sequence (queue_of w) + 1]"
proof -
  have "job_usage action args = None" using action(1) by (auto simp: job_usage_def job_actions_def)
  then have "runJobs sys c action args w = Some (submit_action sys c argv w)"
    using action by (simp add: runJobs_def total_def)
  then show ?thesis
    using submit_from_cli [OF c(1,2,3) wf argv quiet c(4)] by simp
qed

section \<open>Properties\<close>

text \<open>A socket for the instances, before the queue of two waiting jobs.\<close>

definition example_setting :: "unit setting" where
  "example_setting = \<lparr>callback = None, times = \<lambda>_. 9, driver = \<lambda>_ _. no_faults, show_time = \<lambda>_. ''t'',
     show_error = \<lambda>_. ''e'', mux_reply = \<lambda>_. NoReply (OtherFailure ''m'')\<rparr>"

definition example_world :: "localQueue \<Rightarrow> unit socket world" where
  "example_world q = \<lparr>net_state = \<lparr>server = \<lparr>srv_queue = q, srv_cancel = (), stopping = False\<rparr>,
      socket_path = ''/s'', handled = 0\<rparr>, stdout = [], out_room = 1, diagnostic = [], diag_room = 1\<rparr>"

definition example_client :: cliClient where
  "example_client = \<lparr>base = ''http://local'', cli_key = [], is_local = True, dials = Some ''/s''\<rparr>"

definition example_system :: "unit socket system" where
  "example_system = \<lparr>sys_net = local_net example_setting, sys_environ = [], sys_env = (\<lambda>_. None), sys_self = Inl [],
     sys_executable = (\<lambda>_. False), sys_lookpath = Inl [], sys_run = (\<lambda>_ _ n. (\<lparr>p_error = None, p_out = [], p_diag = []\<rparr>, n)),
     sys_url = (\<lambda>_. None), sys_time = (\<lambda>_. None), sys_printable = (\<lambda>_. True), sys_now = 0\<rparr>"

lemmas example_defs = example_setting_def example_world_def example_client_def example_system_def

lemma example_reaches: "reaches example_client (net_state (example_world q))" "sys_net example_system = local_net example_setting"
    "length (stdout (example_world q)) < out_room (example_world q)" "queue_of (example_world q) = q"
    "driver example_setting n i = no_faults" "is_local example_client" "length (show_time example_setting t) \<le> 64"
    "handled (net_state (example_world q)) = 0"
  by (simp_all add: example_defs reaches_def)



text \<open>C4. Clearing, removing, swapping and cancelling on the command line are the operations of the
  queue of the same names, carried out on the queue behind the socket and on the job named by the
  argument, whatever its characters: the queue afterwards is the one the operation leaves, and the
  command fails just when the operation does. (The mux takes the names \<open>.\<close> and \<open>..\<close> and the empty
  one for path steps; a swap's names are UTF-8 text of a bounded size.)\<close>

theorem actions_are_queue_operations:
  assumes "reaches c (net_state w)" "sys_net sys = local_net env" "length (stdout w) < out_room w"
    and flt: "flt = driver env (handled (net_state w)) 0"
  shows "performs sys c ''-C'' [] w (clear flt (queue_of w)) \<and>
    (clean_segment a \<longrightarrow> performs sys c ''-r'' [a] w (remove flt a (queue_of w)) \<and>
      (case requestCancel flt (callback env) a (queue_of w, srv_cancel (server (net_state w))) of
        (res, (q', _)) \<Rightarrow> performs sys c ''-k'' [a] w (res, q'))) \<and>
    (a \<noteq> [] \<and> b \<noteq> [] \<and> valid_utf8 a \<and> valid_utf8 b \<and> length a + length b \<le> 100000 \<longrightarrow>
      performs sys c ''-U'' [a, b] w (reorder flt a b (queue_of w)))"
proof -
  obtain res q' c' where cancel: "requestCancel flt (callback env) a (queue_of w, srv_cancel (server (net_state w))) = (res, (q', c'))"
    by (metis prod.collapse)
  then have "clean_segment a \<Longrightarrow> performs sys c ''-k'' [a] w (res, q')"
    unfolding flt by (intro cancel_performs [OF assms(1,2) _ assms(3)])
  then show ?thesis
    using clear_performs [OF assms(1,2)] remove_performs [OF assms(1,2), of a] swap_performs [OF assms(1,2), of a b]
    by (simp add: flt cancel [unfolded flt])
qed

theorem actions_are_queue_operations_witness:
  "performs example_system example_client ''-U'' [''local-2'', ''local-1''] (example_world two_waiting)
     (reorder no_faults ''local-2'' ''local-1'' two_waiting)"
  using actions_are_queue_operations [OF example_reaches(1,2,3) refl, of two_waiting "''local-2''" "''local-1''"]
  by (simp add: example_reaches)

text \<open>C9. Listing the local queue on the command line ends, shows every job of the queue once, in
  the order of the queue (the running ones, the waiting ones in the order in which they will be
  claimed, the finished ones), and changes nothing. A page of the largest jobs fits in what the
  client reads of a reply.\<close>

theorem listing_shows_the_whole_queue:
  assumes "listable env c w" "sys_net sys = local_net env" "length (stdout w) < out_room w"
  shows "\<exists>w' js. runJobs sys c ''-l'' [] w = Some (Inr (), w') \<and> queue_of w' = queue_of w \<and>
    stdout w' = stdout w @ [job_table (sys_time sys) (sys_printable sys) (sys_now sys) [js]] \<and>
    map j_ID js = map local_id (listed (queue_of w)) \<and>
    map j_Command js = map (\<lambda>r. map coerce_utf8 (Command (job_of r))) (list_order (jobs (queue_of w)))"
proof -
  let ?js = "local_listing (show_time env) (queue_of w)"
  have wf: "wf_queue (queue_of w)" using assms(1) by (simp add: listable_def)
  have "coerce_utf8 (ID (job_of r)) = local_id (sequence r)" if "r \<in> set (list_order (jobs (queue_of w)))" for r
  proof -
    from that have r: "r \<in> set (jobs (queue_of w))" by (simp add: list_order_def)
    with wf have "1 \<le> sequence r" using wf_rowD by (auto simp: wf_row_def)
    then show ?thesis using ID_job_of [OF wf_command [OF wf r]] valid_local_id [of "sequence r"] by simp
  qed
  then have "map j_ID ?js = map local_id (listed (queue_of w))"
    by (simp add: local_listing_def cli_view_def listed_eq [OF wf])
  moreover have "map j_Command ?js = map (\<lambda>r. map coerce_utf8 (Command (job_of r))) (list_order (jobs (queue_of w)))"
    by (simp add: local_listing_def cli_view_def)
  ultimately show ?thesis using list_action_local [OF assms] by blast
qed

theorem listing_shows_the_whole_queue_witness:
  "\<exists>w' (js :: cliJob list). runJobs example_system example_client ''-l'' [] (example_world two_waiting) = Some (Inr (), w') \<and>
     map j_ID js = map local_id (listed two_waiting) \<and> queue_of w' = two_waiting"
proof -
  have "trim_space ''ls'' \<noteq> []" "\<not> contains_nul ''ls''" "trim_space ''pwd'' \<noteq> []" "\<not> contains_nul ''pwd''" by code_simp+
  then have cmds: "check_command [''ls''] = Inr ()" "check_command [''pwd''] = Inr ()" by (simp_all add: check_command_def)
  have "length (local_id 1) \<le> 25" "length (local_id 2) \<le> 25" by (simp_all add: length_local_id max_int64_def)
  with cmds have "list_all (\<lambda>r. job_fits (show_time example_setting) (job_of r)) (jobs two_waiting)"
    by (simp add: two_waiting_def new_row_def job_of_def scanLocalJob_def unmarshal_marshal job_fits_def metadata_def
        int64_def max_int64_def example_setting_def)
  then have "listable example_setting example_client (example_world two_waiting)"
    by (simp add: listable_def example_reaches two_waiting_wf)
  from listing_shows_the_whole_queue [OF this example_reaches(2,3)] show ?thesis
    by (simp only: example_reaches) blast
qed

end
