(* ===== verification/CliDispatch.thy ===== *)
theory CliDispatch
  imports CliEnv CliLocalProps
begin

text \<open>
  The entry of the command line, cli/dispatch.go and \<open>env\<close> of cli/root.go, and what its management
  commands run: the \<open>RunE\<close> and \<open>Args\<close> functions of cli/cmd_job.go, cli/cmd_worker.go, cli/cmd_env.go
  and cli/cmd_auth.go. Cobra, which parses the words of a management command and picks the
  function to run, is not under the repository: it is the argument \<open>cobra\<close> of \<open>run\<close>, and what it
  has parsed (the flags \<open>--all\<close>, \<open>--duration\<close>) are arguments of the functions.
\<close>

section \<open>Dispatch\<close>

definition env_or :: "environ \<Rightarrow> string \<Rightarrow> string \<Rightarrow> string" where
  "env_or env key fallback = (case env key of Some v \<Rightarrow> v | None \<Rightarrow> fallback)"

definition default_options :: "environ \<Rightarrow> cliOptions" where
  "default_options env = \<lparr>o_address = env_or env ''JOBD_CONTROLLER'' ''https://jobd-controller.aflashsheng.workers.dev'',
     o_queue = env_or env ''JOBD_QUEUE'' ''default'', o_stateDir = env_or env ''JOBD_STATE_DIR'' ''~/.local/state/jobd-worker'',
     o_local = False\<rparr>"

fun strip_local :: "cliOptions \<Rightarrow> string list \<Rightarrow> cliOptions \<times> string list" where
  "strip_local opts [] = (opts, [])"
| "strip_local opts (a # as) = (if a = ''--local'' then strip_local (opts\<lparr>o_local := True\<rparr>) as else (opts, a # as))"

text \<open>The names of the root's commands: the groups it is given, and the two that Cobra adds.\<close>

definition root_commands :: "string list" where
  "root_commands = [''env'', ''worker'', ''job'', ''auth'', ''help'', ''completion'']"

definition isManagementCommand :: "string \<Rightarrow> bool" where
  "isManagementCommand name \<longleftrightarrow>
     name \<in> {''--version'', ''-h'', ''--help'', ''__complete'', ''__completeNoDesc''} \<or> name \<in> set root_commands"

definition run :: "(cliOptions \<Rightarrow> string list \<Rightarrow> 'w act) \<Rightarrow> 'w system \<Rightarrow> string list \<Rightarrow> 'w act" where
  "run cobra sys args = (case strip_local (default_options (sys_env sys)) args of (opts, rest) \<Rightarrow>
     (case rest of
        [] \<Rightarrow> runAction sys opts ''-l'' []
      | a # as \<Rightarrow> if isManagementCommand a then cobra opts (a # as) else runAction sys opts a as))"

section \<open>Management commands\<close>

definition remote_client :: "'w system \<Rightarrow> cliOptions \<Rightarrow> cli_error + cliClient" where
  "remote_client sys opts = newClient (sys_env sys) (o_address opts) (sys_url sys (o_address opts)) (o_queue opts)"

definition job_command :: "'w system \<Rightarrow> cliOptions \<Rightarrow> string \<Rightarrow> bool \<Rightarrow> string \<Rightarrow> string list \<Rightarrow> 'w act" where
  "job_command sys opts action all input args =
     (if action = ''-r'' \<and> all then
        (if args \<noteq> [] then total (fail (Usage ''job remove --all cannot be combined with a job ID''))
         else total (removeAllJobs sys opts input))
      else runAction sys opts action args)"

definition retry_args :: "bool \<Rightarrow> string list \<Rightarrow> cli_error option" where
  "retry_args all args = (if all \<and> args \<noteq> [] \<or> \<not> all \<and> args = []
     then Some (Usage ''use job retry ID [ID...] or job retry --all'') else None)"

definition retry_command :: "'w system \<Rightarrow> cliOptions \<Rightarrow> bool \<Rightarrow> string list \<Rightarrow> 'w act" where
  "retry_command sys opts all args = (case retry_args all args of
     Some e \<Rightarrow> total (fail e) | None \<Rightarrow> runAction sys opts ''-retry'' args)"

definition worker_command :: "'w system \<Rightarrow> cliOptions \<Rightarrow> string \<Rightarrow> ('w, unit) cli" where
  "worker_command sys opts name =
     (if o_local opts then fail (Usage ''--local selects a job queue, not worker management'')
      else manageWorker sys False (''--'' @ name) (o_address opts) (o_queue opts))"

definition worker_list_command :: "'w system \<Rightarrow> cliOptions \<Rightarrow> ('w, unit) cli" where
  "worker_list_command sys opts =
     (if o_local opts then fail (Usage ''worker list only lists remote workers'')
      else case remote_client sys opts of Inl e \<Rightarrow> fail e | Inr c \<Rightarrow> listWorkers sys c)"

definition worker_pause_command :: "'w system \<Rightarrow> cliOptions \<Rightarrow> string \<Rightarrow> string list \<Rightarrow> ('w, unit) cli" where
  "worker_pause_command sys opts action args =
     (if o_local opts then fail (Usage (''worker '' @ action @ '' only controls remote assignments''))
      else case remote_client sys opts of Inl e \<Rightarrow> fail e
        | Inr c \<Rightarrow> setWorkersPaused sys c args (action = ''pause''))"

text \<open>\<open>env set\<close> reads the terminal between making the client and using it.\<close>

definition env_command :: "'w system \<Rightarrow> cliOptions \<Rightarrow> bool \<Rightarrow> string \<Rightarrow> string list \<Rightarrow> ('w world \<times> terminal, cli_error, unit) op" where
  "env_command sys opts tty name args = (\<lambda>(w, t).
     if o_local opts then (Inl (Usage ''queue environment is not supported in local mode''), (w, t))
     else case remote_client sys opts of Inl e \<Rightarrow> (Inl e, (w, t))
     | Inr c \<Rightarrow>
        (case (if name = ''set'' then readEnvAssignments tty (sys_printable sys) args t else (Inr args, t)) of
           (Inl e, t') \<Rightarrow> (Inl e, (w, t'))
         | (Inr args', t') \<Rightarrow> (case runEnv (sys_net sys) c name args' w of (res, w') \<Rightarrow> (res, (w', t')))))"

record tokenReply =
  tk_token :: string
  tk_expires :: string

definition token_field :: "string \<Rightarrow> json \<Rightarrow> tokenReply \<Rightarrow> tokenReply option" where
  "token_field k v r =
     (if same_name k ''token'' then map_option (\<lambda>s. r\<lparr>tk_token := s\<rparr>) (decode_string (tk_token r) v)
      else if same_name k ''expires_at'' then map_option (\<lambda>s. r\<lparr>tk_expires := s\<rparr>) (decode_string (tk_expires r) v)
      else Some r)"

text \<open>\<open>parsed\<close> is what \<open>time.ParseDuration\<close> makes of the flag, in nanoseconds.\<close>

definition token_lifetime :: "int option \<Rightarrow> int option" where
  "token_lifetime parsed = (case parsed of None \<Rightarrow> None
   | Some ttl \<Rightarrow> if ttl < second \<or> 30 * 24 * 3600 * second < ttl \<or> ttl mod second \<noteq> 0 then None else Some (ttl div second))"

definition create_token_command :: "'w system \<Rightarrow> cliOptions \<Rightarrow> int option \<Rightarrow> ('w, unit) cli" where
  "create_token_command sys opts parsed =
     (let key = trim_space (getenv (sys_env sys) ''JOBD_MASTER_KEY'') in
      if o_local opts then fail (Usage ''worker token generation is not supported in local mode'')
      else if key = [] then fail (MasterKeyRequired ''generate worker tokens'')
      else case token_lifetime parsed of
        None \<Rightarrow> fail (Usage ''duration must be whole seconds between 1s and 720h (30 days)'')
      | Some secs \<Rightarrow>
         (case remote_client sys opts of Inl e \<Rightarrow> fail e
          | Inr c \<Rightarrow>
             if \<not> has_prefix (base c) ''https://'' then fail (Usage ''worker token generation requires HTTPS'')
             else bnd (request_for (sys_net sys) (c\<lparr>cli_key := key\<rparr>) ''POST'' ''/auth/worker-token''
                 (Some (JObject [(''duration_seconds'', JNumber (itoa secs))])) (decode_struct token_field \<lparr>tk_token = [], tk_expires = []\<rparr>))
               (\<lambda>r. if tk_token r = [] \<or> tk_expires r = []
                  then fail (Usage ''controller returned an invalid worker token response'')
                  else bnd (ignoring (print_diag (line (''Worker token for queue '' @ go_quote (sys_printable sys) (o_queue opts) @
                        '' expires at '' @ tk_expires r))))
                    (\<lambda>_. print_out (line (tk_token r))))))"

record verifyReply =
  vf_valid :: bool
  vf_queue :: string
  vf_expires :: string

definition verify_field :: "string \<Rightarrow> json \<Rightarrow> verifyReply \<Rightarrow> verifyReply option" where
  "verify_field k v r =
     (if same_name k ''valid'' then (case v of JBool b \<Rightarrow> Some (r\<lparr>vf_valid := b\<rparr>) | JNull \<Rightarrow> Some r | _ \<Rightarrow> None)
      else if same_name k ''queue'' then map_option (\<lambda>s. r\<lparr>vf_queue := s\<rparr>) (decode_string (vf_queue r) v)
      else if same_name k ''expires_at'' then map_option (\<lambda>s. r\<lparr>vf_expires := s\<rparr>) (decode_string (vf_expires r) v)
      else Some r)"

text \<open>\<open>show_utc\<close> is \<open>UTC().Format(time.RFC3339)\<close>.\<close>

definition verify_token_command :: "'w system \<Rightarrow> (int \<Rightarrow> string) \<Rightarrow> cliOptions \<Rightarrow> ('w, unit) cli" where
  "verify_token_command sys show_utc opts =
     (let token = trim_space (getenv (sys_env sys) ''JOBD_WORKER_TOKEN'') in
      if o_local opts then fail (Usage ''worker token verification is not supported in local mode'')
      else if token = [] then fail (Usage ''JOBD_WORKER_TOKEN is required'')
      else case remote_client sys opts of Inl e \<Rightarrow> fail e
      | Inr c \<Rightarrow>
         if \<not> has_prefix (base c) ''https://'' then fail (Usage ''worker token verification requires HTTPS'')
         else bnd (request_for (sys_net sys) (c\<lparr>cli_key := token\<rparr>) ''GET'' ''/auth/worker-token/verify'' None
             (decode_struct verify_field \<lparr>vf_valid = False, vf_queue = [], vf_expires = []\<rparr>))
           (\<lambda>r. case sys_time sys (vf_expires r) of
              None \<Rightarrow> fail (Usage ''controller returned an invalid worker token verification response'')
            | Some expires \<Rightarrow>
                if \<not> vf_valid r \<or> vf_queue r \<noteq> o_queue opts
                then fail (Usage ''controller returned an invalid worker token verification response'')
                else print_out (line (''Worker token valid for queue '' @ go_quote (sys_printable sys) (vf_queue r)) @
                  line (''Expires at: '' @ show_utc expires) @
                  line (''Remaining: '' @ duration_text (truncate_second (max 0 (sub_time expires (sys_now sys))))))))"

section \<open>Words that are not interpreted\<close>

lemma strip_local_replicate: "strip_local opts (replicate n ''--local'' @ args) =
    strip_local (if n = 0 then opts else opts\<lparr>o_local := True\<rparr>) args"
  by (induction n arbitrary: opts) auto

text \<open>
  After \<open>--\<close>, and after a first word that is no management command, the words go to the action as
  they are: none of them is taken for an option or a command of jobd.
\<close>

lemma run_double_dash:
  "run cobra sys (replicate n ''--local'' @ ''--'' # argv) =
     runAction sys ((default_options (sys_env sys))\<lparr>o_local := (0 < n)\<rparr>) ''--'' argv"
  by (simp add: run_def strip_local_replicate isManagementCommand_def root_commands_def default_options_def)

lemma run_direct:
  "\<not> isManagementCommand name \<Longrightarrow> name \<noteq> ''--local'' \<Longrightarrow>
   run cobra sys (replicate n ''--local'' @ name # argv) =
     runAction sys ((default_options (sys_env sys))\<lparr>o_local := (0 < n)\<rparr>) name argv"
  by (simp add: run_def strip_local_replicate default_options_def)

section \<open>From the words to the queue\<close>

text \<open>
  \<open>jobd-worker --start\<close> when the worker is already running: it succeeds, having asked the socket
  for its health or other things that do not change the server.
\<close>

definition worker_running :: "'c socket system \<Rightarrow> string \<Rightarrow> string \<Rightarrow> 'c socket \<Rightarrow> bool" where
  "worker_running sys address queue n \<longleftrightarrow> (\<exists>b k. workerBinary sys = Inr b \<and>
     sys_run sys [b, ''--start'', ''--controller'', address, ''--queue'', queue] (worker_environ (sys_environ sys)) n =
       (\<lparr>p_error = None, p_out = [], p_diag = []\<rparr>, n\<lparr>handled := k\<rparr>))"

lemma runAction_local:
  fixes sys :: "'c socket system"
  assumes "o_local opts \<or> controllerKey (sys_env sys) = []" "worker_running sys (o_address opts) (o_queue opts) (net_state w)"
    and "newLocalClient (sys_env sys) (o_stateDir opts) = Inr c" "action = ''--'' \<or> \<not> has_prefix action ''-''"
  shows "\<exists>k. runAction sys opts action args w = runJobs sys c action args (w\<lparr>net_state := (net_state w)\<lparr>handled := k\<rparr>\<rparr>)"
proof -
  from assms(2) obtain k where "manageWorker sys True ''--start'' (o_address opts) (o_queue opts) w = (Inr (), w\<lparr>net_state := (net_state w)\<lparr>handled := k\<rparr>\<rparr>)"
    by (auto simp: worker_running_def manageWorker_def)
  moreover have "action \<noteq> ''-l''" using assms(4) by (auto simp: has_prefix_def)
  ultimately show ?thesis using assms by (auto simp: runAction_def Let_def)
qed

lemma submit_through_running_worker:
  fixes sys :: "'c socket system" and n :: nat
  defines "opts \<equiv> (default_options (sys_env sys))\<lparr>o_local := (0 < n)\<rparr>"
  assumes mode: "0 < n \<or> controllerKey (sys_env sys) = []"
    and worker: "worker_running sys (o_address opts) (o_queue opts) (net_state w)"
    and client: "newLocalClient (sys_env sys) (o_stateDir opts) = Inr c" "dials c = Some (socket_path (net_state w))"
      "\<not> stopping (server (net_state w))"
    and net: "sys_net sys = local_net env" "length (stdout w) < out_room w"
    and wf: "wf_queue (queue_of w)" "last_sequence (queue_of w) < max_int64"
    and argv: "check_command argv = Inr ()" "list_all valid_utf8 argv"
    and quiet: "\<And>k. driver env k 0 = no_faults" "\<And>t. length (show_time env t) \<le> 64"
  shows "\<exists>w' r. run cobra sys (replicate n ''--local'' @ ''--'' # argv) w = Some (Inr (), w') \<and>
    stdout w' = stdout w @ [line (local_id (last_sequence (queue_of w) + 1))] \<and> wf_queue (queue_of w') \<and>
    r \<in> set (jobs (queue_of w')) \<and> sequence r = last_sequence (queue_of w) + 1 \<and> Command (job_of r) = argv \<and>
    waiting (queue_of w') = waiting (queue_of w) @ [last_sequence (queue_of w) + 1]"
proof -
  have c: "is_local c" using client(1) by (auto simp: newLocalClient_def split: if_splits sum.splits)
  obtain k where "run cobra sys (replicate n ''--local'' @ ''--'' # argv) w = runJobs sys c ''--'' argv (w\<lparr>net_state := (net_state w)\<lparr>handled := k\<rparr>\<rparr>)"
    using runAction_local [of opts sys w c "''--''" argv] mode worker client(1)
    by (auto simp: run_double_dash opts_def)
  moreover have "reaches c (net_state (w\<lparr>net_state := (net_state w)\<lparr>handled := k\<rparr>\<rparr>))"
    using c client(2,3) by (simp add: reaches_def)
  moreover have "''--'' \<notin> set job_actions" "submit_command ''--'' argv = Inr argv"
    using check_command_size [OF argv(1)] by (simp_all add: job_actions_def submit_command_def)
  ultimately show ?thesis
    using runJobs_submits [of c "w\<lparr>net_state := (net_state w)\<lparr>handled := k\<rparr>\<rparr>" sys env "''--''" argv argv] c net wf argv quiet by simp
qed

end
