(* ===== verification/Deployment.thy ===== *)
theory Deployment
  imports Daemon CliDispatch
begin

text \<open>
  The two programs together: the words and the environment with which the command line runs the
  worker's binary and those with which that starts the detached worker, read back by the worker's
  own \<open>parseConfig\<close>; and the worker's lifecycle commands against its control socket.
\<close>

section \<open>Environments\<close>

text \<open>The variables of a list of entries, of which the first with a name counts.\<close>

definition environ_of :: "string list \<Rightarrow> environ" where
  "environ_of entries = map_of (map (\<lambda>e. case cut e (CHR ''='') of (k, v, _) \<Rightarrow> (k, v)) (filter (\<lambda>e. CHR ''='' \<in> set e) entries))"

lemma environ_of_Cons: "environ_of (e # es) =
   (if CHR ''='' \<in> set e then (environ_of es)(fst (cut e (CHR ''='')) \<mapsto> fst (snd (cut e (CHR ''='')))) else environ_of es)"
  by (auto simp: environ_of_def split: prod.split)

text \<open>The worker has every variable of the command line but the master key.\<close>

lemma environ_of_worker:
  "environ_of (worker_environ es) = (environ_of es)(''JOBD_MASTER_KEY'' := None)"
proof (induction es)
  case Nil
  then show ?case by (simp add: worker_environ_def environ_of_def)
next
  case (Cons e es)
  have split: "worker_environ (e # es) = (if has_prefix e ''JOBD_MASTER_KEY='' then worker_environ es else e # worker_environ es)"
    by (simp add: worker_environ_def)
  show ?case
  proof (cases "has_prefix e ''JOBD_MASTER_KEY=''")
    case True
    then obtain v where e: "e = ''JOBD_MASTER_KEY'' @ CHR ''='' # v" by (auto simp: has_prefix_iff)
    have "cut e (CHR ''='') = (''JOBD_MASTER_KEY'', v, True)" unfolding e by (rule cut_at) simp
    moreover have "CHR ''='' \<in> set e" by (simp add: e)
    moreover have "worker_environ (e # es) = worker_environ es" using True by (simp only: split if_True)
    ultimately show ?thesis using Cons by (simp add: environ_of_Cons fun_eq_iff)
  next
    case False
    have "fst (cut e (CHR ''='')) \<noteq> ''JOBD_MASTER_KEY''" if eq: "CHR ''='' \<in> set e"
    proof
      assume k: "fst (cut e (CHR ''='')) = ''JOBD_MASTER_KEY''"
      from eq obtain a b where ab: "e = a @ CHR ''='' # b" "CHR ''='' \<notin> set a" by (meson split_list_first)
      with k have "a = ''JOBD_MASTER_KEY''" by (simp add: cut_at)
      with ab False show False by (simp add: has_prefix_iff)
    qed
    with Cons False show ?thesis by (auto simp: split environ_of_Cons fun_upd_twist)
  qed
qed

section \<open>Command lines\<close>

text \<open>What \<open>--name value\<close> and \<open>--action\<close> are to package flag.\<close>

lemma flag_word_long:
  "flag_word ''--controller'' = Flag ''controller'' None" "flag_word ''--queue'' = Flag ''queue'' None"
  "flag_word ''--state-dir'' = Flag ''state-dir'' None" "flag_word ''--poll-interval'' = Flag ''poll-interval'' None"
  "flag_word ''--heartbeat-interval'' = Flag ''heartbeat-interval'' None" "flag_word ''--start'' = Flag ''start'' None"
  "flag_word ''--stop'' = Flag ''stop'' None" "flag_word ''--restart'' = Flag ''restart'' None"
  by (simp_all add: flag_word_def cut_def)

lemmas flag_simps = flag_word_long set_flag_def bool_flags_def value_flags_def ParseBool_def


lemma default_settings: "envDefault = env_or"
  by (simp add: fun_eq_iff envDefault_def env_or_def)

text \<open>The words of the command line's \<open>manageWorker\<close>, read by the worker.\<close>

lemma parseConfig_managed:
  assumes "name \<in> set bool_flags" "ParseBool (envDefault env ''JOBD_LOCAL_PERSIST'' ''false'') = Some persist"
    and "envDefault env ''JOBD_STATE_DIR'' ''~/.local/state/jobd-worker'' \<noteq> []"
    and "expand_home (home_dir env) (envDefault env ''JOBD_STATE_DIR'' ''~/.local/state/jobd-worker'') = Inr dir"
  shows "parseConfig env parse_float [''--'' @ name, ''--controller'', address, ''--queue'', queue] = Inr
    \<lparr>Action = name, Controller = address, Queue = queue, StateDir = dir, LocalPersist = persist,
     PollInterval = 5000000000, HeartbeatInterval = 15000000000\<rparr>"
proof -
  have bits: "bits 5000000000 = 32" "bits 15000000000 = 33" by (simp_all add: bits.simps)
  have times: "positiveSeconds (Finite 5) = Some 5000000000" "positiveSeconds (Finite 15) = Some 15000000000"
    by (simp_all add: positiveSeconds_def nearest_def Let_def bits round_half_even_def)
  show ?thesis
    using assms unfolding parseConfig_def
    by (auto simp: flag_simps chosen_def flag_defaults_def times)
qed

lemma managed_config:
  assumes "name \<in> {''start'', ''stop'', ''restart''}" "sys_env sys = environ_of (sys_environ sys)"
    and "newLocalClient (sys_env sys) (o_stateDir (default_options (sys_env sys))) = Inr c"
    and "ParseBool (envDefault (sys_env sys) ''JOBD_LOCAL_PERSIST'' ''false'') = Some persist"
  shows "\<exists>cfg. parseConfig (environ_of (worker_environ (sys_environ sys))) parse_float
      [''--'' @ name, ''--controller'', address, ''--queue'', queue] = Inr cfg \<and>
    Action cfg = name \<and> Controller cfg = address \<and> Queue cfg = queue \<and>
    dials c = Some (Join [StateDir cfg, ''local'', ''control.sock'']) \<and>
    environ_of (worker_environ (sys_environ sys)) ''JOBD_MASTER_KEY'' = None"
proof -
  let ?env = "sys_env sys" and ?env' = "environ_of (worker_environ (sys_environ sys))"
  let ?dir = "envDefault ?env ''JOBD_STATE_DIR'' ''~/.local/state/jobd-worker''"
  have env: "?env' = ?env(''JOBD_MASTER_KEY'' := None)" using environ_of_worker assms(2) by metis
  then have same: "envDefault ?env' ''JOBD_STATE_DIR'' d = envDefault ?env ''JOBD_STATE_DIR'' d"
      "envDefault ?env' ''JOBD_LOCAL_PERSIST'' d = envDefault ?env ''JOBD_LOCAL_PERSIST'' d" "home_dir ?env' = home_dir ?env" for d
    by (simp_all add: envDefault_def home_dir_def)
  from assms(3) obtain dir where dir: "?dir \<noteq> []" "expand_home (user_home ?env) ?dir = Inr dir"
      "dials c = Some (Join [dir, ''local'', ''control.sock''])"
    by (auto simp: newLocalClient_def default_options_def default_settings split: if_splits sum.splits)
  then have "expand_home (home_dir ?env) ?dir = Inr dir"
    by (auto simp: expand_home_def home_dir_def user_home_def getenv_def split: if_splits sum.splits option.splits)
  then show ?thesis
    using parseConfig_managed [of name ?env' persist dir parse_float address queue] assms(1,4) dir env same
    by (auto simp: bool_flags_def)
qed


section \<open>The lifecycle commands and the control socket\<close>

text \<open>The socket that the commands for a state directory talk to.\<close>

definition meets :: "'c socket machine \<Rightarrow> 'c setting \<Rightarrow> string \<Rightarrow> 'c socket \<Rightarrow> bool" where
  "meets m env dir n \<longleftrightarrow> (\<forall>t. net_for m t = local_net env) \<and> socket_path n = Join [dir, ''local'', ''control.sock'']"

lemma exchange_literal:
  assumes "h_dial h = Some (socket_path s)" "h_path h = CHR ''/'' # join segs ''/''" "segs \<noteq> []" "list_all literal segs"
  shows "local_exchange env h s =
    (case serve (callback env) \<lparr>req_method = h_method h, req_path = segs, req_query = [], req_body = body_of (h_body h),
        req_time = times env (handled s), req_faults = driver env (handled s)\<rparr> (server s) of (r, srv) \<Rightarrow>
      (from_server env h r, s\<lparr>server := srv, handled := Suc (handled s)\<rparr>))"
proof -
  have segs: "CHR ''/'' \<notin> set p" "CHR ''?'' \<notin> set p" "clean_segment p" "segment p = p" if "p \<in> set segs" for p
    using that assms(4) literal_simps [of p] by (auto simp: list_all_iff sound_segment_def)
  have "set (join segs ''/'') \<subseteq> \<Union> (set ` set segs) \<union> {CHR ''/''}"
    by (induction segs "''/''" rule: join.induct) auto
  then have "CHR ''?'' \<notin> set (h_path h)" using assms(2) segs(2) by auto
  moreover have "path_parts (join segs ''/'') = segs" using segs assms(3) by (intro path_parts_join) auto
  moreover have "parse_query [] = []" by (simp add: parse_query_def)
  moreover have "map segment segs = segs" using segs(4) by (auto intro: map_idI)
  ultimately show ?thesis
    using assms(1,2) segs(3) by (simp add: local_exchange_def cut_none to_server_def list_all_iff split: prod.split)
qed

lemma words_literal: "literal ''health''" "literal ''daemon''" "literal ''stop''"
  by (simp_all add: literal_def in_range_def)

lemma short_words: "\<not> 4088 < length (json_string ''ok'')" "\<not> 4092 < length (json_string ''status'') + length (json_string ''ok'')"
  using length_json_string [of "''ok''"] length_json_string [of "''status''"] by simp_all

text \<open>The health of a worker, asked over its socket.\<close>

lemma health_request:
  assumes "meets m env dir (rest h)"
  shows "workerAvailable m dir h =
    ((if stopping (server (rest h))
      then Inl (HealthCheckFailed (BadStatus ''GET'' ''/health'' ''503 Service Unavailable'' ''worker is stopping'')) else Inr True),
     logged health_check (h\<lparr>rest := (rest h)\<lparr>handled := Suc (handled (rest h))\<rparr>\<rparr>))"
proof -
  let ?n = "rest h"
  let ?r = "\<lparr>h_method = ''GET'', h_base = ''http://local'', h_path = ''/health'',
      h_dial = Some (Join [dir, ''local'', ''control.sock'']), h_authorization = None, h_body = None\<rparr>"
  have route: "route ''GET'' [''health''] = Some RHealth" by (simp add: route_def)
  have ex: "local_exchange env ?r ?n = (from_server env ?r (if stopping (server ?n) then Reply 503 None else Reply 200 (Some (Inr ROk))),
      ?n\<lparr>handled := Suc (handled ?n)\<rparr>)"
    using assms by (subst exchange_literal [of _ _ "[''health'']"])
      (simp_all add: meets_def words_literal serve_def route handle_def)
  have "trim_space (line ''worker is stopping'') = ''worker is stopping''" by code_simp
  then show ?thesis
    using assms ex by (simp add: meets_def workerAvailable_def daemonRequest_def local_net_def from_server_def check_daemon_reply_def
        response_json_def short_words health_of_def decode_struct_def status_field_def same_name_def decode_string_def no_worker_def logged_def)
qed

lemma health_absent:
  assumes "\<And>t. net_for m t = local_net env" "socket_path (rest h) \<noteq> Join [dir, ''local'', ''control.sock'']"
  shows "workerAvailable m dir h = (Inr False, logged health_check h)"
  using assms by (simp add: workerAvailable_def daemonRequest_def local_net_def local_exchange_def check_daemon_reply_def no_worker_def logged_def)

lemma stop_over_socket:
  assumes "meets m env dir (rest h)"
  shows "\<exists>v. daemonRequest m dir ''POST'' ''/daemon/stop'' t h = (Inr v, logged stop_request
    (h\<lparr>rest := (rest h)\<lparr>server := (server (rest h))\<lparr>stopping := True\<rparr>, handled := Suc (handled (rest h))\<rparr>\<rparr>))"
proof -
  let ?n = "rest h"
  let ?r = "\<lparr>h_method = ''POST'', h_base = ''http://local'', h_path = ''/daemon/stop'',
      h_dial = Some (Join [dir, ''local'', ''control.sock'']), h_authorization = None, h_body = None\<rparr>"
  have route: "route ''POST'' [''daemon'', ''stop''] = Some RStop" by (simp add: route_def)
  have "local_exchange env ?r ?n = (from_server env ?r (Reply 200 (Some (Inr RStopping))),
      ?n\<lparr>server := (server ?n)\<lparr>stopping := True\<rparr>, handled := Suc (handled ?n)\<rparr>)"
    using assms by (subst exchange_literal [of _ _ "[''daemon'', ''stop'']"])
      (simp_all add: meets_def words_literal serve_def route)
  then show ?thesis
    using assms by (simp add: meets_def daemonRequest_def local_net_def from_server_def check_daemon_reply_def
        response_json_def short_words logged_def)
qed

text \<open>C30. The lifecycle commands and the control socket fit together: over the socket of its state
  directory a running worker is seen as available and is not disturbed; where no worker has that
  socket none is seen; and the stop request is accepted and sets the worker stopping, after which
  its health check is an error that names the reason, so that nothing takes it for available.\<close>

theorem lifecycle_commands_meet_the_socket:
  assumes "\<And>t. net_for m t = local_net env"
  shows "(if socket_path (rest h) \<noteq> Join [dir, ''local'', ''control.sock'']
     then fst (workerAvailable m dir h) = Inr False \<and> rest (snd (workerAvailable m dir h)) = rest h
     else (fst (workerAvailable m dir h) = Inr True \<longleftrightarrow> \<not> stopping (server (rest h))) \<and>
       fst (workerAvailable m dir h) \<noteq> Inr False \<and> server (rest (snd (workerAvailable m dir h))) = server (rest h) \<and>
       (\<exists>v h'. daemonRequest m dir ''POST'' ''/daemon/stop'' t h = (Inr v, h') \<and>
         server (rest h') = (server (rest h))\<lparr>stopping := True\<rparr> \<and>
         fst (workerAvailable m dir h') = Inl (HealthCheckFailed (BadStatus ''GET'' ''/health'' ''503 Service Unavailable'' ''worker is stopping''))))"
proof (cases "socket_path (rest h) = Join [dir, ''local'', ''control.sock'']")
  case False
  then show ?thesis using health_absent [OF assms] by (simp add: logged_def)
next
  case True
  then have meets: "meets m env dir (rest h)" using assms by (simp add: meets_def)
  from stop_over_socket [OF meets, of t] obtain v h' where stop: "daemonRequest m dir ''POST'' ''/daemon/stop'' t h = (Inr v, h')"
      "server (rest h') = (server (rest h))\<lparr>stopping := True\<rparr>" "socket_path (rest h') = socket_path (rest h)"
    by (auto simp: logged_def)
  then have "meets m env dir (rest h')" using meets by (simp add: meets_def)
  from health_request [OF this] health_request [OF meets] stop True show ?thesis by (simp add: logged_def)
qed

section \<open>The worker's binary\<close>

text \<open>
  \<open>main\<close> of worker/main.go as a process: \<open>usage\<close> is what package flag writes for an error of its
  own, \<open>log\<close> the line of \<open>slog.Error\<close>, and \<open>serve_jobs\<close> what running without an action does.
\<close>

record 'w binary =
  b_machine :: "'w machine"
  b_float :: "string \<Rightarrow> float64 option"
  b_url :: "string \<Rightarrow> url option"
  b_usage :: "config_error \<Rightarrow> string list"
  b_log :: "config_error + daemon_error \<Rightarrow> string"
  b_serve :: "config \<Rightarrow> 'w \<Rightarrow> (process \<times> 'w) option"

definition failed_process :: "string list \<Rightarrow> string list \<Rightarrow> process" where
  "failed_process prints diag = \<lparr>p_error = Some ''exit status 1'', p_out = prints, p_diag = diag\<rparr>"

definition printed :: "event list \<Rightarrow> string list" where
  "printed evs = concat (map (\<lambda>e. case e of Printed s \<Rightarrow> [s] | _ \<Rightarrow> []) evs)"

definition worker_main :: "'w binary \<Rightarrow> string list \<Rightarrow> string list \<Rightarrow> 'w \<Rightarrow> (process \<times> 'w) option" where
  "worker_main b args entries n = (case parseConfig (environ_of entries) (b_float b) args of
     Inl e \<Rightarrow> Some (if e = FlagHelp then \<lparr>p_error = None, p_out = [], p_diag = b_usage b e\<rparr>
       else failed_process [] (b_usage b e @ [b_log b (Inl e)]), n)
   | Inr c \<Rightarrow>
      if Action c \<noteq> [] then
        (case manageDaemon (b_machine b) (getenv (environ_of entries) ''JOBD_WORKER_TOKEN'') (b_url b (Controller c)) c
            \<lparr>rest = n, trace = []\<rparr> of
           None \<Rightarrow> None
         | Some (Inl e, h) \<Rightarrow> Some (failed_process (printed (trace h)) [b_log b (Inr e)], rest h)
         | Some (Inr _, h) \<Rightarrow> Some (\<lparr>p_error = None, p_out = printed (trace h), p_diag = []\<rparr>, rest h))
      else b_serve b c n)"

text \<open>The system of the command line, when the binary it runs is this one.\<close>

definition runs_binary :: "'w system \<Rightarrow> 'w binary \<Rightarrow> bool" where
  "runs_binary sys b \<longleftrightarrow> (\<exists>path. workerBinary sys = Inr path) \<and> sys_env sys = environ_of (sys_environ sys) \<and>
     (\<forall>path args entries n p. worker_main b args entries n = Some p \<longrightarrow> sys_run sys (path # args) entries n = p)"

lemma binary_finds_worker:
  assumes b: "runs_binary sys b" and net: "\<And>t. net_for (b_machine b) t = local_net env"
    and client: "newLocalClient (sys_env sys) (o_stateDir (default_options (sys_env sys))) = Inr c" "dials c = Some (socket_path n)"
    and persist: "ParseBool (envDefault (sys_env sys) ''JOBD_LOCAL_PERSIST'' ''false'') \<noteq> None" and live: "\<not> stopping (server n)"
  shows "worker_running sys address queue n"
proof -
  from persist obtain p where p: "ParseBool (envDefault (sys_env sys) ''JOBD_LOCAL_PERSIST'' ''false'') = Some p" by blast
  from b have env: "sys_env sys = environ_of (sys_environ sys)" by (simp add: runs_binary_def)
  from managed_config [of "''start''", OF _ env client(1) p, of "b_float b" address queue]
  obtain cfg where cfg: "parseConfig (environ_of (worker_environ (sys_environ sys))) (b_float b)
      [''--start'', ''--controller'', address, ''--queue'', queue] = Inr cfg" "Action cfg = ''start''"
      "dials c = Some (Join [StateDir cfg, ''local'', ''control.sock''])" by auto
  have "meets (b_machine b) env (StateDir cfg) (rest \<lparr>rest = n, trace = []\<rparr>)" using net client(2) cfg(3) by (simp add: meets_def)
  from health_request [OF this] live have "worker_main b [''--start'', ''--controller'', address, ''--queue'', queue] (worker_environ (sys_environ sys)) n
      = Some (\<lparr>p_error = None, p_out = [], p_diag = []\<rparr>, n\<lparr>handled := Suc (handled n)\<rparr>)"
    by (simp add: worker_main_def cfg manageDaemon_def ensureWorker_def logged_def printed_def)
  with b show ?thesis by (auto simp: worker_running_def runs_binary_def)
qed

text \<open>\<open>jobd -- COMMAND ARGS\<close>, with any number of \<open>--local\<close> before it, in local mode: the words after
  the dashes are submitted as they are, even when they are names of management commands or look
  like options. The worker's binary is run first and finds the worker that holds the socket of the
  state directory; then the command becomes the last waiting job of that worker's queue, word for
  word, under a fresh identifier, and that identifier is all that is printed.\<close>

theorem command_line_submits_verbatim:
  fixes sys :: "'c socket system" and n :: nat
  assumes mode: "0 < n \<or> controllerKey (sys_env sys) = []"
    and binary: "runs_binary sys b" "\<And>t. net_for (b_machine b) t = local_net env"
      "ParseBool (envDefault (sys_env sys) ''JOBD_LOCAL_PERSIST'' ''false'') \<noteq> None"
    and client: "newLocalClient (sys_env sys) (o_stateDir (default_options (sys_env sys))) = Inr c"
      "dials c = Some (socket_path (net_state w))" "\<not> stopping (server (net_state w))"
    and net: "sys_net sys = local_net env" "length (stdout w) < out_room w"
    and wf: "wf_queue (queue_of w)" "last_sequence (queue_of w) < max_int64"
    and argv: "check_command argv = Inr ()" "list_all valid_utf8 argv"
    and quiet: "\<And>k. driver env k 0 = no_faults" "\<And>t. length (show_time env t) \<le> 64"
  shows "\<exists>w' r. run cobra sys (replicate n ''--local'' @ ''--'' # argv) w = Some (Inr (), w') \<and>
    stdout w' = stdout w @ [line (local_id (last_sequence (queue_of w) + 1))] \<and> wf_queue (queue_of w') \<and>
    r \<in> set (jobs (queue_of w')) \<and> sequence r = last_sequence (queue_of w) + 1 \<and> Command (job_of r) = argv \<and>
    waiting (queue_of w') = waiting (queue_of w) @ [last_sequence (queue_of w) + 1]"
  using submit_through_running_worker [of n sys w c env argv cobra] binary_finds_worker [OF binary(1,2) client(1,2) binary(3) client(3)]
    mode client net wf argv quiet by simp

section \<open>Instances\<close>

definition home_environ :: "string list" where
  "home_environ = [''JOBD_STATE_DIR=/d'', ''JOBD_MASTER_KEY=k'']"

definition socket_machine :: "unit socket machine" where
  "socket_machine = \<lparr>net_for = (\<lambda>_. local_net example_setting), clock = (\<lambda>_. 0), pause = (\<lambda>_ n. n), call_error = (\<lambda>_. None),
     self_path = Inr ''/b/jobd-worker'', spawn = (\<lambda>_ n. (Inr (), n)), child_exit = (\<lambda>_. None), signal_child = (\<lambda>n. n),
     dir_found = (\<lambda>_. DirFound), flock = (\<lambda>n. (LockBusy, n)), close_lock = (\<lambda>n. n), show_seconds = (\<lambda>_. ''2.5'')\<rparr>"

definition home_binary :: "unit socket binary" where
  "home_binary = \<lparr>b_machine = socket_machine, b_float = example_floats, b_url = (\<lambda>_. None), b_usage = (\<lambda>_. []),
     b_log = (\<lambda>_. []), b_serve = (\<lambda>_ _. None)\<rparr>"

definition home_system :: "unit socket system" where
  "home_system = example_system\<lparr>sys_self := Inr ''/b/jobd'', sys_executable := (\<lambda>_. True), sys_environ := home_environ,
     sys_env := environ_of home_environ, sys_run := (\<lambda>argv entries n. case worker_main home_binary (tl argv) entries n of
       Some p \<Rightarrow> p | None \<Rightarrow> (failed_process [] [], n))\<rparr>"

definition home_world :: "unit socket world" where
  "home_world = (example_world two_waiting)\<lparr>net_state := (net_state (example_world two_waiting))\<lparr>socket_path := ''/d/local/control.sock''\<rparr>\<rparr>"

lemma home_env: "environ_of home_environ = [''JOBD_STATE_DIR'' \<mapsto> ''/d'', ''JOBD_MASTER_KEY'' \<mapsto> ''k'']"
  by (simp add: home_environ_def environ_of_def cut_def fun_eq_iff)

lemma home_client:
  "newLocalClient (environ_of home_environ) (o_stateDir (default_options (environ_of home_environ)))
     = Inr \<lparr>base = ''http://local'', cli_key = [], is_local = True, dials = Some ''/d/local/control.sock''\<rparr>"
proof -
  have "Join [''/d'', ''local'', ''control.sock''] = ''/d/local/control.sock''" by code_simp
  then show ?thesis
    by (simp add: home_env newLocalClient_def default_options_def env_or_def expand_home_def has_prefix_def)
qed

lemma home_persist: "ParseBool (envDefault (environ_of home_environ) ''JOBD_LOCAL_PERSIST'' ''false'') = Some False"
  by (simp add: home_env envDefault_def ParseBool_def)

lemma home_runs_binary: "runs_binary home_system home_binary"
  by (simp add: runs_binary_def home_system_def example_system_def workerBinary_def)

lemma home_facts: "sys_env home_system = environ_of home_environ" "sys_environ home_system = home_environ"
    "sys_net home_system = local_net example_setting" "net_for socket_machine t = local_net example_setting"
    "net_for (b_machine home_binary) t = local_net example_setting" "queue_of home_world = two_waiting"
    "socket_path (net_state home_world) = ''/d/local/control.sock''" "\<not> stopping (server (net_state home_world))"
    "length (stdout home_world) < out_room home_world" "last_sequence two_waiting = 2"
  by (simp_all add: home_system_def home_binary_def socket_machine_def home_world_def example_defs two_waiting_def)

lemma home_submits:
  "check_command [''env'', ''--all''] = Inr ()" "list_all valid_utf8 [''env'', ''--all'']"
  "ParseBool (envDefault (sys_env home_system) ''JOBD_LOCAL_PERSIST'' ''false'') \<noteq> None"
  "newLocalClient (sys_env home_system) (o_stateDir (default_options (sys_env home_system)))
     = Inr \<lparr>base = ''http://local'', cli_key = [], is_local = True, dials = Some ''/d/local/control.sock''\<rparr>"
  "wf_queue (queue_of home_world)" "last_sequence (queue_of home_world) < max_int64"
  "driver example_setting k 0 = no_faults" "length (show_time example_setting t) \<le> 64"
proof -
  have "trim_space ''env'' \<noteq> []" "\<not> contains_nul ''env''" "\<not> contains_nul ''--all''" by code_simp+
  then show "check_command [''env'', ''--all''] = Inr ()" by (simp add: check_command_def)
qed (simp_all add: home_facts home_persist home_client two_waiting_wf max_int64_def example_reaches)



theorem lifecycle_commands_meet_the_socket_witness:
  "fst (workerAvailable socket_machine ''/d'' \<lparr>rest = net_state home_world, trace = []\<rparr>) = Inr True \<and>
   fst (workerAvailable socket_machine ''/e'' \<lparr>rest = net_state home_world, trace = []\<rparr>) = Inr False"
proof -
  have "Join [''/d'', ''local'', ''control.sock''] = ''/d/local/control.sock''"
    "Join [''/e'', ''local'', ''control.sock''] = ''/e/local/control.sock''" by code_simp+
  then show ?thesis
    using lifecycle_commands_meet_the_socket [OF home_facts(4), of "\<lparr>rest = net_state home_world, trace = []\<rparr>" "''/d''"]
      lifecycle_commands_meet_the_socket [OF home_facts(4), of "\<lparr>rest = net_state home_world, trace = []\<rparr>" "''/e''"]
    by (simp add: home_facts)
qed

theorem command_line_submits_verbatim_witness:
  "\<exists>w'. run (\<lambda>_ _ _. None) home_system [''--local'', ''--'', ''env'', ''--all''] home_world = Some (Inr (), w') \<and>
     waiting (queue_of w') = [1, 2, 3]"
  using command_line_submits_verbatim [OF _ home_runs_binary home_facts(5) home_submits(3,4) _ home_facts(8,3,9) home_submits(5,6,1,2,7,8),
      of 1 "\<lambda>_ _ _. None"] by (auto simp: home_facts)

end
