(* ===== verification/JobEnvironment.thy ===== *)
theory JobEnvironment
  imports Executor
begin

text \<open>
  The environment that a job sees (worker/executor_linux.go). \<open>exec.Cmd\<close> gives the process, of the
  entries that set the same variable, the last one only.
\<close>

text \<open>The value of a variable in the process: what is behind the name in the last entry with it.\<close>

definition process_env :: "string list \<Rightarrow> string \<Rightarrow> string option" where
  "process_env entries n = (case rev (filter (\<lambda>e. has_prefix e (n @ ''='')) entries) of
     [] \<Rightarrow> None | e # _ \<Rightarrow> Some (drop (Suc (length n)) e))"

text \<open>A job that runs is started with its own command and environment or not at all.\<close>

lemma executeJob_started:
  assumes "Started argv envv \<in> set (snd (fst (executeJob outp exempt txt grace h env j s)))"
  shows "argv = Command j \<and> envv = jobEnvironment (os_environ env @ map (\<lambda>(n, v). n @ ''='' @ v) (queueEnv j))"
  using assms
  by (auto simp: executeJob_def Let_def case_prod_beta dest!: execute_started split: sum.splits option.splits if_splits)

text \<open>Two names at the front of an entry, each before an equals sign, are the same.\<close>

lemma entry_name:
  assumes "CHR ''='' \<notin> set n" "CHR ''='' \<notin> set m"
  shows "has_prefix (m @ ''='' @ v) (n @ ''='') \<longleftrightarrow> m = n"
proof
  assume "has_prefix (m @ ''='' @ v) (n @ ''='')"
  then obtain t where t: "m @ CHR ''='' # v = n @ CHR ''='' # t" by (auto simp: has_prefix_iff)
  have "takeWhile (\<lambda>c. c \<noteq> CHR ''='') (k @ CHR ''='' # u) = k" if "CHR ''='' \<notin> set k" for k u
    using that by (simp add: takeWhile_append)
  from this [OF assms(2), of v] this [OF assms(1), of t] t show "m = n" by simp
qed (auto simp: has_prefix_iff)

lemma entry_unique_name:
  assumes "has_prefix e (n @ ''='')" "has_prefix e (m @ ''='')" "CHR ''='' \<notin> set n" "CHR ''='' \<notin> set m"
  shows "m = n"
  using assms entry_name [of n m] by (auto simp: has_prefix_iff [of e "m @ ''=''"])

text \<open>The entries of a variable, among those of the queue and among all.\<close>

lemma queue_entries:
  assumes "distinct (map fst qs)" "\<forall>(m, v) \<in> set qs. CHR ''='' \<notin> set m" "CHR ''='' \<notin> set n"
  shows "filter (\<lambda>e. has_prefix e (n @ ''='')) (map (\<lambda>(m, v). m @ ''='' @ v) qs) =
    (case map_of qs n of None \<Rightarrow> [] | Some v \<Rightarrow> [n @ ''='' @ v])"
  using assms(1,2)
proof (induction qs)
  case (Cons q qs)
  obtain m v where q: "q = (m, v)" by (cases q)
  have "map_of qs n = None" if "m = n" using Cons.prems(1) that q by (auto simp: map_of_eq_None_iff)
  with Cons q entry_name [OF assms(3), of m v] show ?case by auto
qed simp

lemma reserved_entries:
  assumes "CHR ''='' \<notin> set n"
  shows "filter (\<lambda>e. has_prefix e (n @ ''='')) (jobEnvironment es) =
    (if n \<in> {''JOBD_WORKER_TOKEN'', ''JOBD_MASTER_KEY''} then [] else filter (\<lambda>e. has_prefix e (n @ ''='')) es)"
proof (cases "n \<in> {''JOBD_WORKER_TOKEN'', ''JOBD_MASTER_KEY''}")
  case False
  have "has_prefix e (n @ ''='') \<Longrightarrow> \<not> has_prefix e ''JOBD_WORKER_TOKEN='' \<and> \<not> has_prefix e ''JOBD_MASTER_KEY=''" for e
    using entry_unique_name [of e n "''JOBD_WORKER_TOKEN''"] entry_unique_name [of e n "''JOBD_MASTER_KEY''"] assms False by auto
  then show ?thesis using False unfolding jobEnvironment_def filter_filter by (auto intro!: filter_cong)
qed (auto simp: jobEnvironment_def filter_empty_conv)

text \<open>C13. The environment of a job. A process started for a job sees the worker's environment,
  overridden by the variables of the queue, and whatever either of them says it sees neither the
  worker token nor the master key.\<close>

theorem jobs_see_the_queue_environment:
  assumes "Started argv envv \<in> set (snd (fst (executeJob outp exempt txt grace h env j s)))"
    and "distinct (map fst (queueEnv j))" "\<forall>(m, v) \<in> set (queueEnv j). CHR ''='' \<notin> set m" "CHR ''='' \<notin> set n"
  shows "process_env envv n =
    (if n \<in> {''JOBD_WORKER_TOKEN'', ''JOBD_MASTER_KEY''} then None
     else case map_of (queueEnv j) n of Some v \<Rightarrow> Some v | None \<Rightarrow> process_env (os_environ env) n)"
proof -
  have "envv = jobEnvironment (os_environ env @ map (\<lambda>(n, v). n @ ''='' @ v) (queueEnv j))"
    using executeJob_started [OF assms(1)] by blast
  then show ?thesis
    using queue_entries [OF assms(2-4)] reserved_entries [OF assms(4)]
    by (simp add: process_env_def split: option.split)
qed

definition queue_job :: job where
  "queue_job = \<lparr>queueEnv = [(''A'', ''queue''), (''JOBD_MASTER_KEY'', ''x'')], ID = ''7'', Status = ''running'', Command = [''env''],
     CreatedAt = 5, StartedAt = Some 7, FinishedAt = None, WorkerID = [], Hostname = [], OutputPath = [], ExitCode = None,
     Error = [], CancelRequested = 0\<rparr>"

definition host_environment :: "unit surroundings" where
  "host_environment = \<lparr>temp_file = Inr ''/tmp/jobd-1.log'', os_environ = [''A=own'', ''B=worker'', ''JOBD_MASTER_KEY=k''],
     outcome = Exited 0 None, world = \<lambda>_ s. s\<rparr>"

theorem jobs_see_the_queue_environment_witness:
  "\<exists>envv. Started [''env''] envv \<in> set (snd (fst (executeJob (\<lambda>_ _ s. (Inr (), s)) (\<lambda>_. False) (\<lambda>e. e) 5 0 host_environment queue_job
       ((), (idle, background))))) \<and>
     process_env envv ''A'' = Some ''queue'' \<and> process_env envv ''B'' = Some ''worker'' \<and>
     process_env envv ''JOBD_MASTER_KEY'' = None"
proof -
  let ?eff = "snd (fst (executeJob (\<lambda>_ _ s. (Inr (), s)) (\<lambda>_. False) (\<lambda>e. e) 5 0 host_environment queue_job ((), (idle, background))))"
  have "job_cause 0 ((), (idle, background)) = None" by (simp add: job_cause_def background_def cause_of_def)
  then obtain envv where started: "Started [''env''] envv \<in> set ?eff"
    by (auto simp: executeJob_def Let_def host_environment_def queue_job_def on_backend_def execute_def)
  have names: "distinct (map fst (queueEnv queue_job))" "\<forall>(m, v) \<in> set (queueEnv queue_job). CHR ''='' \<notin> set m"
    by (simp_all add: queue_job_def)
  note seen = jobs_see_the_queue_environment [OF started names]
  have "process_env envv ''A'' = Some ''queue''" "process_env envv ''JOBD_MASTER_KEY'' = None"
    using seen [of "''A''"] seen [of "''JOBD_MASTER_KEY''"] by (simp_all add: queue_job_def)
  moreover have "process_env envv ''B'' = Some ''worker''"
    using seen [of "''B''"] by (simp add: queue_job_def host_environment_def process_env_def has_prefix_def)
  ultimately show ?thesis using started by blast
qed

end
