(* ===== verification/EndToEnd.thy ===== *)
theory EndToEnd
  imports Deployment WorkerLoop JobEnvironment
begin

text \<open>
  From the words typed to the process started: what the command line submits through the worker's
  socket, whatever happens to the queue in between, is what the worker claims under the printed
  identifier and what it starts.
\<close>

section \<open>Claims and processes\<close>

text \<open>A claimed job is a row of the table, its command the one stored there.\<close>

lemma claimed_row:
  assumes wf: "wf_queue q" and c: "claim flt now q = (Inr (Some j), q')"
  obtains r where "r \<in> set (jobs q)" "ID j = local_id (sequence r)" "unmarshal_strings (command r) = Some (Command j)"
proof -
  from c obtain r where r: "next_queued q = Some r" "scanLocalJob (start_row q now r) = Inr j"
    by (auto simp: claim_def bnd_def sql_def claim_row_def lift_sum_def ret_def split: option.splits sum.splits)
  from next_queued_Some [OF r(1)] wf_command [OF wf] obtain argv where argv: "r \<in> set (jobs q)" "unmarshal_strings (command r) = Some argv"
    by auto
  then have "unmarshal_strings (command (start_row q now r)) = Some argv" by simp
  from job_of_simps [OF this] scan_wf_row [of "start_row q now r"] this r(2)
  have "ID j = local_id (sequence r)" "Command j = argv" by simp_all
  with argv that show ?thesis by simp
qed

text \<open>An identifier keeps its command along any operations.\<close>

lemma claimed_command:
  assumes wf: "wf_queue q0" and row: "r0 \<in> set (jobs q0)" and reach: "lq_reaches q0 q"
    and c: "claim flt now q = (Inr (Some j), q')" "ID j = local_id (sequence r0)"
  shows "Command j = Command (job_of r0)"
proof -
  have wf': "wf_queue q" using reach wf by (rule lq_reaches_wf)
  from claimed_row [OF wf' c(1)] obtain r where r: "r \<in> set (jobs q)" "ID j = local_id (sequence r)"
    "unmarshal_strings (command r) = Some (Command j)" by blast
  have "sequence r = sequence r0"
    using r(2) c(2) wf_sequence_range [OF wf' r(1)] wf_sequence_range [OF wf row] by (simp add: local_id_inj)
  moreover have "sequence r0 \<le> last_sequence q0" using wf_rowD [OF wf row] by (simp add: wf_row_def)
  ultimately obtain s where s: "s \<in> set (jobs q0)" "same_job r s"
    using lq_reaches_extends [OF reach] r(1) by (force simp: extends_def)
  then have "s = r0"
    using wf_sequence_inj [OF wf] row \<open>sequence r = sequence r0\<close> by (auto simp: same_job_def)
  with s(2) r(3) show ?thesis by (simp add: same_job_def job_of_simps)
qed

section \<open>From the command line to the process\<close>

text \<open>C3. What is typed is what runs. \<open>jobd -- COMMAND ARGS\<close>, with any number of \<open>--local\<close> before it, in
  local mode, runs the worker's binary, which finds the worker that holds the socket, and submits
  the words after the dashes as they are, even when they are names of management commands or look
  like options: the command becomes the last waiting job of that worker's queue under a fresh
  identifier, and that identifier is all that is printed. From then on, whatever operations the queue
  goes through, a job claimed under that identifier has that command, every process started for it
  is started with exactly these words, and the job is claimed when it is the first one waiting.\<close>

theorem what_is_typed_is_what_runs:
  fixes sys :: "'c socket system" and n :: nat
  assumes mode: "0 < n \<or> controllerKey (sys_env sys) = []"
    and binary: "runs_binary sys b" "\<And>t. net_for (b_machine b) t = local_net env"
      "ParseBool (envDefault (sys_env sys) ''JOBD_LOCAL_PERSIST'' ''false'') \<noteq> None"
    and client: "newLocalClient (sys_env sys) (o_stateDir (default_options (sys_env sys))) = Inr c"
      "dials c = Some (socket_path (net_state w))" "\<not> stopping (server (net_state w))"
    and net: "sys_net sys = local_net env" "length (stdout w) < out_room w"
    and wf: "wf_queue (queue_of w)" "last_sequence (queue_of w) < max_int64"
    and argv: "check_command argv = Inr ()" "list_all valid_utf8 argv"
    and quiet: "\<And>k. driver env k 0 = no_faults" "\<And>t. length (show_time env t) \<le> 64"
  defines "m \<equiv> last_sequence (queue_of w) + 1"
  shows "\<exists>w'. run cobra sys (replicate n ''--local'' @ ''--'' # argv) w = Some (Inr (), w') \<and>
    stdout w' = stdout w @ [line (local_id m)] \<and> waiting (queue_of w') = waiting (queue_of w) @ [m] \<and> wf_queue (queue_of w') \<and>
    (\<forall>q. lq_reaches (queue_of w') q \<longrightarrow>
      (\<forall>flt now j q'. claim flt now q = (Inr (Some j), q') \<and> ID j = local_id m \<longrightarrow> Command j = argv \<and>
        (\<forall>tx grace h senv s words envv.
          Started words envv \<in> set (snd (fst (executeJob (local_output flt) (\<lambda>_. False) tx grace h senv j s))) \<longrightarrow> words = argv)) \<and>
      (\<forall>ms now. waiting q = m # ms \<longrightarrow> (\<exists>j q'. claim no_faults now q = (Inr (Some j), q') \<and> ID j = local_id m \<and> waiting q' = ms)))"
proof -
  obtain w' r where run: "run cobra sys (replicate n ''--local'' @ ''--'' # argv) w = Some (Inr (), w')"
      "stdout w' = stdout w @ [line (local_id m)]" "waiting (queue_of w') = waiting (queue_of w) @ [m]"
    and wf': "wf_queue (queue_of w')" and r: "r \<in> set (jobs (queue_of w'))" "sequence r = m" "Command (job_of r) = argv"
    using command_line_submits_verbatim [of n sys b env c w argv cobra] mode binary client net wf argv quiet unfolding m_def by blast
  have same: "Command j = argv" if "lq_reaches (queue_of w') q" "claim flt now q = (Inr (Some j), q')" "ID j = local_id m" for q flt now j q'
    using claimed_command [OF wf' r(1) that(1,2)] that(3) r(2,3) by simp
  have first: "\<exists>j q'. claim no_faults now q = (Inr (Some j), q') \<and> ID j = local_id m \<and> waiting q' = ms"
    if "lq_reaches (queue_of w') q" "waiting q = m # ms" for q ms now
    using claim_head [OF lq_reaches_wf [OF that(1) wf'] that(2)] by blast
  have started: "words = argv"
    if "lq_reaches (queue_of w') q" "claim flt now q = (Inr (Some j), q') \<and> ID j = local_id m"
      "Started words envv \<in> set (snd (fst (executeJob (local_output flt) (\<lambda>_. False) tx grace h senv j x)))"
    for q flt now j q' words envv tx grace h senv x
    using executeJob_started [OF that(3)] same [OF that(1)] that(2) by blast
  show ?thesis
    by (intro exI [of _ w'] conjI allI impI run wf' first) (blast intro: same, erule (2) started)
qed

theorem what_is_typed_is_what_runs_witness:
  "\<exists>w' j q'. run (\<lambda>_ _ _. None) home_system [''--local'', ''--'', ''env'', ''--all''] home_world = Some (Inr (), w') \<and>
     claim no_faults 9 (lq_exec no_faults (Claim 8) (lq_exec no_faults (Claim 7) (queue_of w'))) = (Inr (Some j), q') \<and>
     ID j = ''local-3'' \<and> Command j = [''env'', ''--all'']"
proof -
  define claimed where "claimed now q = lq_exec no_faults (Claim now) q" for now q
  have claims: "wf_queue (claimed now q) \<and> waiting (claimed now q) = ns \<and> lq_reaches q0 (claimed now q)"
    if "wf_queue q" "waiting q = n # ns" "lq_reaches q0 q" for now q n ns q0
    using claim_head [OF that(1,2), of now] lq_exec_wf [OF that(1), of no_faults "Claim now"] lq_reaches_step [OF that(3), of no_faults "Claim now"]
    by (auto simp: claimed_def)
  from what_is_typed_is_what_runs [OF _ home_runs_binary home_facts(5) home_submits(3,4) _ home_facts(8,3,9) home_submits(5,6,1,2,7,8),
      of 1 "\<lambda>_ _ _. None"]
  show ?thesis
  proof (elim meta_impE exE conjE, goal_cases)
    case (3 w')
    have waits: "waiting (queue_of w') = [1, 2, 3]" using 3(3) by (simp add: home_facts)
    let ?q = "claimed 8 (claimed 7 (queue_of w'))"
    have q: "waiting ?q = [3]" "lq_reaches (queue_of w') ?q"
      using claims [OF 3(4) waits lq_reaches_refl, of 7] claims [of "claimed 7 (queue_of w')" 2 "[3]" "queue_of w'" 8] by auto
    have "last_sequence (queue_of home_world) + 1 = 3" by (simp add: home_facts)
    note after = 3(5) [THEN spec, THEN mp, OF q(2), unfolded this]
    from after [THEN conjunct2] q(1) obtain j q' where j: "claim no_faults 9 ?q = (Inr (Some j), q')" "ID j = local_id 3" by blast
    with after [THEN conjunct1] have "Command j = [''env'', ''--all'']" by blast
    moreover have "local_id 3 = ''local-3''" by code_simp
    ultimately show ?case using j 3(1) unfolding claimed_def by auto
  qed (simp_all add: home_facts)
qed

end
