(* ===== verification/CommandTree.thy ===== *)
theory CommandTree
  imports CliDispatch
begin

text \<open>
  The management commands as a tree: \<open>newManagementCommand\<close> and \<open>strictCommandGroups\<close> of cli/root.go,
  the groups of cli/cmd_env.go, cli/cmd_worker.go, cli/cmd_job.go and cli/cmd_auth.go, and \<open>main\<close> of
  cli/main.go. Cobra is the argument \<open>cobra\<close>: what it makes of the words (the command, the flags
  and the arguments it selects, or an answer of its own), what its argument checks say, the text of
  its help, and the two commands that it adds. That the checks mean what they are documented to is
  the hypothesis \<open>checks_arity\<close>.
\<close>

section \<open>Commands\<close>

text \<open>
  \<open>cobra.PositionalArgs\<close>: Cobra's own checks, and those that this program defines: \<open>job retry\<close>'s
  and that of a group, with the reserved word its hint names.
\<close>

datatype positional = Unset | NoArgs | ArbitraryArgs | MinimumNArgs nat | MaximumNArgs nat | ExactArgs nat
  | RetryArgs | GroupArgs "string option"

text \<open>The values of the flags: \<open>--local\<close> where it is given, \<open>--all\<close> of \<open>remove\<close> and of \<open>retry\<close>, \<open>--duration\<close>.\<close>

record parsed =
  p_local :: "bool option"
  p_all :: bool
  p_retryAll :: bool
  p_duration :: "string option"

type_synonym 'w console = "'w world \<times> terminal"
type_synonym 'w handler = "parsed \<Rightarrow> string list \<Rightarrow> 'w console \<Rightarrow> ((cli_error + unit) \<times> 'w console) option"

text \<open>The fields of a \<open>cobra.Command\<close> that are set, and its subcommands.\<close>

record 'r node =
  nd_use :: string
  nd_args :: positional
  nd_runE :: "'r option"
  nd_flags :: "string list"
  nd_required :: "string list"
  nd_interspersed :: bool

datatype 'r command = Cmd (node: "'r node") (subcommands: "'r command list")

definition new_node :: "string \<Rightarrow> positional \<Rightarrow> 'r option \<Rightarrow> 'r node" where
  "new_node u n r = \<lparr>nd_use = u, nd_args = n, nd_runE = r, nd_flags = [], nd_required = [], nd_interspersed = True\<rparr>"

text \<open>\<open>Name\<close>: the first word of the use line.\<close>

definition cmd_name :: "'r command \<Rightarrow> string" where
  "cmd_name c = takeWhile (\<lambda>x. x \<noteq> CHR '' '') (nd_use (node c))"

definition Runnable :: "'r command \<Rightarrow> bool" where
  "Runnable c \<longleftrightarrow> nd_runE (node c) \<noteq> None"

fun command_at :: "'r command \<Rightarrow> string list \<Rightarrow> 'r command option" where
  "command_at c [] = Some c"
| "command_at c (n # ns) = (case find (\<lambda>d. cmd_name d = n) (subcommands c) of
     None \<Rightarrow> None | Some d \<Rightarrow> command_at d ns)"

section \<open>The groups\<close>

text \<open>The options after the flags have been parsed: \<open>--local\<close> writes to the variable that \<open>run\<close> made.\<close>

definition chosen_options :: "cliOptions \<Rightarrow> parsed \<Rightarrow> cliOptions" where
  "chosen_options opts p = (case p_local p of None \<Rightarrow> opts | Some b \<Rightarrow> opts\<lparr>o_local := b\<rparr>)"

definition on_world :: "(string \<Rightarrow> 'w act) \<Rightarrow> 'w console \<Rightarrow> ((cli_error + unit) \<times> 'w console) option" where
  "on_world a = (\<lambda>(w, t). case a (tty_input t) w of None \<Rightarrow> None | Some (r, w') \<Rightarrow> Some (r, (w', t)))"

text \<open>
  Whether the standard input is a terminal, \<open>time.ParseDuration\<close> (the fraction of a unit is
  floating-point arithmetic), and \<open>UTC().Format(time.RFC3339)\<close>.
\<close>

record cli_host =
  is_tty :: bool
  parse_duration :: "string \<Rightarrow> int option"
  show_utc :: "int \<Rightarrow> string"

definition group :: "string \<Rightarrow> 'r command list \<Rightarrow> 'r command" where
  "group name cs = Cmd (new_node name Unset None) cs"

definition env_specs :: "(string \<times> string \<times> positional) list" where
  "env_specs = [(''set'', ''set KEY[=VALUE] [KEY[=VALUE] ...]'', MinimumNArgs 1), (''list'', ''list'', NoArgs),
     (''delete'', ''delete NAME'', ExactArgs 1)]"

definition newEnvCommand :: "'w system \<Rightarrow> cli_host \<Rightarrow> cliOptions \<Rightarrow> 'w handler command" where
  "newEnvCommand sys st opts = group ''env'' (map (\<lambda>(name, u, n).
     Cmd (new_node u n (Some (\<lambda>p args s. Some (env_command sys (chosen_options opts p) (is_tty st) name args s)))) []) env_specs)"

definition newWorkerCommand :: "'w system \<Rightarrow> cliOptions \<Rightarrow> 'w handler command" where
  "newWorkerCommand sys opts = group ''worker''
     (map (\<lambda>name. Cmd (new_node name NoArgs
        (Some (\<lambda>p args. on_world (\<lambda>_. total (worker_command sys (chosen_options opts p) name))))) []) [''start'', ''restart'', ''stop''] @
      Cmd (new_node ''list'' NoArgs (Some (\<lambda>p args. on_world (\<lambda>_. total (worker_list_command sys (chosen_options opts p)))))) [] #
      map (\<lambda>action. Cmd (new_node (action @ '' WORKER_ID_OR_PREFIX [WORKER_ID_OR_PREFIX ...]'') (MinimumNArgs 1)
        (Some (\<lambda>p args. on_world (\<lambda>_. total (worker_pause_command sys (chosen_options opts p) action args))))) []) [''pause'', ''resume''])"

definition job_specs :: "(string \<times> string \<times> positional) list" where
  "job_specs = [(''submit -- COMMAND [ARGS...]'', ''--'', MinimumNArgs 1), (''list'', ''-l'', NoArgs),
     (''clear'', ''-C'', NoArgs), (''output [ID]'', ''-o'', MaximumNArgs 1), (''remove [ID...]'', ''-r'', ArbitraryArgs),
     (''cancel [ID]'', ''-k'', MaximumNArgs 1), (''urgent [ID...]'', ''-u'', ArbitraryArgs), (''swap ID1 ID2'', ''-U'', ExactArgs 2)]"

definition job_subcommand :: "'w system \<Rightarrow> cliOptions \<Rightarrow> string \<times> string \<times> positional \<Rightarrow> 'w handler command" where
  "job_subcommand sys opts = (\<lambda>(u, action, n). Cmd ((new_node u n
       (Some (\<lambda>p args. on_world (\<lambda>input. job_command sys (chosen_options opts p) action (p_all p) input args))))
       \<lparr>nd_flags := (if action = ''-r'' then [''all''] else []), nd_interspersed := (action \<noteq> ''--'')\<rparr>) [])"

definition retry_subcommand :: "'w system \<Rightarrow> cliOptions \<Rightarrow> 'w handler command" where
  "retry_subcommand sys opts = Cmd ((new_node ''retry [ID...]'' RetryArgs
     (Some (\<lambda>p args. on_world (\<lambda>_. runAction sys (chosen_options opts p) ''-retry'' args))))\<lparr>nd_flags := [''all'']\<rparr>) []"

definition newJobCommand :: "'w system \<Rightarrow> cliOptions \<Rightarrow> 'w handler command" where
  "newJobCommand sys opts = group ''job'' (map (job_subcommand sys opts) job_specs @ [retry_subcommand sys opts])"

text \<open>Without \<open>--duration\<close> the required flag is missing, which Cobra refuses before the function runs.\<close>

definition newVerifyWorkerTokenCommand :: "'w system \<Rightarrow> cli_host \<Rightarrow> cliOptions \<Rightarrow> 'w handler command" where
  "newVerifyWorkerTokenCommand sys st opts = Cmd (new_node ''verify-worker-token'' NoArgs
     (Some (\<lambda>p args. on_world (\<lambda>_. total (verify_token_command sys (show_utc st) (chosen_options opts p)))))) []"

definition newAuthCommand :: "'w system \<Rightarrow> cli_host \<Rightarrow> cliOptions \<Rightarrow> 'w handler command" where
  "newAuthCommand sys st opts = group ''auth''
     [Cmd ((new_node ''create-worker-token --duration 24h'' NoArgs (Some (\<lambda>p args. on_world (\<lambda>_.
        total (create_token_command sys (chosen_options opts p) (parse_duration st (case p_duration p of None \<Rightarrow> [] | Some d \<Rightarrow> d)))))))
        \<lparr>nd_flags := [''duration''], nd_required := [''duration'']\<rparr>) [],
      newVerifyWorkerTokenCommand sys st opts]"

section \<open>Strict groups\<close>

text \<open>
  The reserved word of a hint: the ancestor (or the command itself) right under the root, and none
  for the root.
\<close>

definition hint_prefix :: "string list \<Rightarrow> string \<Rightarrow> string option" where
  "hint_prefix parents name = (case parents of [] \<Rightarrow> None | [_] \<Rightarrow> Some name | _ # prefix # _ \<Rightarrow> Some prefix)"

text \<open>\<open>parents\<close> are the names of its parents, the root's first; \<open>show_help\<close> is \<open>cmd.Help()\<close>.\<close>

fun strict :: "(string list \<Rightarrow> 'r) \<Rightarrow> string list \<Rightarrow> 'r command \<Rightarrow> 'r command" where
  "strict show_help parents (Cmd n cs) =
     (let names = parents @ [cmd_name (Cmd n cs)] in
      Cmd (if nd_runE n = None
           then n\<lparr>nd_args := GroupArgs (hint_prefix parents (cmd_name (Cmd n cs))), nd_runE := Some (show_help names)\<rparr>
           else n) (map (strict show_help names) cs))"

definition strictCommandGroups :: "(string list \<Rightarrow> 'r) \<Rightarrow> 'r command \<Rightarrow> 'r command" where
  "strictCommandGroups show_help = strict show_help []"

section \<open>Cobra\<close>

text \<open>What Cobra makes of the words: it prints something itself, refuses them, or selects a command.\<close>

datatype selection = Prints string | Refuses string | Selects "string list" parsed "string list"

record 'w cobra =
  selects :: "'w handler command \<Rightarrow> string list \<Rightarrow> selection"
  arity_error :: "positional \<Rightarrow> string list \<Rightarrow> string list \<Rightarrow> string option"
  missing_flags :: "string list \<Rightarrow> string"
  help_text :: "string list \<Rightarrow> string"
  added :: "'w handler command list"

text \<open>\<open>Help()\<close> prints, and returns nil whether or not that works.\<close>

definition show_help :: "'w cobra \<Rightarrow> string list \<Rightarrow> 'w handler" where
  "show_help cobra names = (\<lambda>p args. on_world (\<lambda>_. total (ignoring (print_out (help_text cobra names)))))"

definition management_tree :: "'w cobra \<Rightarrow> 'w system \<Rightarrow> cli_host \<Rightarrow> cliOptions \<Rightarrow> 'w handler command" where
  "management_tree cobra sys st opts = group ''jobd [COMMAND [ARGS...]]''
     ([newEnvCommand sys st opts, newWorkerCommand sys opts, newJobCommand sys opts, newAuthCommand sys st opts] @ added cobra)"

definition newManagementCommand :: "'w cobra \<Rightarrow> 'w system \<Rightarrow> cli_host \<Rightarrow> cliOptions \<Rightarrow> 'w handler command" where
  "newManagementCommand cobra sys st opts =
     strictCommandGroups (show_help cobra) (management_tree cobra sys st opts)"

text \<open>The check of a command's arguments; the function that checks a group's calls Cobra's \<open>NoArgs\<close>.\<close>

definition group_error :: "(rune \<Rightarrow> bool) \<Rightarrow> string option \<Rightarrow> string \<Rightarrow> string" where
  "group_error printable prefix e = (case prefix of None \<Rightarrow> e
   | Some name \<Rightarrow> e @ [CHR 0x0A] @ ''Hint: to submit a job starting with '' @ go_quote printable name @
       '', use: jobd -- '' @ name @ '' [ARGS...]'')"

definition ValidateArgs :: "'w cobra \<Rightarrow> (rune \<Rightarrow> bool) \<Rightarrow> string list \<Rightarrow> parsed \<Rightarrow> string list \<Rightarrow> positional \<Rightarrow> cli_error option" where
  "ValidateArgs cobra printable path p args n = (case n of
     RetryArgs \<Rightarrow> retry_args (p_retryAll p) args
   | GroupArgs prefix \<Rightarrow> map_option (\<lambda>e. Usage (group_error printable prefix e)) (arity_error cobra NoArgs path args)
   | _ \<Rightarrow> map_option Usage (arity_error cobra n path args))"

definition missing :: "'r command \<Rightarrow> parsed \<Rightarrow> string list" where
  "missing c p = filter (\<lambda>f. \<not> (f = ''duration'' \<and> p_duration p \<noteq> None)) (nd_required (node c))"

text \<open>
  \<open>Execute\<close>. A selected command that is not in the tree, or that cannot run, is a failure; Cobra
  selects none of the first kind and strict groups leave none of the second.
\<close>

definition Execute :: "'w cobra \<Rightarrow> (rune \<Rightarrow> bool) \<Rightarrow> 'w handler command \<Rightarrow> string list \<Rightarrow> 'w console \<Rightarrow>
    ((cli_error + unit) \<times> 'w console) option" where
  "Execute cobra printable root words = (case selects cobra root words of
     Prints s \<Rightarrow> on_world (\<lambda>_. total (ignoring (print_out s)))
   | Refuses e \<Rightarrow> on_world (\<lambda>_. total (fail (Usage e)))
   | Selects path p args \<Rightarrow> (case command_at root path of
       None \<Rightarrow> on_world (\<lambda>_. total (fail (Usage ''unknown command'')))
     | Some c \<Rightarrow> (case ValidateArgs cobra printable path p args (nd_args (node c)) of
         Some e \<Rightarrow> on_world (\<lambda>_. total (fail e))
       | None \<Rightarrow> if missing c p \<noteq> [] then on_world (\<lambda>_. total (fail (Usage (missing_flags cobra (missing c p)))))
           else (case nd_runE (node c) of None \<Rightarrow> on_world (\<lambda>_. total (fail (Usage ''help requested''))) | Some r \<Rightarrow> r p args))))"

section \<open>The program\<close>

text \<open>The management commands inside \<open>run\<close>, on a terminal; then \<open>main\<close>, with the exit code.\<close>

definition cobra_run :: "'w cobra \<Rightarrow> 'w system \<Rightarrow> cli_host \<Rightarrow> terminal \<Rightarrow>
    cliOptions \<Rightarrow> string list \<Rightarrow> 'w act" where
  "cobra_run cobra sys st t opts words = (\<lambda>w.
     map_option (\<lambda>(r, s). (r, fst s))
       (Execute cobra (sys_printable sys) (newManagementCommand cobra sys st opts) words (w, t)))"

definition main_program :: "(cliOptions \<Rightarrow> string list \<Rightarrow> 'w act) \<Rightarrow> 'w system \<Rightarrow> string list \<Rightarrow> 'w world \<Rightarrow> (int \<times> 'w world) option" where
  "main_program cobra sys words w = (case run cobra sys words w of
     None \<Rightarrow> None
   | Some (Inr (), w') \<Rightarrow> Some (0, w')
   | Some (Inl e, w') \<Rightarrow> Some (1, snd (ignoring (print_diag (''jobd: '' @ line (error_message e))) w')))"

section \<open>Names and places\<close>

lemma find_name: "find (\<lambda>d. cmd_name d = n) cs = Some d \<Longrightarrow> cmd_name d = n \<and> d \<in> set cs"
  by (auto simp: find_Some_iff)

lemma cmd_name_strict [simp]: "cmd_name (strict h ps c) = cmd_name c"
  by (cases c) (simp add: cmd_name_def Let_def)

lemma find_strict:
  "find (\<lambda>d. cmd_name d = n) (map (strict h ps) cs) = map_option (strict h ps) (find (\<lambda>d. cmd_name d = n) cs)"
  by (induction cs) auto

lemma subcommands_strict: "subcommands (strict h ps c) = map (strict h (ps @ [cmd_name c])) (subcommands c)"
  by (cases c) (simp add: Let_def)

definition parents_of :: "'r command \<Rightarrow> string list \<Rightarrow> string list" where
  "parents_of root path = butlast (cmd_name root # path)"

text \<open>A command has its place in the strict tree, with its parents' names.\<close>

lemma command_at_strict:
  "command_at (strict h ps c) ns = map_option (strict h (ps @ parents_of c ns)) (command_at c ns)"
proof (induction ns arbitrary: ps c)
  case (Cons n ns)
  show ?case
    using Cons [of "ps @ [cmd_name c]"] find_name [of n "subcommands c"]
    by (auto simp: subcommands_strict find_strict parents_of_def split: option.split)
qed (simp add: parents_of_def)

lemma strict_runnable: "Runnable c \<Longrightarrow> node (strict h ps c) = node c"
  by (cases c) (auto simp: Runnable_def Let_def)

lemma strict_group:
  "\<not> Runnable c \<Longrightarrow> node (strict h ps c) =
     (node c)\<lparr>nd_args := GroupArgs (hint_prefix ps (cmd_name c)), nd_runE := Some (h (ps @ [cmd_name c]))\<rparr>"
  by (cases c) (simp add: Runnable_def Let_def)

text \<open>The hint names the first word of the path.\<close>

lemma hint_prefix_path:
  "command_at c ns = Some d \<Longrightarrow> hint_prefix (parents_of c ns) (cmd_name d) = (case ns of [] \<Rightarrow> None | n # _ \<Rightarrow> Some n)"
proof (cases ns)
  case (Cons n ms)
  assume "command_at c ns = Some d"
  with Cons have "ms = [] \<Longrightarrow> cmd_name d = n" using find_name [of n "subcommands c"] by (auto split: option.splits)
  with Cons show ?thesis by (cases ms) (auto simp: hint_prefix_def parents_of_def)
qed (simp add: hint_prefix_def parents_of_def)

declare strict.simps [simp del]

text \<open>The words that \<open>isManagementCommand\<close> knows are the root's commands.\<close>

lemma cmd_name_group: "cmd_name (group name cs) = takeWhile (\<lambda>x. x \<noteq> CHR '' '') name"
  by (simp add: group_def cmd_name_def new_node_def)

lemma root_commands_tree:
  assumes "map cmd_name (added cobra) = [''help'', ''completion'']"
  shows "map cmd_name (subcommands (newManagementCommand cobra sys st opts)) = root_commands"
proof -
  have root: "subcommands (group name cs) = cs" for name and cs :: "'r command list" by (simp add: group_def)
  have "map (cmd_name \<circ> strict h ps) cs = map cmd_name cs" for h :: "string list \<Rightarrow> 'r" and ps cs
    by simp
  with assms show ?thesis
    by (simp add: newManagementCommand_def strictCommandGroups_def subcommands_strict management_tree_def root comp_def
        newEnvCommand_def newWorkerCommand_def newJobCommand_def newAuthCommand_def cmd_name_group root_commands_def)
qed

section \<open>Arguments are checked\<close>

text \<open>What the checks accept, and that Cobra's are what they are documented to be.\<close>

definition accepts :: "positional \<Rightarrow> parsed \<Rightarrow> string list \<Rightarrow> bool" where
  "accepts n p args = (case n of
     NoArgs \<Rightarrow> args = [] | MinimumNArgs k \<Rightarrow> k \<le> length args | MaximumNArgs k \<Rightarrow> length args \<le> k
   | ExactArgs k \<Rightarrow> length args = k | RetryArgs \<Rightarrow> p_retryAll p \<longleftrightarrow> args = [] | GroupArgs _ \<Rightarrow> args = [] | _ \<Rightarrow> True)"

definition checks_arity :: "'w cobra \<Rightarrow> bool" where
  "checks_arity cobra \<longleftrightarrow> (\<forall>n path p args. n \<noteq> RetryArgs \<and> (\<forall>h. n \<noteq> GroupArgs h) \<longrightarrow>
     (arity_error cobra n path args = None \<longleftrightarrow> accepts n p args))"

definition takes :: "'r command \<Rightarrow> parsed \<Rightarrow> string list \<Rightarrow> bool" where
  "takes c p args \<longleftrightarrow> (if Runnable c then accepts (nd_args (node c)) p args else args = [])"

lemma ValidateArgs_accepts:
  assumes "checks_arity cobra"
  shows "ValidateArgs cobra printable path p args n = None \<longleftrightarrow> accepts n p args"
proof -
  have arity: "arity_error cobra n path args = None \<longleftrightarrow> accepts n p args"
    if "n \<noteq> RetryArgs" "\<And>h. n \<noteq> GroupArgs h" for n
    using assms that unfolding checks_arity_def by blast
  show ?thesis
    using arity [of n] arity [of NoArgs]
    by (cases n) (auto simp: ValidateArgs_def accepts_def retry_args_def)
qed

abbreviation start_options :: "'w system \<Rightarrow> nat \<Rightarrow> cliOptions" where
  "start_options sys n \<equiv> (default_options (sys_env sys))\<lparr>o_local := (0 < n)\<rparr>"

lemma run_management:
  assumes "isManagementCommand name"
  shows "run cobra sys (replicate n ''--local'' @ name # argv) = cobra (start_options sys n) (name # argv)"
proof -
  have "name \<noteq> ''--local''" using assms by (auto simp: isManagementCommand_def root_commands_def)
  with assms show ?thesis by (simp add: run_def strip_local_replicate default_options_def)
qed

text \<open>A failed run is a message, as far as there is room for it, and exit code 1.\<close>

definition jobd_message :: "'w world \<Rightarrow> cli_error \<Rightarrow> string list" where
  "jobd_message w e = (if length (diagnostic w) < diag_room w then [''jobd: '' @ line (error_message e)] else [])"

lemma length_jobd_message: "length (jobd_message w e) \<le> 1"
  by (simp add: jobd_message_def)

lemma main_fails:
  "run cobra sys words w = Some (Inl e, w') \<Longrightarrow>
   main_program cobra sys words w = Some (1, w'\<lparr>diagnostic := diagnostic w' @ jobd_message w' e\<rparr>)"
  by (simp add: main_program_def ignoring_def print_diag_def jobd_message_def)

text \<open>What \<open>Execute\<close> does with a selected command of the tree.\<close>

definition refuse :: "cli_error \<Rightarrow> 'w console \<Rightarrow> ((cli_error + unit) \<times> 'w console) option" where
  "refuse e = (\<lambda>s. Some (Inl e, s))"

lemma on_world_fail: "on_world (\<lambda>_. total (fail e)) = refuse e"
  by (auto simp: on_world_def total_def refuse_def fail_def)

lemma Execute_selected:
  assumes "selects cobra (strict h [] root) words = Selects path p args" "command_at root path = Some c"
  defines "k \<equiv> strict h (parents_of root path) c"
  shows "Execute cobra printable (strict h [] root) words =
    (case ValidateArgs cobra printable path p args (nd_args (node k)) of
       Some e \<Rightarrow> refuse e
     | None \<Rightarrow> if missing c p \<noteq> [] then refuse (Usage (missing_flags cobra (missing c p)))
         else the (nd_runE (node k)) p args)"
proof -
  have "command_at (strict h [] root) path = Some k" using assms(2) by (simp add: command_at_strict k_def)
  moreover have "missing k p = missing c p" "nd_runE (node k) \<noteq> None"
    by (cases "Runnable c"; auto simp: k_def missing_def strict_runnable strict_group Runnable_def)+
  ultimately show ?thesis using assms(1) by (auto simp: Execute_def on_world_fail split: option.split)
qed

lemma strict_args:
  assumes "command_at root path = Some c"
  shows "nd_args (node (strict h (parents_of root path) c)) =
    (if Runnable c then nd_args (node c) else GroupArgs (case path of [] \<Rightarrow> None | n # _ \<Rightarrow> Some n))"
  by (cases "Runnable c") (simp_all add: strict_runnable strict_group hint_prefix_path [OF assms])

section \<open>Mistyped words\<close>

text \<open>The options a word of the command line starts with, and how a run with a selected command goes.\<close>

lemma run_selected:
  fixes cobra :: "'w cobra" and sys :: "'w system" and st :: cli_host and n :: nat and path c
  defines "tree \<equiv> management_tree cobra sys st (start_options sys n)"
    and "strict_tree \<equiv> newManagementCommand cobra sys st (start_options sys n)"
  assumes "isManagementCommand name" "selects cobra strict_tree (name # argv) = Selects path p args"
    and "command_at tree path = Some c"
  defines "k \<equiv> strict (show_help cobra) (parents_of tree path) c"
  shows "run (cobra_run cobra sys st t) sys (replicate n ''--local'' @ name # argv) w =
    map_option (\<lambda>(r, s). (r, fst s))
      ((case ValidateArgs cobra (sys_printable sys) path p args (nd_args (node k)) of
         Some e \<Rightarrow> refuse e
       | None \<Rightarrow> if missing c p \<noteq> [] then refuse (Usage (missing_flags cobra (missing c p)))
           else the (nd_runE (node k)) p args) (w, t))"
proof -
  have tree: "strict_tree = strict (show_help cobra) [] tree"
    by (simp add: tree_def strict_tree_def newManagementCommand_def strictCommandGroups_def)
  show ?thesis
    unfolding k_def
    using Execute_selected [of cobra "show_help cobra" tree "name # argv" path p args c "sys_printable sys"] assms(4,5)
    by (simp add: run_management [OF assms(3)] cobra_run_def tree flip: tree_def strict_tree_def [unfolded tree])
qed

text \<open>A command that can run is as it was before the groups were made strict.\<close>

lemma run_leaf:
  fixes cobra :: "'w cobra" and sys :: "'w system"
  assumes "isManagementCommand name"
    and "selects cobra (newManagementCommand cobra sys st (start_options sys n)) (name # argv) = Selects path p args"
    and "command_at (management_tree cobra sys st (start_options sys n)) path = Some c" "nd_runE (node c) = Some r"
  shows "run (cobra_run cobra sys st t) sys (replicate n ''--local'' @ name # argv) w =
    map_option (\<lambda>(r, s). (r, fst s))
      ((case ValidateArgs cobra (sys_printable sys) path p args (nd_args (node c)) of
         Some e \<Rightarrow> refuse e
       | None \<Rightarrow> if missing c p \<noteq> [] then refuse (Usage (missing_flags cobra (missing c p))) else r p args) (w, t))"
proof -
  have "Runnable c" by (simp add: Runnable_def assms(4))
  then show ?thesis by (simp only: run_selected [OF assms(1-3)] strict_runnable assms(4) option.sel)
qed

text \<open>C17. Words that a command does not take never pass for a success: the program ends with exit code
  1 and a message on the standard error, and has done nothing else; what is under a group that is
  no command of it is refused the same way, with a hint that names the group only.\<close>

theorem mistyped_words_do_nothing:
  fixes cobra :: "'w cobra" and sys :: "'w system"
  assumes "checks_arity cobra" "isManagementCommand name"
    and "selects cobra (newManagementCommand cobra sys st (start_options sys n)) (name # argv) = Selects path p args"
    and "command_at (management_tree cobra sys st (start_options sys n)) path = Some c"
    and "\<not> takes c p args"
  shows "\<exists>e. main_program (cobra_run cobra sys st t) sys (replicate n ''--local'' @ name # argv) w =
      Some (1, w\<lparr>diagnostic := diagnostic w @ jobd_message w e\<rparr>) \<and>
    (\<not> Runnable c \<longrightarrow> (\<exists>u. arity_error cobra NoArgs path args = Some u \<and>
      e = Usage (group_error (sys_printable sys) (case path of [] \<Rightarrow> None | g # _ \<Rightarrow> Some g) u)))"
proof -
  have refused: "ValidateArgs cobra f path p args (GroupArgs pre) = Some (Usage (group_error f pre u))"
    if "arity_error cobra NoArgs path args = Some u" for f pre u
    using that by (simp add: ValidateArgs_def)
  note run = run_selected [OF assms(2-4), of t w] and kind = strict_args [OF assms(4), of "show_help cobra"]
  show ?thesis
  proof (cases "Runnable c")
    case True
    with assms(1,5) obtain e where "ValidateArgs cobra (sys_printable sys) path p args (nd_args (node c)) = Some e"
      using ValidateArgs_accepts [of cobra "sys_printable sys" path p args "nd_args (node c)"] by (auto simp: takes_def)
    then show ?thesis
      using True run kind by (intro exI [of _ e]) (simp add: refuse_def main_fails)
  next
    case False
    have "arity_error cobra NoArgs path args = None \<longleftrightarrow> accepts NoArgs p args"
      using assms(1) by (simp add: checks_arity_def)
    with False assms(5) obtain u where u: "arity_error cobra NoArgs path args = Some u" by (auto simp: takes_def accepts_def)
    then show ?thesis
      using False run kind refused [OF u] by (intro exI conjI [OF main_fails]) (simp_all add: refuse_def)
  qed
qed

section \<open>Job commands\<close>

text \<open>The short forms of the subcommands of \<open>job\<close>.\<close>

definition shortcuts :: "(string \<times> string) list" where
  "shortcuts = [(''submit'', ''--''), (''list'', ''-l''), (''clear'', ''-C''), (''output'', ''-o''), (''remove'', ''-r''),
     (''cancel'', ''-k''), (''urgent'', ''-u''), (''swap'', ''-U''), (''retry'', ''-retry'')]"

lemma subcommands_group: "subcommands (group name cs) = cs"
  by (simp add: group_def)

lemma job_at: "command_at (management_tree cobra sys st opts) (''job'' # ns) = command_at (newJobCommand sys opts) ns"
  by (simp add: management_tree_def subcommands_group newEnvCommand_def newWorkerCommand_def cmd_name_group newJobCommand_def)

lemma job_subcommand_simps:
  "cmd_name (job_subcommand sys opts (u, action, n)) = takeWhile (\<lambda>x. x \<noteq> CHR '' '') u"
  "nd_args (node (job_subcommand sys opts (u, action, n))) = n"
  "nd_required (node (job_subcommand sys opts (u, action, n))) = []"
  "nd_runE (node (job_subcommand sys opts (u, action, n))) =
     Some (\<lambda>p args. on_world (\<lambda>input. job_command sys (chosen_options opts p) action (p_all p) input args))"
  "cmd_name (retry_subcommand sys opts) = ''retry''"
  "nd_args (node (retry_subcommand sys opts)) = RetryArgs"
  "nd_required (node (retry_subcommand sys opts)) = []"
  "nd_runE (node (retry_subcommand sys opts)) = Some (\<lambda>p args. on_world (\<lambda>_. runAction sys (chosen_options opts p) ''-retry'' args))"
  by (simp_all add: job_subcommand_def retry_subcommand_def cmd_name_def new_node_def)

lemma find_distinct: "distinct (map cmd_name cs) \<Longrightarrow> d \<in> set cs \<Longrightarrow> find (\<lambda>c. cmd_name c = cmd_name d) cs = Some d"
  by (induction cs) auto

lemma job_names:
  "map cmd_name (map (job_subcommand sys opts) job_specs @ [retry_subcommand sys opts]) =
     [''submit'', ''list'', ''clear'', ''output'', ''remove'', ''cancel'', ''urgent'', ''swap'', ''retry'']"
  by (simp add: job_specs_def job_subcommand_simps)

lemma job_spec_of:
  "(name, action) \<in> set shortcuts \<Longrightarrow> action = ''-retry'' \<and> name = ''retry'' \<or>
     (\<exists>(u, a, n) \<in> set job_specs. a = action \<and> takeWhile (\<lambda>x. x \<noteq> CHR '' '') u = name)"
  by (simp add: shortcuts_def job_specs_def) (elim disjE; simp)

lemma job_command_at:
  assumes "(name, action) \<in> set shortcuts"
  shows "\<exists>c. command_at (management_tree cobra sys st opts) [''job'', name] = Some c \<and> nd_required (node c) = [] \<and>
    (\<exists>r. nd_runE (node c) = Some r \<and>
      (\<forall>p args. (action = ''-r'' \<longrightarrow> \<not> p_all p) \<longrightarrow> r p args = on_world (\<lambda>_. runAction sys (chosen_options opts p) action args)))"
proof -
  let ?cs = "map (job_subcommand sys opts) job_specs @ [retry_subcommand sys opts]"
  have place: "command_at (management_tree cobra sys st opts) [''job'', name] = find (\<lambda>d. cmd_name d = name) ?cs"
    by (subst job_at) (simp add: newJobCommand_def subcommands_group split: option.split)
  have "distinct (map cmd_name ?cs)" unfolding job_names by simp
  note found = find_distinct [OF this]
  from job_spec_of [OF assms] show ?thesis
  proof
    assume "action = ''-retry'' \<and> name = ''retry''"
    then show ?thesis unfolding place using found [of "retry_subcommand sys opts"] by (simp add: job_subcommand_simps)
  next
    assume "\<exists>(u, a, n) \<in> set job_specs. a = action \<and> takeWhile (\<lambda>x. x \<noteq> CHR '' '') u = name"
    then obtain u n where u: "(u, action, n) \<in> set job_specs" "takeWhile (\<lambda>x. x \<noteq> CHR '' '') u = name" by auto
    then have "job_subcommand sys opts (u, action, n) \<in> set ?cs" by force
    from found [OF this] u(2) show ?thesis unfolding place by (auto simp: job_subcommand_simps job_command_def)
  qed
qed

text \<open>C32. A subcommand of \<open>job\<close> and its short form are the same command: with the flags and arguments
  that Cobra finds in the words, accepted ones, \<open>jobd job list\<close> is \<open>jobd -l\<close>, \<open>jobd job submit -- ...\<close> is
  \<open>jobd -- ...\<close> and so on, \<open>--local\<close> before or after them making no difference; \<open>job remove --all\<close>
  alone has no short form.\<close>

theorem job_commands_are_their_shortcuts:
  fixes cobra :: "'w cobra" and sys :: "'w system"
  defines "opts n \<equiv> start_options sys n"
  assumes "checks_arity cobra" "(name, action) \<in> set shortcuts"
    and "selects cobra (newManagementCommand cobra sys st (opts n)) (''job'' # argv) = Selects [''job'', name] p args"
    and "command_at (management_tree cobra sys st (opts n)) [''job'', name] = Some c" "takes c p args"
    and "action = ''-r'' \<longrightarrow> \<not> p_all p" and "0 < m \<longleftrightarrow> o_local (chosen_options (opts n) p)"
  shows "run (cobra_run cobra sys st t) sys (replicate n ''--local'' @ ''job'' # argv) w =
    run (cobra_run cobra sys st t) sys (replicate m ''--local'' @ action # args) w"
proof -
  from job_command_at [OF assms(3), of cobra sys st "opts n"] assms(5,7) obtain r where r: "nd_runE (node c) = Some r" "nd_required (node c) = []"
      "r p args = on_world (\<lambda>_. runAction sys (chosen_options (opts n) p) action args)" by auto
  then have runs: "Runnable c" "missing c p = []" by (simp_all add: Runnable_def missing_def)
  then have "ValidateArgs cobra (sys_printable sys) [''job'', name] p args (nd_args (node c)) = None"
    using ValidateArgs_accepts [OF assms(2)] assms(6) by (simp add: takes_def)
  moreover have "isManagementCommand ''job''" by (simp add: isManagementCommand_def root_commands_def)
  ultimately have "run (cobra_run cobra sys st t) sys (replicate n ''--local'' @ ''job'' # argv) w =
      map_option (\<lambda>(r, s). (r, fst s)) (on_world (\<lambda>_. runAction sys (chosen_options (opts n) p) action args) (w, t))"
    using run_leaf [OF _ assms(4,5) [unfolded opts_def] r(1), of t w] runs r(3) by (simp add: opts_def)
  also have "\<dots> = runAction sys (chosen_options (opts n) p) action args w"
    by (auto simp: on_world_def split: option.split)
  also have "chosen_options (opts n) p = opts m"
    using assms(8) by (cases "p_local p") (auto simp: chosen_options_def opts_def)
  also have "runAction sys (opts m) action args w = run (cobra_run cobra sys st t) sys (replicate m ''--local'' @ action # args) w"
    using assms(3) by (subst run_direct) (auto simp: opts_def shortcuts_def isManagementCommand_def root_commands_def)
  finally show ?thesis .
qed

section \<open>Secrets and tokens\<close>

text \<open>Local mode, or a controller that is not reached by HTTPS, or that is no controller's address.\<close>

definition unprotected :: "'w system \<Rightarrow> cliOptions \<Rightarrow> bool" where
  "unprotected sys opts \<longleftrightarrow> o_local opts \<or> (\<forall>c. remote_client sys opts = Inr c \<longrightarrow> \<not> has_prefix (base c) ''https://'')"

lemma unprotected_env:
  assumes "unprotected sys opts"
  shows "\<exists>e t'. env_command sys opts tty name args (w, t) = (Inl e, (w, t'))"
proof (cases "o_local opts")
  case True
  then show ?thesis by (simp add: env_command_def)
next
  case False
  show ?thesis
  proof (cases "remote_client sys opts")
    case (Inl e)
    then show ?thesis using False by (simp add: env_command_def)
  next
    case (Inr c)
    with False assms obtain e where "env_guard c = Some e" by (auto simp: unprotected_def env_guard_def)
    then have "runEnv (sys_net sys) c name args' w = (Inl e, w)" for args' by (simp add: runEnv_def fail_def)
    moreover obtain q t' where "(if name = ''set'' then readEnvAssignments tty (sys_printable sys) args t else (Inr args, t)) = (q, t')"
      by fastforce
    ultimately show ?thesis using False Inr by (cases q) (simp_all add: env_command_def)
  qed
qed

lemma unprotected_create: "unprotected sys opts \<Longrightarrow> \<exists>e. create_token_command sys opts d w = (Inl e, w)"
  by (auto simp: unprotected_def create_token_command_def Let_def fail_def split: sum.split option.split)

lemma unprotected_verify: "unprotected sys opts \<Longrightarrow> \<exists>e. verify_token_command sys show opts w = (Inl e, w)"
  by (auto simp: unprotected_def verify_token_command_def Let_def fail_def split: sum.split)

text \<open>A command that touches nothing but the terminal, and fails, when its options are unprotected.\<close>

definition guarded :: "'w system \<Rightarrow> cliOptions \<Rightarrow> 'w handler command \<Rightarrow> bool" where
  "guarded sys opts c \<longleftrightarrow> (\<exists>r. nd_runE (node c) = Some r \<and>
     (\<forall>p args w t. unprotected sys (chosen_options opts p) \<longrightarrow> (\<exists>e t'. r p args (w, t) = Some (Inl e, (w, t')))))"

lemma guarded_on_world:
  assumes "nd_runE (node c) = Some (\<lambda>p args. on_world (\<lambda>_. total (m p args)))"
    and "\<And>p args w. unprotected sys (chosen_options opts p) \<Longrightarrow> \<exists>e. m p args w = (Inl e, w)"
  shows "guarded sys opts c"
  unfolding guarded_def assms(1)
proof (intro exI conjI allI impI)
  fix p args w t
  assume "unprotected sys (chosen_options opts p)"
  from assms(2) [OF this, of args w] obtain e where "m p args w = (Inl e, w)" by blast
  then show "on_world (\<lambda>_. total (m p args)) (w, t) = Some (Inl (projl (fst (m p args w))), (w, t))"
    by (simp add: on_world_def total_def)
qed simp

lemma guarded_env: "c \<in> set (subcommands (newEnvCommand sys st opts)) \<Longrightarrow> guarded sys opts c"
  unfolding guarded_def using unprotected_env [of sys] by (auto simp: newEnvCommand_def subcommands_group new_node_def)

lemma guarded_auth: "c \<in> set (subcommands (newAuthCommand sys st opts)) \<Longrightarrow> guarded sys opts c"
  using guarded_on_world [of c "\<lambda>p args. verify_token_command sys (show_utc st) (chosen_options opts p)" sys opts]
    guarded_on_world [of c "\<lambda>p args. create_token_command sys (chosen_options opts p)
      (parse_duration st (case p_duration p of None \<Rightarrow> [] | Some d \<Rightarrow> d))" sys opts]
    unprotected_create [of sys] unprotected_verify [of sys]
  by (auto simp: newAuthCommand_def newVerifyWorkerTokenCommand_def subcommands_group new_node_def)

lemma env_at: "command_at (management_tree cobra sys st opts) (''env'' # ns) = command_at (newEnvCommand sys st opts) ns"
  by (simp add: management_tree_def subcommands_group newEnvCommand_def cmd_name_group)

lemma auth_at: "command_at (management_tree cobra sys st opts) (''auth'' # ns) = command_at (newAuthCommand sys st opts) ns"
  by (simp add: management_tree_def subcommands_group newEnvCommand_def newWorkerCommand_def newJobCommand_def newAuthCommand_def
      cmd_name_group)

lemma child_at: "command_at c [n] = Some d \<Longrightarrow> d \<in> set (subcommands c)"
  by (auto dest: find_name split: option.splits)


section \<open>A parser of words\<close>

text \<open>
  A Cobra for the examples: it walks down the tree as long as the words name commands, and takes
  \<open>--local\<close> and \<open>--all\<close> out of the rest, up to a \<open>--\<close>.
\<close>

fun walk :: "'r command \<Rightarrow> string list \<Rightarrow> string list \<times> string list" where
  "walk c [] = ([], [])"
| "walk c (n # ns) = (case find (\<lambda>d. cmd_name d = n) (subcommands c) of
     None \<Rightarrow> ([], n # ns)
   | Some d \<Rightarrow> (case walk d ns of (path, rest) \<Rightarrow> (n # path, rest)))"

definition read_words :: "'r command \<Rightarrow> string list \<Rightarrow> selection" where
  "read_words c words = (case walk c words of (path, rest) \<Rightarrow>
     (let front = takeWhile (\<lambda>x. x \<noteq> ''--'') rest; behind = drop (Suc (length front)) rest in
      Selects path \<lparr>p_local = (if ''--local'' \<in> set front then Some True else None), p_all = (''--all'' \<in> set front),
          p_retryAll = (''--all'' \<in> set front), p_duration = None\<rparr>
        (filter (\<lambda>x. x \<notin> {''--local'', ''--all''}) front @ behind)))"

definition example_cobra :: "'w cobra" where
  "example_cobra = \<lparr>selects = read_words,
     arity_error = (\<lambda>n path args. if accepts n \<lparr>p_local = None, p_all = False, p_retryAll = False, p_duration = None\<rparr> args
       then None else Some ''wrong arguments''),
     missing_flags = concat, help_text = concat,
     added = [group ''help [command]'' [], group ''completion'' []]\<rparr>"

lemma example_checks_arity: "checks_arity example_cobra"
  by (auto simp: checks_arity_def example_cobra_def accepts_def split: positional.split)

definition no_host :: cli_host where
  "no_host = \<lparr>is_tty = False, parse_duration = (\<lambda>_. None), show_utc = (\<lambda>_. [])\<rparr>"

definition no_terminal :: terminal where
  "no_terminal = \<lparr>tty_input = [], tty_secrets = [], prompts = [], prompt_room = 0\<rparr>"

abbreviation example_main :: "string list \<Rightarrow> unit socket world \<Rightarrow> (int \<times> unit socket world) option" where
  "example_main \<equiv> main_program (cobra_run example_cobra example_system no_host no_terminal) example_system"

lemma walk_strict: "walk (strict h ps c) ws = walk c ws"
proof (induction ws arbitrary: ps c)
  case (Cons n ns)
  then show ?case by (auto simp: subcommands_strict find_strict split: option.split prod.split)
qed simp

lemma walk_under:
  assumes "find (\<lambda>d. cmd_name d = n) (subcommands c) = Some d"
  shows "walk c (n # ns) = (n # fst (walk d ns), snd (walk d ns))"
  using assms by (simp split: prod.split)

lemma walk_stop: "find (\<lambda>d. cmd_name d = n) (subcommands c) = None \<Longrightarrow> walk c (n # ns) = ([], n # ns)"
  by simp

lemma walk_leaf: "subcommands c = [] \<Longrightarrow> walk c ws = ([], ws)"
  by (cases ws) simp_all

declare walk.simps(2) [simp del]

lemma read_new: "read_words (newManagementCommand cobra sys st opts) ws = read_words (management_tree cobra sys st opts) ws"
  by (simp add: read_words_def newManagementCommand_def strictCommandGroups_def walk_strict)

lemma root_job: "find (\<lambda>d. cmd_name d = ''job'') (subcommands (management_tree cobra sys st opts)) = Some (newJobCommand sys opts)"
  by (simp add: management_tree_def subcommands_group newEnvCommand_def newWorkerCommand_def cmd_name_group newJobCommand_def)

lemma root_env: "find (\<lambda>d. cmd_name d = ''env'') (subcommands (management_tree cobra sys st opts)) = Some (newEnvCommand sys st opts)"
  by (simp add: management_tree_def subcommands_group newEnvCommand_def cmd_name_group)

lemma example_selects:
  "selects example_cobra (newManagementCommand cobra sys st opts) ws = read_words (management_tree cobra sys st opts) ws"
  by (simp add: example_cobra_def read_new)

abbreviation no_flags :: parsed where
  "no_flags \<equiv> \<lparr>p_local = None, p_all = False, p_retryAll = False, p_duration = None\<rparr>"

lemma find_name_None: "n \<notin> set (map cmd_name cs) \<Longrightarrow> find (\<lambda>d. cmd_name d = n) cs = None"
  by (auto simp: find_None_iff)

lemma job_clear:
  "find (\<lambda>d. cmd_name d = ''clear'') (subcommands (newJobCommand sys opts)) = Some (job_subcommand sys opts (''clear'', ''-C'', NoArgs))"
proof -
  have "distinct (map cmd_name (map (job_subcommand sys opts) job_specs @ [retry_subcommand sys opts]))"
    unfolding job_names by simp
  from find_distinct [OF this, of "job_subcommand sys opts (''clear'', ''-C'', NoArgs)"]
  show ?thesis by (simp add: newJobCommand_def subcommands_group job_subcommand_simps job_specs_def)
qed

lemma env_list:
  "find (\<lambda>d. cmd_name d = ''list'') (subcommands (newEnvCommand sys st opts)) =
    Some (Cmd (new_node ''list'' NoArgs (Some (\<lambda>p args s. Some (env_command sys (chosen_options opts p) (is_tty st) ''list'' args s)))) [])"
  by (simp add: newEnvCommand_def subcommands_group env_specs_def cmd_name_def new_node_def)

lemma job_lst:
  fixes sys :: "'w system"
  shows "read_words (management_tree cobra sys st opts) [''job'', ''lst''] = Selects [''job''] no_flags [''lst'']"
proof -
  have "find (\<lambda>d. cmd_name d = ''lst'') (subcommands (newJobCommand sys opts)) = None"
    unfolding newJobCommand_def subcommands_group by (rule find_name_None) (simp add: job_names del: map_append)
  then have "walk (newJobCommand sys opts) [''lst''] = ([], [''lst''])" by (rule walk_stop)
  then show ?thesis by (simp add: read_words_def walk_under [OF root_job] Let_def)
qed

theorem mistyped_words_do_nothing_witness:
  "example_main [''job'', ''lst''] (example_world two_waiting) = Some (1, (example_world two_waiting)
     \<lparr>diagnostic := [''jobd: '' @ line (group_error (\<lambda>_. True) (Some ''job'') ''wrong arguments'')]\<rparr>)"
proof -
  let ?opts = "start_options example_system 0"
  have sel: "selects example_cobra (newManagementCommand example_cobra example_system no_host ?opts) [''job'', ''lst''] =
      Selects [''job''] no_flags [''lst'']"
    by (simp add: example_selects job_lst)
  have at: "command_at (management_tree example_cobra example_system no_host ?opts) [''job''] = Some (newJobCommand example_system ?opts)"
    by (simp add: root_job)
  have grp: "\<not> Runnable (newJobCommand example_system ?opts)" by (simp add: newJobCommand_def group_def new_node_def Runnable_def)
  then have wrong: "\<not> takes (newJobCommand example_system ?opts) no_flags [''lst'']" by (simp add: takes_def)
  have word: "isManagementCommand ''job''" by (simp add: isManagementCommand_def root_commands_def)
  from mistyped_words_do_nothing [OF example_checks_arity word sel at wrong, of no_terminal "example_world two_waiting"]
  obtain e where run: "example_main (replicate 0 ''--local'' @ [''job'', ''lst'']) (example_world two_waiting) =
        Some (1, (example_world two_waiting)\<lparr>diagnostic := diagnostic (example_world two_waiting) @ jobd_message (example_world two_waiting) e\<rparr>)"
      and e: "\<not> Runnable (newJobCommand example_system ?opts) \<longrightarrow> (\<exists>u. arity_error (example_cobra :: unit socket cobra) NoArgs [''job''] [''lst''] = Some u \<and>
        e = Usage (group_error (sys_printable example_system) (case [''job''] of [] \<Rightarrow> None | g # _ \<Rightarrow> Some g) u))"
    by (elim exE conjE)
  have "e = Usage (group_error (\<lambda>_. True) (Some ''job'') ''wrong arguments'')"
    using e grp by (simp add: example_cobra_def accepts_def example_system_def)
  moreover have "diagnostic (example_world two_waiting) = []" "diag_room (example_world two_waiting) = 1"
    by (simp_all add: example_world_def)
  ultimately show ?thesis using run by (simp add: jobd_message_def)
qed

theorem job_commands_are_their_shortcuts_witness:
  "run (cobra_run example_cobra example_system no_host no_terminal) example_system [''job'', ''clear'', ''--local'']
     (example_world two_waiting) =
   run (cobra_run example_cobra example_system no_host no_terminal) example_system [''--local'', ''-C'']
     (example_world two_waiting)"
proof -
  let ?opts = "start_options example_system 0" and ?p = "no_flags\<lparr>p_local := Some True\<rparr>"
  have "walk (newJobCommand example_system ?opts) [''clear'', ''--local''] = ([''clear''], [''--local''])"
    by (simp add: walk_under [OF job_clear] walk_leaf job_subcommand_def)
  then have sel: "selects example_cobra (newManagementCommand example_cobra example_system no_host ?opts) [''job'', ''clear'', ''--local''] =
      Selects [''job'', ''clear''] ?p []"
    by (simp add: example_selects read_words_def walk_under [OF root_job] Let_def)
  have at: "command_at (management_tree example_cobra example_system no_host ?opts) [''job'', ''clear''] =
      Some (job_subcommand example_system ?opts (''clear'', ''-C'', NoArgs))"
    by (simp add: root_job job_clear)
  have "takes (job_subcommand example_system ?opts (''clear'', ''-C'', NoArgs)) ?p []" "(''clear'', ''-C'') \<in> set shortcuts"
    by (simp_all add: takes_def job_subcommand_simps accepts_def shortcuts_def)
  from job_commands_are_their_shortcuts [OF example_checks_arity this(2) sel at this(1), of 1]
  show ?thesis by (simp add: chosen_options_def)
qed


end
