(* ===== verification/Spec2Isabelle.thy ===== *)
theory Spec2Isabelle
  imports WorkerMain EndToEnd CommandTree
begin

text \<open>
  A verification development of jobd, a job queue: the worker (the Go files under src/worker) and
  the command line (src/cli).

  \<^bold>\<open>The program.\<close> A worker is a daemon that runs one job at a time. Jobs come from two places: a
  controller reached over HTTPS, polled by the job loop, and the worker's own local queue, a table
  in SQLite. The worker owns that table alone; everyone else reaches it through the worker's
  control socket, an HTTP server on a Unix socket whose handlers run beside the loop. The command
  line \<open>jobd\<close> is a client of the controller and, in local mode, of the control socket; it starts
  the worker by running \<open>jobd-worker --start\<close>, which starts a detached copy of itself. What ties
  the parts together in one worker is the local queue, the client with its switch that ends remote
  work, and the state that knows which job is active and how to cancel it.

  \<^bold>\<open>Conventions.\<close> A Go method that changes a state and may fail is an operation
  \<open>state \<Rightarrow> (error + result) \<times> state\<close> (type \<open>op\<close> of Prelude, composed by \<open>bnd\<close>, with \<open>in_tx\<close> for a
  transaction that is rolled back). Errors are datatypes, a constructor per place they come from.
  A Go string is a list of bytes (HOL's \<open>string\<close>); \<open>int64\<close> values are integers with the bounds
  written out where the code can reach them (identifiers, durations, exit codes). What the code
  calls outside the repository is an argument: a driver call, a system call or a request has an
  oracle for its failures and answers, indexed by its place in the code. The definitions are
  executable; the loops with no bound of their own are \<open>partial_function (option)\<close>, and that they
  return is a theorem.

  \<^bold>\<open>Theories of the worker\<close>, in the order in which they build on each other.

  \<^item> Prelude: operations, transactions, SQL's \<open>MAX\<close> and \<open>MIN\<close>, the predicate \<open>keeps\<close> (an operation
    keeps a property of the state) and its rules for every combinator.
  \<^item> GoStrings, GoJson, GoPaths: what the program uses of Go's library: UTF-8 decoding, \<open>TrimSpace\<close>,
    \<open>Cut\<close>, \<open>ParseInt\<close>, \<open>Itoa\<close>; JSON arrays of strings as \<open>encoding/json\<close> writes and reads them, with
    the round trip; \<open>filepath.Clean\<close> and \<open>Join\<close>.
  \<^item> JobModel: \<open>Job\<close> and \<open>Result\<close> (job.go), the statuses of a row.
  \<^item> LocalQueue: local_queue.go, the table and one definition per method and per SQL statement. LocalQueueInv: the
    invariant \<open>wf_queue\<close> of the table, kept by every operation whatever driver calls fail.
    LocalQueueSpec and LocalQueueRefine: the abstract queue (waiting jobs in claim order, sets of
    running, failed and succeeded jobs), its steps \<open>spec_step\<close>, and the simulation of every operation
    by a step or by nothing. LocalQueueProps: what the operations return to their callers.
  \<^item> LocalBatch: local_batch.go; the loop over targets is a client of the locale \<open>batch_op\<close> (an action
    that keeps the invariant and fails without effect) and \<open>batch_exact\<close> (which targets succeed and
    what they do to the waiting list), interpreted on the three actions.
  \<^item> LocalSocket: local_socket.go: routes, wrapper, body decoding, handlers, \<open>POST /daemon/stop\<close>.
  \<^item> ActiveJob: active_job.go over a tree of contexts. Its calls hold a mutex, so any interleaving of
    the loop, the heartbeat and the handlers is a sequence of them.
  \<^item> Executor: executor_linux.go and job_execution.go. The two queues a job can come from are the
    locale \<open>job_backend\<close>: \<open>Output\<close> and \<open>Finish\<close>, and what is settled when they succeed;
    \<open>reliable_backend\<close> adds that they do succeed. JobEnvironment: what the process sees of the variables.
  \<^item> ControllerClient: client.go: paths, one attempt, the retry loop \<open>post\<close>, the switch to local work.
  \<^item> WorkerLoop: worker.go: one turn of \<open>Run\<close> and the loop, with the actions of other goroutines as
    functions on the shared state at every point where they can act; \<open>job_backend\<close> is interpreted on
    both backends.
  \<^item> Identity: identity_linux.go. Config: \<open>parseConfig\<close> of main.go with package flag. WorkerMain:
    \<open>openLocalSocket\<close> and \<open>runWithContext\<close>, in which order things are opened and closed.
    Daemon: daemon.go: starting, restarting and stopping the detached worker.

  \<^bold>\<open>Theories of the command line.\<close>

  \<^item> ShellQuote: format.go's quoting with the reader of shell words it is proved against, and
    \<open>listedCommand\<close>. JobTable: the other cells and rows of format.go, list.go and worker_list.go.
  \<^item> CliClient: client.go, local.go, batch.go and \<open>fetchJobs\<close>; the locale \<open>paged\<close> is a source of pages
    of a hundred items, read by the loop. CliJobs: jobs.go, worker.go, \<open>listCombined\<close>, \<open>listWorkers\<close>.
    CliEnv: env.go, with the terminal as a state.
  \<^item> CliLocal: the command line against the control socket; \<open>safe_net\<close> is a network that keeps a
    property of its state, interpreted on the socket for the soundness of the queue. CliLocalProps:
    what commands do to the queue end to end; \<open>paged\<close> is interpreted on the socket's listing.
  \<^item> CliDispatch: dispatch.go and the functions that the management commands run (cmd_job.go,
    cmd_worker.go, cmd_env.go, cmd_auth.go). CommandTree: the tree they hang in (root.go),
    \<open>strictCommandGroups\<close>, and main.go. Deployment: both programs together, each word and variable that
    one passes to the other read back by the other's own code. EndToEnd: from the words typed to the
    process that the worker starts.

  \<^bold>\<open>What is shown.\<close> The table implements a first-come-first-served queue that hands a job out once,
  never touches a running job but to report it, and never gives an identifier twice, across restarts
  too (LocalQueueProps, WorkerMain). The loop leaves no job running behind a completed turn, whatever
  the socket's clients do meanwhile, and reports each outcome or ends remote work (WorkerLoop). A
  cancellation is not lost between the queue and the start of a job (ActiveJob). Requests, actions and
  batches have the effect of the queue operations they name and no other (LocalBatch, LocalSocket,
  CliLocalProps), from the words typed to the process started (Deployment, CommandTree, EndToEnd). Secrets reach
  neither jobs, nor other hosts than an HTTPS controller, nor the output (Executor, CliEnv,
  CommandTree, Deployment). Waiting and retrying end where the code says (Daemon, ControllerClient).

  \<^bold>\<open>Loops and bounds.\<close> \<open>post_loop\<close> (client.go) goes through an unbounded sequence of rounds: it returns
  as soon as the context ends in some round, and the theorems say what it did until then. \<open>fetch_loop\<close>
  (list.go) asks for pages until one is short: it returns when the pages are those of a list, whatever
  its length. \<open>poll\<close> (the two waiting loops of daemon.go) returns when the clock moves by what was
  slept, since each loop has a deadline. The job loop itself is not meant to end: its theorems are on
  every finite sequence of turns. No fuel is used.

  \<^bold>\<open>Not modelled.\<close> SQLite and its file format: a statement is the function on rows that it stands for,
  and a driver call may fail. The HTTP server's timeouts, the mutex and the Go scheduler: handlers and
  methods are steps. Log lines. The padding of table columns by \<open>tabwriter\<close>. \<open>strconv.ParseFloat\<close>,
  \<open>time.Parse\<close>, \<open>time.ParseDuration\<close> and \<open>url.Parse\<close>, whose results are arguments. Cobra, which is
  not in the repository: what it selects for given words is an argument, and the hypothesis on its
  argument checks is the documented one. The help text and the descriptions of commands. The
  controller under src/controller (TypeScript), which appears as the network; the scripts, tests and
  documents.
\<close>

end
